(* ===== verification/Stream_Prelude.thy ===== *)
theory Stream_Prelude
  imports Complex_Main "HOL-Library.Word" "HOL-Library.AList" "HOL-Library.Multiset"
begin

text \<open>
  Shared vocabulary of the development: the machine integers of the Go source, errors and panics
  as values, slice expressions with Go's bounds checks, the big-endian accessors of
  \<^verbatim>\<open>encoding/binary\<close>, Go maps as association lists, and the generic lemmas the component
  theories share.  The interface of a fixed-width big-endian accessor is the locale
  \<open>be_codec\<close>; it is interpreted on the 16- and the 32-bit accessor.
\<close>

unbundle bit_operations_syntax

section \<open>Types\<close>

type_synonym byte = "8 word"
type_synonym u8 = "8 word"
type_synonym u16 = "16 word"
type_synonym u32 = "32 word"
type_synonym u64 = "64 word"

text \<open>
  \<^verbatim>\<open>time.Duration\<close> is a count of nanoseconds and \<^verbatim>\<open>time.Time\<close> an instant on the same scale.  Both
  are \<open>int\<close>: the 64-bit range is 292 years, which no value of the program approaches.  A zero
  \<^verbatim>\<open>time.Time\<close> (\<^verbatim>\<open>IsZero\<close>) is \<open>None\<close>.
\<close>

type_synonym duration = int
type_synonym instant = int

abbreviation Millisecond :: duration where "Millisecond \<equiv> 1000000"
abbreviation Second :: duration where "Second \<equiv> 1000000000"
abbreviation Minute :: duration where "Minute \<equiv> 60000000000"
abbreviation Hour :: duration where "Hour \<equiv> 3600000000000"

section \<open>Errors and panics as values\<close>

text \<open>
  \<open>Errorf fmt args\<close> is an error made by \<^verbatim>\<open>fmt.Errorf\<close> with the numbers it formats,
  \<open>Wrap ctx e\<close> is the \<^verbatim>\<open>ctx: %w\<close> form.  A call that returns normally is \<open>Ok\<close>, one that
  returns a non-nil error is \<open>Err\<close>, one that stops with a run-time panic (index out of range,
  nil map entry) is \<open>Panic\<close>.
\<close>

datatype goerror =
    Errorf string "int list"
  | Wrap string goerror
  | TimeoutError
  | EOF
  | AccessDeniedError string

datatype 'a result = Ok 'a | Err goerror | Panic

fun bind_result :: "'a result \<Rightarrow> ('a \<Rightarrow> 'b result) \<Rightarrow> 'b result" where
  "bind_result (Ok x) f = f x"
| "bind_result (Err e) f = Err e"
| "bind_result Panic f = Panic"

fun wrap_result :: "string \<Rightarrow> 'a result \<Rightarrow> 'a result" where
  "wrap_result ctx (Ok x) = Ok x"
| "wrap_result ctx (Err e) = Err (Wrap ctx e)"
| "wrap_result ctx Panic = Panic"

lemma bind_result_eq_Ok [simp]:
  "bind_result r f = Ok y \<longleftrightarrow> (\<exists>x. r = Ok x \<and> f x = Ok y)"
  by (cases r) auto

lemma bind_result_eq_Panic [simp]:
  "bind_result r f = Panic \<longleftrightarrow> r = Panic \<or> (\<exists>x. r = Ok x \<and> f x = Panic)"
  by (cases r) auto

lemma wrap_result_eq_Ok [simp]: "wrap_result ctx r = Ok x \<longleftrightarrow> r = Ok x"
  by (cases r) auto

lemma wrap_result_eq_Panic [simp]: "wrap_result ctx r = Panic \<longleftrightarrow> r = Panic"
  by (cases r) auto

lemma result_not_Panic_cases:
  assumes "r \<noteq> Panic"
  obtains x where "r = Ok x" | e where "r = Err e"
  using assms by (cases r) auto

section \<open>Maps\<close>

text \<open>A Go map is an association list with distinct keys; the list order is the order of insertion.\<close>

type_synonym ('k, 'v) gomap = "('k \<times> 'v) list"

section \<open>Slices\<close>

text \<open>\<^verbatim>\<open>b[i]\<close>, \<^verbatim>\<open>b[lo:]\<close> and \<^verbatim>\<open>b[lo:hi]\<close>, each with the panic of an index that is out of range.\<close>

definition index_at :: "'a list \<Rightarrow> nat \<Rightarrow> 'a result" where
  "index_at bs i = (if i < length bs then Ok (bs ! i) else Panic)"

definition slice_from :: "'a list \<Rightarrow> nat \<Rightarrow> 'a list result" where
  "slice_from bs lo = (if lo \<le> length bs then Ok (drop lo bs) else Panic)"

definition slice_range :: "'a list \<Rightarrow> nat \<Rightarrow> nat \<Rightarrow> 'a list result" where
  "slice_range bs lo hi =
     (if lo \<le> hi \<and> hi \<le> length bs then Ok (take (hi - lo) (drop lo bs)) else Panic)"

lemma slice_range_append:
  "lo = length pre \<Longrightarrow> hi = length pre + length mid \<Longrightarrow>
     slice_range (pre @ mid @ post) lo hi = Ok mid"
  by (simp add: slice_range_def)

lemma slice_range_Ok:
  "slice_range bs lo hi = Ok xs \<Longrightarrow> lo \<le> hi \<and> hi \<le> length bs \<and> length xs = hi - lo"
  by (auto simp: slice_range_def split: if_splits)

section \<open>Big-endian accessors\<close>

definition PutUint16 :: "u16 \<Rightarrow> byte list" where
  "PutUint16 w = [ucast (drop_bit 8 w), ucast w]"

definition PutUint32 :: "u32 \<Rightarrow> byte list" where
  "PutUint32 w = [ucast (drop_bit 24 w), ucast (drop_bit 16 w), ucast (drop_bit 8 w), ucast w]"

fun Uint16 :: "byte list \<Rightarrow> u16 result" where
  "Uint16 (b0 # b1 # _) = Ok (ucast b1 OR push_bit 8 (ucast b0))"
| "Uint16 _ = Panic"

fun Uint32 :: "byte list \<Rightarrow> u32 result" where
  "Uint32 (b0 # b1 # b2 # b3 # _) =
     Ok (ucast b3 OR push_bit 8 (ucast b2) OR push_bit 16 (ucast b1) OR push_bit 24 (ucast b0))"
| "Uint32 _ = Panic"

text \<open>
  The interface of a fixed-width accessor: what it writes has its width, reading what was written
  gives the value back whatever follows, a short read panics, and a long enough read gives the value
  whose encoding was read.
\<close>

locale be_codec =
  fixes put :: "'a \<Rightarrow> byte list"
    and get :: "byte list \<Rightarrow> 'a result"
    and width :: nat
  assumes length_put: "length (put x) = width"
    and get_put: "get (put x @ rest) = Ok x"
    and get_short: "length bs < width \<Longrightarrow> get bs = Panic"
    and get_long: "width \<le> length bs \<Longrightarrow> \<exists>x. get bs = Ok x \<and> put x = take width bs"
begin

lemma get_put_only: "get (put x) = Ok x"
  using get_put [of x "[]"] by simp

lemma get_Panic_iff: "get bs = Panic \<longleftrightarrow> length bs < width"
proof (cases "length bs < width")
  case True
  then show ?thesis by (simp add: get_short)
next
  case False
  then obtain x where "get bs = Ok x" using get_long [of bs] by auto
  with False show ?thesis by simp
qed

lemma get_never_Err: "get bs \<noteq> Err e"
  using get_short [of bs] get_long [of bs] by (cases "length bs < width") auto

lemma get_at_offset:
  assumes "lo = length pre"
  shows "bind_result (slice_from (pre @ put x @ post) lo) get = Ok x"
  using assms by (simp add: slice_from_def get_put)

lemma get_at_Panic_iff:
  "bind_result (slice_from bs lo) get = Panic \<longleftrightarrow> length bs < lo + width"
  by (auto simp: slice_from_def get_Panic_iff)

lemma put_inject: "put x = put y \<longleftrightarrow> x = y"
  by (metis get_put_only result.inject(1))

lemma length_concat_put: "length (concat (map put xs)) = width * length xs"
  by (induction xs) (simp_all add: length_put)

end

lemma Uint16_PutUint16: "Uint16 (PutUint16 w @ rest) = Ok w"
proof -
  have "ucast (ucast w :: byte) OR push_bit 8 (ucast (ucast (drop_bit 8 w) :: byte)) = w"
    by (rule bit_word_eqI) (auto simp: bit_simps)
  then show ?thesis by (simp add: PutUint16_def)
qed

lemma Uint32_PutUint32: "Uint32 (PutUint32 w @ rest) = Ok w"
proof -
  have "ucast (ucast w :: byte) OR push_bit 8 (ucast (ucast (drop_bit 8 w) :: byte))
      OR push_bit 16 (ucast (ucast (drop_bit 16 w) :: byte))
      OR push_bit 24 (ucast (ucast (drop_bit 24 w) :: byte)) = w" (is "?l = w")
  proof (rule bit_word_eqI)
    fix n :: nat
    assume "n < LENGTH(32)"
    then show "bit ?l n = bit w n"
      by (cases "n < 16"; cases "n < 24") (auto simp: bit_simps)
  qed
  then show ?thesis by (simp add: PutUint32_def)
qed

lemma length_PutUint16: "length (PutUint16 w) = 2"
  by (simp add: PutUint16_def)

lemma length_PutUint32: "length (PutUint32 w) = 4"
  by (simp add: PutUint32_def)

lemma byte_bit_high [simp]: "\<not> bit (b :: byte) (8 + n)" "\<not> bit b (16 + n)" "\<not> bit b (24 + n)"
  using bit_imp_le_length [of b "8 + n"] bit_imp_le_length [of b "16 + n"]
    bit_imp_le_length [of b "24 + n"]
  by auto

lemma PutUint16_Uint16: "PutUint16 (ucast b1 OR push_bit 8 (ucast b0)) = [b0, b1]"
  unfolding PutUint16_def by (auto intro!: bit_word_eqI simp: bit_simps)

lemma PutUint32_Uint32:
  "PutUint32 (ucast b3 OR push_bit 8 (ucast b2) OR push_bit 16 (ucast b1) OR push_bit 24 (ucast b0))
     = [b0, b1, b2, b3]"
  unfolding PutUint32_def by (auto intro!: bit_word_eqI simp: bit_simps)

lemma list_length_ge_2: "2 \<le> length bs \<Longrightarrow> \<exists>a b r. bs = a # b # r"
  by (cases bs; cases "tl bs") auto

lemma list_length_ge_4: "4 \<le> length bs \<Longrightarrow> \<exists>a b c d r. bs = a # b # c # d # r"
  by (metis (no_types) Suc_le_length_iff eval_nat_numeral(2) numeral_2_eq_2 numeral_3_eq_3
      semiring_norm(26) semiring_norm(27) semiring_norm(28))

interpretation be16: be_codec PutUint16 Uint16 2
proof unfold_locales
  show "length (PutUint16 x) = 2" for x by (rule length_PutUint16)
  show "Uint16 (PutUint16 x @ rest) = Ok x" for x rest by (rule Uint16_PutUint16)
  show "Uint16 bs = Panic" if "length bs < 2" for bs
    using that by (cases bs rule: Uint16.cases) auto
  show "\<exists>x. Uint16 bs = Ok x \<and> PutUint16 x = take 2 bs" if "2 \<le> length bs" for bs
    using list_length_ge_2 [OF that] by (auto simp: PutUint16_Uint16)
qed

interpretation be32: be_codec PutUint32 Uint32 4
proof unfold_locales
  show "length (PutUint32 x) = 4" for x by (rule length_PutUint32)
  show "Uint32 (PutUint32 x @ rest) = Ok x" for x rest by (rule Uint32_PutUint32)
  show "Uint32 bs = Panic" if "length bs < 4" for bs
    using that by (cases bs rule: Uint32.cases) auto
  show "\<exists>x. Uint32 bs = Ok x \<and> PutUint32 x = take 4 bs" if "4 \<le> length bs" for bs
    using list_length_ge_4 [OF that] by (auto simp: PutUint32_Uint32)
qed

declare length_PutUint16 [simp] length_PutUint32 [simp]
declare Uint16_PutUint16 [simp] Uint32_PutUint32 [simp]

section \<open>Counters and map entries\<close>

lemma unat_Suc_u32: "unat (w :: u32) < 4294967295 \<Longrightarrow> unat (w + 1) = unat w + 1"
  by (subst unat_add_lem [THEN iffD1]) (simp_all add: unat_add_lem [symmetric])

lemma length_delete:
  assumes "distinct (map fst xs)" and "map_of xs k = Some v"
  shows "Suc (length (AList.delete k xs)) = length xs"
  using assms
proof (induction xs)
  case (Cons x xs)
  show ?case
  proof (cases "fst x = k")
    case True
    then have "k \<notin> fst ` set xs" using Cons.prems(1) by auto
    with True show ?thesis by (cases x) (simp add: delete_idem)
  next
    case False
    with Cons show ?thesis by (cases x) auto
  qed
qed simp

end
