(* ===== verification/Packet_Codec.thy ===== *)
theory Packet_Codec
  imports Stream_Prelude
begin

text \<open>
  The packet format of \<^verbatim>\<open>packet.go\<close>: the flag bits, \<^verbatim>\<open>OfflineSig\<close> and \<^verbatim>\<open>Packet\<close>, the length tables of
  the signature types, \<^verbatim>\<open>Marshal\<close> with all its helpers and \<^verbatim>\<open>Unmarshal\<close> with all its helpers, written
  over byte lists with Go's bounds checks.  The destination type and the certificate parser come from
  \<^verbatim>\<open>go-i2cp\<close> and \<^verbatim>\<open>go-i2p/common\<close>, which are not part of the repository: they are the parameter
  \<open>i2plib\<close> of every definition that uses them.
\<close>

section \<open>The libraries outside the repository\<close>

text \<open>
  A destination is an opaque value \<open>'d\<close>, a parsed certificate an opaque value \<open>'c\<close>, an Ed25519 key
  pair an opaque value \<open>'k\<close>.  A call that returns an error is \<open>Inl\<close>.  \<open>SigningPublicKey\<close> is the raw
  public key of a destination (\<open>None\<close> when it has none); \<open>ed25519Verify\<close> and \<open>Sum256\<close> are the
  primitives of \<^verbatim>\<open>crypto/ed25519\<close> and \<^verbatim>\<open>crypto/sha256\<close>.
\<close>

record ('d, 'c, 'k) i2plib =
  WriteToMessage :: "'d \<Rightarrow> goerror + byte list"
  WriteToStream :: "'d \<Rightarrow> goerror + byte list"
  NewDestinationFromMessage :: "byte list \<Rightarrow> goerror + 'd"
  VerifySignature :: "'d \<Rightarrow> byte list \<Rightarrow> byte list \<Rightarrow> bool"
  Sign :: "'k \<Rightarrow> byte list \<Rightarrow> goerror + byte list"
  SigningPublicKey :: "'d \<Rightarrow> byte list option"
  ed25519Verify :: "byte list \<Rightarrow> byte list \<Rightarrow> byte list \<Rightarrow> bool"
  Sum256 :: "byte list \<Rightarrow> byte list"
  ReadCertificate :: "byte list \<Rightarrow> goerror + 'c option"
  CertificateType :: "'c \<Rightarrow> goerror + int"
  GetSignatureTypeFromCertificate :: "'c \<Rightarrow> goerror + int"
  CERT_MIN_SIZE :: nat
  CERT_NULL :: int
  CERT_KEY :: int

section \<open>Flags\<close>

definition FlagSYN :: u16 where "FlagSYN = push_bit 0 1"
definition FlagCLOSE :: u16 where "FlagCLOSE = push_bit 1 1"
definition FlagRESET :: u16 where "FlagRESET = push_bit 2 1"
definition FlagSignatureIncluded :: u16 where "FlagSignatureIncluded = push_bit 3 1"
definition FlagSignatureRequested :: u16 where "FlagSignatureRequested = push_bit 4 1"
definition FlagFromIncluded :: u16 where "FlagFromIncluded = push_bit 5 1"
definition FlagDelayRequested :: u16 where "FlagDelayRequested = push_bit 6 1"
definition FlagMaxPacketSizeIncluded :: u16 where "FlagMaxPacketSizeIncluded = push_bit 7 1"
definition FlagProfileInteractive :: u16 where "FlagProfileInteractive = push_bit 8 1"
definition FlagECHO :: u16 where "FlagECHO = push_bit 9 1"
definition FlagNoACK :: u16 where "FlagNoACK = push_bit 10 1"
definition FlagOfflineSignature :: u16 where "FlagOfflineSignature = push_bit 11 1"

lemmas flag_defs = FlagSYN_def FlagCLOSE_def FlagRESET_def FlagSignatureIncluded_def
  FlagSignatureRequested_def FlagFromIncluded_def FlagDelayRequested_def
  FlagMaxPacketSizeIncluded_def FlagProfileInteractive_def FlagECHO_def FlagNoACK_def
  FlagOfflineSignature_def

section \<open>Data\<close>

record OfflineSig =
  Expires :: u32
  TransientSigType :: u16
  TransientPublicKey :: "byte list"
  DestSignature :: "byte list"

record 'd Packet =
  SendStreamID :: u32
  RecvStreamID :: u32
  SequenceNum :: u32
  AckThrough :: u32
  Flags :: u16
  NACKs :: "u32 list"
  OptionalDelay :: u16
  ResendDelay :: u8
  MaxPacketSize :: u16
  FromDestination :: "'d option"
  Signature :: "byte list"
  OfflineSignature :: "OfflineSig option"
  Payload :: "byte list"

text \<open>\<^verbatim>\<open>&Packet{}\<close>: every field at its zero value.\<close>

definition emptyPacket :: "'d Packet" where
  "emptyPacket = \<lparr>SendStreamID = 0, RecvStreamID = 0, SequenceNum = 0, AckThrough = 0, Flags = 0,
     NACKs = [], OptionalDelay = 0, ResendDelay = 0, MaxPacketSize = 0, FromDestination = None,
     Signature = [], OfflineSignature = None, Payload = []\<rparr>"

definition hasFlag :: "'d Packet \<Rightarrow> u16 \<Rightarrow> bool" where
  "hasFlag p f \<longleftrightarrow> Flags p AND f \<noteq> 0"

section \<open>Signature types\<close>

definition SignatureTypeDSA_SHA1 :: int where "SignatureTypeDSA_SHA1 = 0"
definition SignatureTypeECDSA_SHA256_P256 :: int where "SignatureTypeECDSA_SHA256_P256 = 1"
definition SignatureTypeECDSA_SHA384_P384 :: int where "SignatureTypeECDSA_SHA384_P384 = 2"
definition SignatureTypeECDSA_SHA512_P521 :: int where "SignatureTypeECDSA_SHA512_P521 = 3"
definition SignatureTypeRSA_SHA256_2048 :: int where "SignatureTypeRSA_SHA256_2048 = 4"
definition SignatureTypeRSA_SHA384_3072 :: int where "SignatureTypeRSA_SHA384_3072 = 5"
definition SignatureTypeRSA_SHA512_4096 :: int where "SignatureTypeRSA_SHA512_4096 = 6"
definition SignatureTypeEd25519 :: int where "SignatureTypeEd25519 = 7"
definition SignatureTypeEd25519ph :: int where "SignatureTypeEd25519ph = 8"

lemmas sigtype_defs = SignatureTypeDSA_SHA1_def SignatureTypeECDSA_SHA256_P256_def
  SignatureTypeECDSA_SHA384_P384_def SignatureTypeECDSA_SHA512_P521_def
  SignatureTypeRSA_SHA256_2048_def SignatureTypeRSA_SHA384_3072_def
  SignatureTypeRSA_SHA512_4096_def SignatureTypeEd25519_def SignatureTypeEd25519ph_def

definition DestinationPublicKeySize :: nat where "DestinationPublicKeySize = 256"
definition DestinationSigningKeyPadding :: nat where "DestinationSigningKeyPadding = 128"

text \<open>The result pair \<^verbatim>\<open>(sigType, true)\<close> is \<open>Some sigType\<close>, \<^verbatim>\<open>(0, false)\<close> is \<open>None\<close>.\<close>

definition parseSignatureTypeFromBytes :: "('d, 'c, 'k) i2plib \<Rightarrow> byte list \<Rightarrow> int option" where
  "parseSignatureTypeFromBytes lib data =
     (if length data < DestinationPublicKeySize + DestinationSigningKeyPadding + CERT_MIN_SIZE lib
      then None
      else case ReadCertificate lib (drop (DestinationPublicKeySize + DestinationSigningKeyPadding) data) of
        Inl _ \<Rightarrow> None
      | Inr None \<Rightarrow> None
      | Inr (Some cert) \<Rightarrow>
          (case CertificateType lib cert of
             Inl _ \<Rightarrow> None
           | Inr certType \<Rightarrow>
               if certType = CERT_NULL lib then Some SignatureTypeDSA_SHA1
               else if certType = CERT_KEY lib then
                 (case GetSignatureTypeFromCertificate lib cert of
                    Inl _ \<Rightarrow> None
                  | Inr sigType \<Rightarrow> Some sigType)
               else Some SignatureTypeEd25519))"

text \<open>\<^verbatim>\<open>serializeDestination\<close>: \<open>None\<close> is the nil slice.\<close>

definition serializeDestination :: "('d, 'c, 'k) i2plib \<Rightarrow> 'd option \<Rightarrow> byte list option" where
  "serializeDestination lib dest =
     (case dest of
        None \<Rightarrow> None
      | Some d \<Rightarrow> (case WriteToMessage lib d of Inl _ \<Rightarrow> None | Inr bs \<Rightarrow> Some bs))"

definition getSignatureTypeFromDestination :: "('d, 'c, 'k) i2plib \<Rightarrow> 'd option \<Rightarrow> int" where
  "getSignatureTypeFromDestination lib dest =
     (case dest of
        None \<Rightarrow> SignatureTypeEd25519
      | Some d \<Rightarrow>
          (case serializeDestination lib (Some d) of
             None \<Rightarrow> SignatureTypeEd25519
           | Some destBytes \<Rightarrow>
               (case parseSignatureTypeFromBytes lib destBytes of
                  None \<Rightarrow> SignatureTypeEd25519
                | Some sigType \<Rightarrow> sigType)))"

definition getSignatureLength :: "('d, 'c, 'k) i2plib \<Rightarrow> 'd option \<Rightarrow> nat" where
  "getSignatureLength lib dest =
     (case dest of
        None \<Rightarrow> 0
      | Some d \<Rightarrow>
          (let sigType = getSignatureTypeFromDestination lib (Some d) in
           if sigType = SignatureTypeDSA_SHA1 then 40
           else if sigType = SignatureTypeECDSA_SHA256_P256 then 64
           else if sigType = SignatureTypeECDSA_SHA384_P384 then 96
           else if sigType = SignatureTypeECDSA_SHA512_P521 then 132
           else if sigType = SignatureTypeRSA_SHA256_2048 then 256
           else if sigType = SignatureTypeRSA_SHA384_3072 then 384
           else if sigType = SignatureTypeRSA_SHA512_4096 then 512
           else if sigType = SignatureTypeEd25519 \<or> sigType = SignatureTypeEd25519ph then 64
           else 64))"

definition getPublicKeyLength :: "u16 \<Rightarrow> nat" where
  "getPublicKeyLength sigType =
     (let t = uint sigType in
      if t = SignatureTypeDSA_SHA1 then 128
      else if t = SignatureTypeECDSA_SHA256_P256 then 64
      else if t = SignatureTypeECDSA_SHA384_P384 then 96
      else if t = SignatureTypeECDSA_SHA512_P521 then 132
      else if t = SignatureTypeRSA_SHA256_2048 then 256
      else if t = SignatureTypeRSA_SHA384_3072 then 384
      else if t = SignatureTypeRSA_SHA512_4096 then 512
      else if t = SignatureTypeEd25519 \<or> t = SignatureTypeEd25519ph then 32
      else 0)"

section \<open>Marshal\<close>

definition calculateFromDestinationSize :: "('d, 'c, 'k) i2plib \<Rightarrow> 'd Packet \<Rightarrow> byte list result" where
  "calculateFromDestinationSize lib p =
     (if \<not> hasFlag p FlagFromIncluded then Ok []
      else case FromDestination p of
        None \<Rightarrow> Err (Errorf ''FlagFromIncluded set but FromDestination is nil'' [])
      | Some d \<Rightarrow>
          (case WriteToMessage lib d of
             Inl e \<Rightarrow> Err (Wrap ''encode FROM destination'' e)
           | Inr bs \<Rightarrow> Ok bs))"

definition calculateSignatureSize :: "('d, 'c, 'k) i2plib \<Rightarrow> 'd Packet \<Rightarrow> nat result" where
  "calculateSignatureSize lib p =
     (if \<not> hasFlag p FlagSignatureIncluded then Ok 0
      else let sigLen = getSignatureLength lib (FromDestination p) in
        if sigLen = 0
        then Err (Errorf ''FlagSignatureIncluded set but cannot determine signature length'' [])
        else Ok sigLen)"

definition calculateOfflineSignatureSize :: "('d, 'c, 'k) i2plib \<Rightarrow> 'd Packet \<Rightarrow> nat result" where
  "calculateOfflineSignatureSize lib p =
     (if \<not> hasFlag p FlagOfflineSignature then Ok 0
      else case OfflineSignature p of
        None \<Rightarrow> Err (Errorf ''FlagOfflineSignature set but OfflineSignature is nil'' [])
      | Some offsig \<Rightarrow>
          Ok (4 + 2 + getPublicKeyLength (TransientSigType offsig)
                + getSignatureLength lib (FromDestination p)))"

definition marshalRequiredFields :: "'d Packet \<Rightarrow> byte list \<Rightarrow> byte list" where
  "marshalRequiredFields p buf =
     buf @ PutUint32 (SendStreamID p) @ PutUint32 (RecvStreamID p)
         @ PutUint32 (SequenceNum p) @ PutUint32 (AckThrough p)"

definition marshalNACKs :: "'d Packet \<Rightarrow> byte list \<Rightarrow> byte list result" where
  "marshalNACKs p buf =
     (if length (NACKs p) > 255
      then Err (Errorf ''too many NACKs: got %d, max 255'' [int (length (NACKs p))])
      else Ok (fold (\<lambda>nack b. b @ PutUint32 nack) (NACKs p) (buf @ [of_nat (length (NACKs p))])
                 @ [ResendDelay p]))"

definition marshalFlagsAndOptionSize :: "'d Packet \<Rightarrow> byte list \<Rightarrow> u16 \<Rightarrow> byte list" where
  "marshalFlagsAndOptionSize p buf optionSize = buf @ PutUint16 (Flags p) @ PutUint16 optionSize"

definition marshalDelayField :: "'d Packet \<Rightarrow> byte list \<Rightarrow> byte list" where
  "marshalDelayField p buf =
     (if \<not> hasFlag p FlagDelayRequested then buf else buf @ PutUint16 (OptionalDelay p))"

definition marshalFromDestination :: "'d Packet \<Rightarrow> byte list \<Rightarrow> byte list \<Rightarrow> byte list" where
  "marshalFromDestination p buf fromBytes =
     (if \<not> hasFlag p FlagFromIncluded then buf else buf @ fromBytes)"

definition marshalMaxPacketSize :: "'d Packet \<Rightarrow> byte list \<Rightarrow> byte list" where
  "marshalMaxPacketSize p buf =
     (if \<not> hasFlag p FlagMaxPacketSizeIncluded then buf else buf @ PutUint16 (MaxPacketSize p))"

definition marshalSignature :: "'d Packet \<Rightarrow> byte list \<Rightarrow> nat \<Rightarrow> byte list result" where
  "marshalSignature p buf sigLen =
     (if \<not> hasFlag p FlagSignatureIncluded then Ok buf
      else if length (Signature p) > 0 then
        (if length (Signature p) \<noteq> sigLen
         then Err (Errorf ''signature length mismatch: expected %d, got %d''
                [int sigLen, int (length (Signature p))])
         else Ok (buf @ Signature p))
      else Ok (buf @ replicate sigLen 0))"

text \<open>A nil \<^verbatim>\<open>OfflineSignature\<close> is dereferenced here: \<open>Panic\<close>.\<close>

definition marshalOfflineSignature :: "('d, 'c, 'k) i2plib \<Rightarrow> 'd Packet \<Rightarrow> byte list \<Rightarrow> byte list result" where
  "marshalOfflineSignature lib p buf =
     (if \<not> hasFlag p FlagOfflineSignature then Ok buf
      else case OfflineSignature p of
        None \<Rightarrow> Panic
      | Some offsig \<Rightarrow>
          (let buf = buf @ PutUint32 (Expires offsig) @ PutUint16 (TransientSigType offsig);
               transientKeyLen = getPublicKeyLength (TransientSigType offsig);
               destSigLen = getSignatureLength lib (FromDestination p)
           in if length (TransientPublicKey offsig) \<noteq> transientKeyLen
              then Err (Errorf ''transient public key length mismatch: expected %d, got %d''
                     [int transientKeyLen, int (length (TransientPublicKey offsig))])
              else if length (DestSignature offsig) \<noteq> destSigLen
              then Err (Errorf ''offline signature dest signature length mismatch: expected %d, got %d''
                     [int destSigLen, int (length (DestSignature offsig))])
              else Ok (buf @ TransientPublicKey offsig @ DestSignature offsig)))"

text \<open>The conversion \<^verbatim>\<open>uint16(...)\<close> wraps.\<close>

definition calculateTotalOptionSize :: "'d Packet \<Rightarrow> nat \<Rightarrow> nat \<Rightarrow> nat \<Rightarrow> u16" where
  "calculateTotalOptionSize p fromBytesLen sigLen offlineSigSize =
     0 + (if hasFlag p FlagDelayRequested then 2 else 0)
       + (if hasFlag p FlagMaxPacketSizeIncluded then 2 else 0)
       + of_nat (fromBytesLen + sigLen + offlineSigSize)"

definition calculateOptionSizes ::
    "('d, 'c, 'k) i2plib \<Rightarrow> 'd Packet \<Rightarrow> (byte list \<times> nat \<times> nat \<times> u16) result" where
  "calculateOptionSizes lib p =
     bind_result (calculateFromDestinationSize lib p) (\<lambda>fromBytes.
     bind_result (calculateSignatureSize lib p) (\<lambda>sigLen.
     bind_result (calculateOfflineSignatureSize lib p) (\<lambda>offlineSigSize.
     Ok (fromBytes, sigLen, offlineSigSize,
         calculateTotalOptionSize p (length fromBytes) sigLen offlineSigSize))))"

definition marshalPacketBody ::
    "('d, 'c, 'k) i2plib \<Rightarrow> 'd Packet \<Rightarrow> byte list \<Rightarrow> byte list \<Rightarrow> nat \<Rightarrow> u16 \<Rightarrow> byte list result" where
  "marshalPacketBody lib p buf fromBytes sigLen optionSize =
     bind_result (marshalNACKs p buf) (\<lambda>buf.
     let buf = marshalFlagsAndOptionSize p buf optionSize;
         buf = marshalDelayField p buf;
         buf = marshalFromDestination p buf fromBytes;
         buf = marshalMaxPacketSize p buf
     in bind_result (marshalOfflineSignature lib p buf) (\<lambda>buf.
        marshalSignature p buf sigLen))"

definition Marshal :: "('d, 'c, 'k) i2plib \<Rightarrow> 'd Packet \<Rightarrow> byte list result" where
  "Marshal lib p =
     bind_result (calculateOptionSizes lib p) (\<lambda>(fromBytes, sigLen, _, optionSize).
     let buf = marshalRequiredFields p [] in
     bind_result (marshalPacketBody lib p buf fromBytes sigLen optionSize) (\<lambda>buf.
     Ok (buf @ Payload p)))"

section \<open>Unmarshal\<close>

text \<open>
  Each helper takes the packet under construction and returns it with the new offset.  The packet
  of a failed call is dropped: every caller discards it.
\<close>

definition read16 :: "byte list \<Rightarrow> nat \<Rightarrow> u16 result" where
  "read16 data offset = bind_result (slice_from data offset) Uint16"

definition read32 :: "byte list \<Rightarrow> nat \<Rightarrow> u32 result" where
  "read32 data offset = bind_result (slice_from data offset) Uint32"

definition unmarshalRequiredFields :: "'d Packet \<Rightarrow> byte list \<Rightarrow> ('d Packet \<times> nat) result" where
  "unmarshalRequiredFields p data =
     bind_result (read32 data 0) (\<lambda>sid.
     bind_result (read32 data 4) (\<lambda>rid.
     bind_result (read32 data 8) (\<lambda>seq.
     bind_result (read32 data 12) (\<lambda>ack.
     Ok (p\<lparr>SendStreamID := sid, RecvStreamID := rid, SequenceNum := seq, AckThrough := ack\<rparr>, 16)))))"

text \<open>The loop that fills \<^verbatim>\<open>p.NACKs\<close>, four bytes a time.\<close>

fun read_nacks :: "nat \<Rightarrow> byte list \<Rightarrow> nat \<Rightarrow> (u32 list \<times> nat) result" where
  "read_nacks 0 data offset = Ok ([], offset)"
| "read_nacks (Suc n) data offset =
     bind_result (read32 data offset) (\<lambda>nack.
     bind_result (read_nacks n data (offset + 4)) (\<lambda>(ns, off). Ok (nack # ns, off)))"

definition unmarshalNACKs :: "'d Packet \<Rightarrow> byte list \<Rightarrow> nat \<Rightarrow> ('d Packet \<times> nat) result" where
  "unmarshalNACKs p data offset =
     bind_result (index_at data offset) (\<lambda>b.
     let nackCount = unat b; offset = offset + 1 in
     if nackCount = 0 then Ok (p, offset)
     else if length data < offset + nackCount * 4
     then Err (Errorf ''packet too short for NACKs: got %d bytes, need %d for %d NACKs''
            [int (length data) - int offset, int nackCount * 4, int nackCount])
     else bind_result (read_nacks nackCount data offset) (\<lambda>(ns, off). Ok (p\<lparr>NACKs := ns\<rparr>, off)))"

definition unmarshalOptionalDelay ::
    "'d Packet \<Rightarrow> byte list \<Rightarrow> nat \<Rightarrow> nat \<Rightarrow> ('d Packet \<times> nat) result" where
  "unmarshalOptionalDelay p data offset optionsEnd =
     (if \<not> hasFlag p FlagDelayRequested then Ok (p, offset)
      else if offset + 2 > optionsEnd
      then Err (Errorf ''option data too short for OptionalDelay'' [])
      else bind_result (read16 data offset) (\<lambda>d. Ok (p\<lparr>OptionalDelay := d\<rparr>, offset + 2)))"

definition unmarshalMaxPacketSize ::
    "'d Packet \<Rightarrow> byte list \<Rightarrow> nat \<Rightarrow> nat \<Rightarrow> ('d Packet \<times> nat) result" where
  "unmarshalMaxPacketSize p data offset optionsEnd =
     (if \<not> hasFlag p FlagMaxPacketSizeIncluded then Ok (p, offset)
      else if offset + 2 > optionsEnd
      then Err (Errorf ''option data too short for MaxPacketSize'' [])
      else bind_result (read16 data offset) (\<lambda>m. Ok (p\<lparr>MaxPacketSize := m\<rparr>, offset + 2)))"

definition unmarshalFromDestination ::
    "('d, 'c, 'k) i2plib \<Rightarrow> 'd Packet \<Rightarrow> byte list \<Rightarrow> nat \<Rightarrow> nat \<Rightarrow> ('d Packet \<times> nat) result" where
  "unmarshalFromDestination lib p data offset optionsEnd =
     (if \<not> hasFlag p FlagFromIncluded then Ok (p, offset)
      else if offset \<ge> optionsEnd
      then Err (Errorf ''option data too short for FROM destination'' [])
      else bind_result (slice_range data offset optionsEnd) (\<lambda>window.
        case NewDestinationFromMessage lib window of
          Inl e \<Rightarrow> Err (Wrap ''unmarshal FROM destination'' e)
        | Inr dest \<Rightarrow>
            (case WriteToMessage lib dest of
               Inl e \<Rightarrow> Err (Wrap ''calculate FROM destination size'' e)
             | Inr enc \<Rightarrow> Ok (p\<lparr>FromDestination := Some dest\<rparr>, offset + length enc))))"

definition unmarshalSignature ::
    "('d, 'c, 'k) i2plib \<Rightarrow> 'd Packet \<Rightarrow> byte list \<Rightarrow> nat \<Rightarrow> nat \<Rightarrow> ('d Packet \<times> nat) result" where
  "unmarshalSignature lib p data offset optionsEnd =
     (if \<not> hasFlag p FlagSignatureIncluded then Ok (p, offset)
      else let sigLen = getSignatureLength lib (FromDestination p) in
        if sigLen = 0
        then Err (Errorf ''cannot determine signature length (no FROM destination)'' [])
        else if offset + sigLen > optionsEnd
        then Err (Errorf ''option data too short for signature: need %d bytes, have %d''
               [int sigLen, int optionsEnd - int offset])
        else bind_result (slice_range data offset (offset + sigLen)) (\<lambda>sg.
          Ok (p\<lparr>Signature := sg\<rparr>, offset + sigLen)))"

definition unmarshalOfflineSigHeader ::
    "byte list \<Rightarrow> nat \<Rightarrow> OfflineSig \<Rightarrow> (OfflineSig \<times> nat) result" where
  "unmarshalOfflineSigHeader data offset offsig =
     bind_result (read32 data offset) (\<lambda>ex.
     bind_result (read16 data (offset + 4)) (\<lambda>ty.
     Ok (offsig\<lparr>Expires := ex, TransientSigType := ty\<rparr>, offset + 4 + 2)))"

definition unmarshalTransientKey ::
    "byte list \<Rightarrow> nat \<Rightarrow> nat \<Rightarrow> OfflineSig \<Rightarrow> (OfflineSig \<times> nat) result" where
  "unmarshalTransientKey data offset optionsEnd offsig =
     (let transientKeyLen = getPublicKeyLength (TransientSigType offsig) in
      if transientKeyLen = 0
      then Err (Errorf ''cannot determine transient public key length for type %d''
             [uint (TransientSigType offsig)])
      else if offset + transientKeyLen > optionsEnd
      then Err (Errorf ''option data too short for transient public key: need %d bytes, have %d''
             [int transientKeyLen, int optionsEnd - int offset])
      else bind_result (slice_range data offset (offset + transientKeyLen)) (\<lambda>k.
        Ok (offsig\<lparr>TransientPublicKey := k\<rparr>, offset + transientKeyLen)))"

definition unmarshalDestSignature ::
    "('d, 'c, 'k) i2plib \<Rightarrow> 'd Packet \<Rightarrow> byte list \<Rightarrow> nat \<Rightarrow> nat \<Rightarrow> OfflineSig \<Rightarrow> (OfflineSig \<times> nat) result" where
  "unmarshalDestSignature lib p data offset optionsEnd offsig =
     (let destSigLen = getSignatureLength lib (FromDestination p) in
      if destSigLen = 0
      then Err (Errorf ''cannot determine offline signature dest signature length (no FROM destination)'' [])
      else if offset + destSigLen > optionsEnd
      then Err (Errorf ''option data too short for offline signature dest signature: need %d bytes, have %d''
             [int destSigLen, int optionsEnd - int offset])
      else bind_result (slice_range data offset (offset + destSigLen)) (\<lambda>sg.
        Ok (offsig\<lparr>DestSignature := sg\<rparr>, offset + destSigLen)))"

definition unmarshalOfflineSignature ::
    "('d, 'c, 'k) i2plib \<Rightarrow> 'd Packet \<Rightarrow> byte list \<Rightarrow> nat \<Rightarrow> nat \<Rightarrow> ('d Packet \<times> nat) result" where
  "unmarshalOfflineSignature lib p data offset optionsEnd =
     (if \<not> hasFlag p FlagOfflineSignature then Ok (p, offset)
      else if offset + 6 > optionsEnd
      then Err (Errorf ''option data too short for offline signature header'' [])
      else
        bind_result (unmarshalOfflineSigHeader data offset
          \<lparr>Expires = 0, TransientSigType = 0, TransientPublicKey = [], DestSignature = []\<rparr>)
          (\<lambda>(offsig, offset).
        bind_result (unmarshalTransientKey data offset optionsEnd offsig) (\<lambda>(offsig, offset).
        bind_result (unmarshalDestSignature lib p data offset optionsEnd offsig) (\<lambda>(offsig, offset).
        Ok (p\<lparr>OfflineSignature := Some offsig\<rparr>, offset)))))"

definition unmarshalHeader :: "'d Packet \<Rightarrow> byte list \<Rightarrow> ('d Packet \<times> nat \<times> nat) result" where
  "unmarshalHeader p data =
     bind_result (unmarshalRequiredFields p data) (\<lambda>(p, offset).
     bind_result (unmarshalNACKs p data offset) (\<lambda>(p, offset).
     bind_result (index_at data offset) (\<lambda>rd.
     bind_result (read16 data (offset + 1)) (\<lambda>fl.
     bind_result (read16 data (offset + 3)) (\<lambda>optionSize.
     let p = p\<lparr>ResendDelay := rd, Flags := fl\<rparr>; offset = offset + 5 in
     if length data < offset + unat optionSize
     then Err (Errorf ''packet too short for options: got %d bytes, need %d''
            [int (length data), int offset + uint optionSize])
     else Ok (p, offset, offset + unat optionSize))))))"

definition unmarshalOptions ::
    "('d, 'c, 'k) i2plib \<Rightarrow> 'd Packet \<Rightarrow> byte list \<Rightarrow> nat \<Rightarrow> nat \<Rightarrow> 'd Packet result" where
  "unmarshalOptions lib p data offset optionsEnd =
     bind_result (unmarshalOptionalDelay p data offset optionsEnd) (\<lambda>(p, offset).
     bind_result (unmarshalFromDestination lib p data offset optionsEnd) (\<lambda>(p, offset).
     bind_result (unmarshalMaxPacketSize p data offset optionsEnd) (\<lambda>(p, offset).
     bind_result (unmarshalOfflineSignature lib p data offset optionsEnd) (\<lambda>(p, offset).
     bind_result (unmarshalSignature lib p data offset optionsEnd) (\<lambda>(p, _).
     Ok p)))))"

definition Unmarshal :: "('d, 'c, 'k) i2plib \<Rightarrow> 'd Packet \<Rightarrow> byte list \<Rightarrow> 'd Packet result" where
  "Unmarshal lib p data =
     (if length data < 22
      then Err (Errorf ''packet too short: got %d bytes, need at least 22'' [int (length data)])
      else
        bind_result (unmarshalHeader p data) (\<lambda>(p, offset, optionsEnd).
        bind_result (unmarshalOptions lib p data offset optionsEnd) (\<lambda>p.
        Ok (if optionsEnd < length data then p\<lparr>Payload := drop optionsEnd data\<rparr> else p))))"

section \<open>Identifiers\<close>

text \<open>
  \<^verbatim>\<open>crypto/rand\<close> is a source of four-byte reads: a list whose elements are the successive results of
  \<^verbatim>\<open>rand.Read\<close>, \<open>Inl\<close> for a read that fails.  Each function returns the rest of the list.  A run that
  has not read a non-zero value by the end of the list has not returned: \<open>None\<close>.
\<close>

type_synonym randsource = "(goerror + u32) list"

fun generateISN :: "randsource \<Rightarrow> (u32 result \<times> randsource) option" where
  "generateISN [] = None"
| "generateISN (Inl e # rs) = Some (Err (Wrap ''generate random ISN'' e), rs)"
| "generateISN (Inr w # rs) = Some (Ok w, rs)"

fun generateStreamID :: "randsource \<Rightarrow> (u32 result \<times> randsource) option" where
  "generateStreamID [] = None"
| "generateStreamID (Inl e # rs) = Some (Err (Wrap ''generate random stream ID'' e), rs)"
| "generateStreamID (Inr w # rs) = (if w > 0 then Some (Ok w, rs) else generateStreamID rs)"

end
