(* ===== verification/Packet_Wire.thy ===== *)
theory Packet_Wire
  imports Packet_Codec
begin

text \<open>
  What \<^verbatim>\<open>Marshal\<close> and \<^verbatim>\<open>Unmarshal\<close> promise.  The wire format is stated as a plain concatenation
  (\<open>wire_format\<close>); \<^verbatim>\<open>Marshal\<close> produces exactly these bytes or one of its errors, \<^verbatim>\<open>Unmarshal\<close> is its
  inverse up to the fields the flags leave out (\<open>wire_view\<close>), and the inputs on which \<^verbatim>\<open>Unmarshal\<close>
  panics are characterised exactly.
\<close>

section \<open>The wire format\<close>

definition delay_option :: "'d Packet \<Rightarrow> byte list" where
  "delay_option p = (if hasFlag p FlagDelayRequested then PutUint16 (OptionalDelay p) else [])"

definition dest_bytes :: "('d, 'c, 'k) i2plib \<Rightarrow> 'd option \<Rightarrow> byte list" where
  "dest_bytes lib dest =
     (case dest of None \<Rightarrow> [] | Some d \<Rightarrow> (case WriteToMessage lib d of Inl _ \<Rightarrow> [] | Inr bs \<Rightarrow> bs))"

definition from_option :: "('d, 'c, 'k) i2plib \<Rightarrow> 'd Packet \<Rightarrow> byte list" where
  "from_option lib p = (if hasFlag p FlagFromIncluded then dest_bytes lib (FromDestination p) else [])"

definition mtu_option :: "'d Packet \<Rightarrow> byte list" where
  "mtu_option p = (if hasFlag p FlagMaxPacketSizeIncluded then PutUint16 (MaxPacketSize p) else [])"

definition offline_bytes :: "OfflineSig \<Rightarrow> byte list" where
  "offline_bytes os = PutUint32 (Expires os) @ PutUint16 (TransientSigType os)
     @ TransientPublicKey os @ DestSignature os"

definition offline_option :: "'d Packet \<Rightarrow> byte list" where
  "offline_option p =
     (if hasFlag p FlagOfflineSignature
      then (case OfflineSignature p of None \<Rightarrow> [] | Some os \<Rightarrow> offline_bytes os) else [])"

definition sig_bytes :: "('d, 'c, 'k) i2plib \<Rightarrow> 'd Packet \<Rightarrow> byte list" where
  "sig_bytes lib p =
     (if Signature p = [] then replicate (getSignatureLength lib (FromDestination p)) 0 else Signature p)"

definition sig_option :: "('d, 'c, 'k) i2plib \<Rightarrow> 'd Packet \<Rightarrow> byte list" where
  "sig_option lib p = (if hasFlag p FlagSignatureIncluded then sig_bytes lib p else [])"

definition wire_options :: "('d, 'c, 'k) i2plib \<Rightarrow> 'd Packet \<Rightarrow> byte list" where
  "wire_options lib p =
     delay_option p @ from_option lib p @ mtu_option p @ offline_option p @ sig_option lib p"

definition wire_ids :: "'d Packet \<Rightarrow> byte list" where
  "wire_ids p = PutUint32 (SendStreamID p) @ PutUint32 (RecvStreamID p)
     @ PutUint32 (SequenceNum p) @ PutUint32 (AckThrough p)"

definition wire_format :: "('d, 'c, 'k) i2plib \<Rightarrow> 'd Packet \<Rightarrow> byte list" where
  "wire_format lib p =
     wire_ids p @ [of_nat (length (NACKs p))] @ concat (map PutUint32 (NACKs p)) @ [ResendDelay p]
       @ PutUint16 (Flags p) @ PutUint16 (of_nat (length (wire_options lib p)))
       @ wire_options lib p @ Payload p"

text \<open>The conditions under which \<^verbatim>\<open>Marshal\<close> reports no error.\<close>

definition marshalable :: "('d, 'c, 'k) i2plib \<Rightarrow> 'd Packet \<Rightarrow> bool" where
  "marshalable lib p \<longleftrightarrow>
     length (NACKs p) \<le> 255 \<and>
     (hasFlag p FlagFromIncluded \<longrightarrow>
        (case FromDestination p of None \<Rightarrow> False | Some d \<Rightarrow> \<not> isl (WriteToMessage lib d))) \<and>
     (hasFlag p FlagSignatureIncluded \<longrightarrow>
        FromDestination p \<noteq> None \<and>
        (Signature p = [] \<or> length (Signature p) = getSignatureLength lib (FromDestination p))) \<and>
     (hasFlag p FlagOfflineSignature \<longrightarrow>
        (case OfflineSignature p of
           None \<Rightarrow> False
         | Some os \<Rightarrow> length (TransientPublicKey os) = getPublicKeyLength (TransientSigType os) \<and>
             length (DestSignature os) = getSignatureLength lib (FromDestination p)))"

section \<open>Marshal produces the wire format\<close>

lemma getSignatureLength_eq_0 [simp]: "getSignatureLength lib dest = 0 \<longleftrightarrow> dest = None"
  by (auto simp: getSignatureLength_def Let_def split: option.splits)

lemma fold_append_bytes: "fold (\<lambda>x b. b @ f x) xs buf = buf @ concat (map f xs)"
  by (induction xs arbitrary: buf) auto

lemma marshalNACKs_Ok:
  "marshalNACKs p buf = (if length (NACKs p) \<le> 255
     then Ok (buf @ [of_nat (length (NACKs p))] @ concat (map PutUint32 (NACKs p)) @ [ResendDelay p])
     else Err (Errorf ''too many NACKs: got %d, max 255'' [int (length (NACKs p))]))"
  by (auto simp: marshalNACKs_def fold_append_bytes)

lemma calculateFromDestinationSize_Ok:
  "calculateFromDestinationSize lib p = Ok bs \<longleftrightarrow>
     bs = from_option lib p \<and>
     (hasFlag p FlagFromIncluded \<longrightarrow>
        (case FromDestination p of None \<Rightarrow> False | Some d \<Rightarrow> \<not> isl (WriteToMessage lib d)))"
  by (auto simp: calculateFromDestinationSize_def from_option_def dest_bytes_def
      split: option.splits sum.splits)

lemma marshalOfflineSignature_Ok:
  "marshalOfflineSignature lib p buf = Ok out \<longleftrightarrow>
     out = buf @ offline_option p \<and>
     (hasFlag p FlagOfflineSignature \<longrightarrow>
        (case OfflineSignature p of
           None \<Rightarrow> False
         | Some os \<Rightarrow> length (TransientPublicKey os) = getPublicKeyLength (TransientSigType os) \<and>
             length (DestSignature os) = getSignatureLength lib (FromDestination p)))"
  by (auto simp: marshalOfflineSignature_def offline_option_def offline_bytes_def Let_def
      split: option.splits)

lemma marshalSignature_Ok:
  "marshalSignature p buf sigLen = Ok out \<longleftrightarrow>
     (if hasFlag p FlagSignatureIncluded
      then (if Signature p = [] then out = buf @ replicate sigLen 0
            else length (Signature p) = sigLen \<and> out = buf @ Signature p)
      else out = buf)"
  by (auto simp: marshalSignature_def)

lemma option_size_field:
  assumes "marshalable lib p"
  shows "calculateTotalOptionSize p (length (from_option lib p))
      (if hasFlag p FlagSignatureIncluded then getSignatureLength lib (FromDestination p) else 0)
      (if hasFlag p FlagOfflineSignature
       then 4 + 2 + getPublicKeyLength (TransientSigType (the (OfflineSignature p)))
              + getSignatureLength lib (FromDestination p) else 0)
    = of_nat (length (wire_options lib p))"
  using assms
  by (auto simp: calculateTotalOptionSize_def wire_options_def delay_option_def mtu_option_def
      sig_option_def sig_bytes_def offline_option_def offline_bytes_def marshalable_def
      split: option.splits)

lemma calculateOptionSizes_Ok:
  assumes "marshalable lib p"
  shows "\<exists>off. calculateOptionSizes lib p = Ok (from_option lib p,
      if hasFlag p FlagSignatureIncluded then getSignatureLength lib (FromDestination p) else 0,
      off, of_nat (length (wire_options lib p)))"
proof -
  have "calculateFromDestinationSize lib p = Ok (from_option lib p)"
    using assms by (simp add: calculateFromDestinationSize_Ok marshalable_def)
  moreover have "calculateSignatureSize lib p =
      Ok (if hasFlag p FlagSignatureIncluded then getSignatureLength lib (FromDestination p) else 0)"
    using assms by (auto simp: calculateSignatureSize_def marshalable_def Let_def)
  moreover have "calculateOfflineSignatureSize lib p =
      Ok (if hasFlag p FlagOfflineSignature
       then 4 + 2 + getPublicKeyLength (TransientSigType (the (OfflineSignature p)))
              + getSignatureLength lib (FromDestination p) else 0)"
    using assms by (auto simp: calculateOfflineSignatureSize_def marshalable_def split: option.splits)
  ultimately show ?thesis
    by (simp add: calculateOptionSizes_def option_size_field [OF assms])
qed

lemma Marshal_marshalable:
  assumes "marshalable lib p"
  shows "Marshal lib p = Ok (wire_format lib p)"
proof -
  let ?sl = "if hasFlag p FlagSignatureIncluded then getSignatureLength lib (FromDestination p) else 0"
  let ?pre = "wire_ids p @ [of_nat (length (NACKs p))] @ concat (map PutUint32 (NACKs p)) @ [ResendDelay p]
      @ PutUint16 (Flags p) @ PutUint16 (of_nat (length (wire_options lib p)))
      @ delay_option p @ from_option lib p @ mtu_option p"
  from assms have nk: "length (NACKs p) \<le> 255" by (simp add: marshalable_def)
  have off: "marshalOfflineSignature lib p ?pre = Ok (?pre @ offline_option p)"
    using assms by (simp add: marshalOfflineSignature_Ok marshalable_def)
  have sg: "marshalSignature p (?pre @ offline_option p) ?sl = Ok ((?pre @ offline_option p) @ sig_option lib p)"
    using assms by (auto simp: marshalSignature_Ok sig_option_def sig_bytes_def marshalable_def)
  have "marshalPacketBody lib p (marshalRequiredFields p []) (from_option lib p) ?sl
      (of_nat (length (wire_options lib p))) = Ok ((?pre @ offline_option p) @ sig_option lib p)"
    using off sg nk
    by (auto simp: marshalPacketBody_def marshalRequiredFields_def marshalNACKs_Ok Let_def wire_ids_def
        marshalFlagsAndOptionSize_def marshalDelayField_def marshalFromDestination_def
        marshalMaxPacketSize_def delay_option_def from_option_def mtu_option_def)
  with calculateOptionSizes_Ok [OF assms] show ?thesis
    by (auto simp: Marshal_def wire_format_def wire_options_def)
qed

lemma Marshal_Ok_marshalable:
  assumes "Marshal lib p = Ok data"
  shows "marshalable lib p"
  using assms
  by (auto simp: Marshal_def calculateOptionSizes_def calculateFromDestinationSize_Ok
      calculateSignatureSize_def calculateOfflineSignatureSize_def marshalPacketBody_def Let_def
      marshalNACKs_Ok marshalOfflineSignature_Ok marshalSignature_Ok marshalable_def
      split: if_splits option.splits)

lemma Marshal_no_panic: "Marshal lib p \<noteq> Panic"
  by (auto simp: Marshal_def calculateOptionSizes_def calculateFromDestinationSize_def
      calculateSignatureSize_def calculateOfflineSignatureSize_def marshalPacketBody_def Let_def
      marshalNACKs_def marshalOfflineSignature_def marshalSignature_def
      split: if_splits option.splits sum.splits)

section \<open>Reading a known suffix\<close>

text \<open>
  \<^verbatim>\<open>Unmarshal\<close> keeps an offset into the data; the lemmas below follow the bytes that are left from
  that offset on.
\<close>

lemma drop_length_append: "drop (length xs) (xs @ ys) = ys"
  by simp

lemma drop_suffix_le: "drop off data = x @ rest \<Longrightarrow> x \<noteq> [] \<Longrightarrow> off \<le> length data"
  by (metis append_is_Nil_conv drop_all linorder_linear)

lemma drop_suffix_next:
  "drop off data = x @ rest \<Longrightarrow> n = length x \<Longrightarrow> drop (off + n) data = rest"
  by (metis append_eq_conv_conj drop_drop add.commute)

lemma read32_suffix:
  assumes "drop off data = PutUint32 x @ rest"
  shows "read32 data off = Ok x"
proof -
  have "off \<le> length data"
    using assms by (rule drop_suffix_le) (simp add: PutUint32_def)
  with assms show ?thesis by (simp add: read32_def slice_from_def)
qed

lemma read16_suffix:
  assumes "drop off data = PutUint16 x @ rest"
  shows "read16 data off = Ok x"
proof -
  have "off \<le> length data"
    using assms by (rule drop_suffix_le) (simp add: PutUint16_def)
  with assms show ?thesis by (simp add: read16_def slice_from_def)
qed

lemma index_at_suffix: "drop off data = b # rest \<Longrightarrow> index_at data off = Ok b"
  by (metis drop_eq_Nil2 index_at_def linorder_not_le list.distinct(1) list.sel(1) hd_drop_conv_nth)

lemma slice_range_suffix:
  assumes "drop off data = x @ rest" and "off \<le> length data" and "n = length x"
  shows "slice_range data off (off + n) = Ok x"
proof -
  have "length (drop off data) = length x + length rest" unfolding assms(1) by simp
  then have "off + n \<le> length data" using assms(2,3) by simp
  with assms show ?thesis by (simp add: slice_range_def)
qed

lemma read_nacks_suffix:
  "drop off data = concat (map PutUint32 ns) @ rest \<Longrightarrow>
     read_nacks (length ns) data off = Ok (ns, off + 4 * length ns)"
proof (induction ns arbitrary: off)
  case Nil
  then show ?case by simp
next
  case (Cons n ns)
  then have "read32 data off = Ok n" by (auto intro: read32_suffix)
  moreover have "drop (off + 4) data = concat (map PutUint32 ns) @ rest"
    using Cons.prems by (intro drop_suffix_next [where x = "PutUint32 n"]) simp_all
  ultimately show ?case using Cons.IH by simp
qed

section \<open>Unmarshal inverts the wire format\<close>

text \<open>
  What the documentation of \<^verbatim>\<open>go-i2cp\<close> says of destinations on the wire: an encoded destination is not
  empty, and reading it back from a stream that starts with it gives the destination.
\<close>

definition dest_codec :: "('d, 'c, 'k) i2plib \<Rightarrow> bool" where
  "dest_codec lib \<longleftrightarrow>
     (\<forall>d bs. WriteToMessage lib d = Inr bs \<longrightarrow>
        bs \<noteq> [] \<and> (\<forall>rest. NewDestinationFromMessage lib (bs @ rest) = Inr d))"

text \<open>The part of a packet the wire carries: the fields its flags leave out are at their zero value.\<close>

definition wire_view :: "('d, 'c, 'k) i2plib \<Rightarrow> 'd Packet \<Rightarrow> 'd Packet" where
  "wire_view lib p = p\<lparr>
     OptionalDelay := (if hasFlag p FlagDelayRequested then OptionalDelay p else 0),
     MaxPacketSize := (if hasFlag p FlagMaxPacketSizeIncluded then MaxPacketSize p else 0),
     FromDestination := (if hasFlag p FlagFromIncluded then FromDestination p else None),
     Signature := sig_option lib p,
     OfflineSignature := (if hasFlag p FlagOfflineSignature then OfflineSignature p else None)\<rparr>"

text \<open>
  The flag combinations a reader can decode: a signature or an offline block needs the FROM
  destination on the wire for its length, the transient key type must be a known one, and the
  option block must fit its 16-bit length field.
\<close>

definition decodable :: "('d, 'c, 'k) i2plib \<Rightarrow> 'd Packet \<Rightarrow> bool" where
  "decodable lib p \<longleftrightarrow>
     (hasFlag p FlagSignatureIncluded \<longrightarrow> hasFlag p FlagFromIncluded) \<and>
     (hasFlag p FlagOfflineSignature \<longrightarrow>
        hasFlag p FlagFromIncluded \<and>
        (case OfflineSignature p of None \<Rightarrow> False | Some os \<Rightarrow> getPublicKeyLength (TransientSigType os) \<noteq> 0)) \<and>
     length (wire_options lib p) < 2 ^ 16"

lemma hasFlag_update [simp]:
  "hasFlag (p\<lparr>SendStreamID := a\<rparr>) f = hasFlag p f" "hasFlag (p\<lparr>RecvStreamID := a\<rparr>) f = hasFlag p f"
  "hasFlag (p\<lparr>SequenceNum := a\<rparr>) f = hasFlag p f" "hasFlag (p\<lparr>AckThrough := a\<rparr>) f = hasFlag p f"
  "hasFlag (p\<lparr>NACKs := b\<rparr>) f = hasFlag p f" "hasFlag (p\<lparr>OptionalDelay := c\<rparr>) f = hasFlag p f"
  "hasFlag (p\<lparr>ResendDelay := e\<rparr>) f = hasFlag p f" "hasFlag (p\<lparr>MaxPacketSize := c\<rparr>) f = hasFlag p f"
  "hasFlag (p\<lparr>FromDestination := d\<rparr>) f = hasFlag p f" "hasFlag (p\<lparr>Signature := g\<rparr>) f = hasFlag p f"
  "hasFlag (p\<lparr>OfflineSignature := h\<rparr>) f = hasFlag p f" "hasFlag (p\<lparr>Payload := g\<rparr>) f = hasFlag p f"
  by (simp_all add: hasFlag_def)

lemma hasFlag_Flags: "Flags q = Flags p \<Longrightarrow> hasFlag q f = hasFlag p f"
  by (simp add: hasFlag_def)

lemma unmarshalHeader_wire:
  fixes p q :: "'d Packet"
  assumes data: "data = wire_ids p @ [of_nat (length (NACKs p))] @ concat (map PutUint32 (NACKs p))
      @ [ResendDelay p] @ PutUint16 (Flags p) @ PutUint16 os @ rest"
    and nk: "length (NACKs p) \<le> 255" and fits: "unat os \<le> length rest" and fresh: "NACKs q = []"
  shows "unmarshalHeader q data = Ok (q\<lparr>SendStreamID := SendStreamID p, RecvStreamID := RecvStreamID p,
      SequenceNum := SequenceNum p, AckThrough := AckThrough p, NACKs := NACKs p,
      ResendDelay := ResendDelay p, Flags := Flags p\<rparr>,
      22 + 4 * length (NACKs p), 22 + 4 * length (NACKs p) + unat os)"
proof -
  let ?n = "length (NACKs p)"
  have d0: "drop 0 data = PutUint32 (SendStreamID p) @ PutUint32 (RecvStreamID p) @ PutUint32 (SequenceNum p)
      @ PutUint32 (AckThrough p) @ of_nat ?n # concat (map PutUint32 (NACKs p))
      @ [ResendDelay p] @ PutUint16 (Flags p) @ PutUint16 os @ rest"
    by (simp add: data wire_ids_def)
  from drop_suffix_next [OF this] have d4: "drop 4 data = PutUint32 (RecvStreamID p) @ PutUint32 (SequenceNum p)
      @ PutUint32 (AckThrough p) @ of_nat ?n # concat (map PutUint32 (NACKs p))
      @ [ResendDelay p] @ PutUint16 (Flags p) @ PutUint16 os @ rest"
    by simp
  from drop_suffix_next [OF this] have d8: "drop 8 data = PutUint32 (SequenceNum p)
      @ PutUint32 (AckThrough p) @ of_nat ?n # concat (map PutUint32 (NACKs p))
      @ [ResendDelay p] @ PutUint16 (Flags p) @ PutUint16 os @ rest"
    by simp
  from drop_suffix_next [OF this] have d12: "drop 12 data =
      PutUint32 (AckThrough p) @ of_nat ?n # concat (map PutUint32 (NACKs p))
      @ [ResendDelay p] @ PutUint16 (Flags p) @ PutUint16 os @ rest"
    by simp
  from drop_suffix_next [OF this] have d16: "drop 16 data = of_nat ?n # concat (map PutUint32 (NACKs p))
      @ [ResendDelay p] @ PutUint16 (Flags p) @ PutUint16 os @ rest"
    by simp
  from drop_suffix_next [of 16 data "[of_nat ?n]"] d16
  have d17: "drop 17 data = concat (map PutUint32 (NACKs p))
      @ [ResendDelay p] @ PutUint16 (Flags p) @ PutUint16 os @ rest"
    by simp
  from drop_suffix_next [OF this, of "4 * ?n"]
  have dn: "drop (17 + 4 * ?n) data = [ResendDelay p] @ PutUint16 (Flags p) @ PutUint16 os @ rest"
    by (simp add: be32.length_concat_put)
  from drop_suffix_next [OF this, of 1]
  have df: "drop (18 + 4 * ?n) data = PutUint16 (Flags p) @ PutUint16 os @ rest" by simp
  from drop_suffix_next [OF this, of 2]
  have dos: "drop (20 + 4 * ?n) data = PutUint16 os @ rest" by simp
  have req: "unmarshalRequiredFields q data = Ok (q\<lparr>SendStreamID := SendStreamID p,
      RecvStreamID := RecvStreamID p, SequenceNum := SequenceNum p, AckThrough := AckThrough p\<rparr>, 16)"
    by (simp add: unmarshalRequiredFields_def read32_suffix [OF d0] read32_suffix [OF d4]
        read32_suffix [OF d8] read32_suffix [OF d12])
  have len: "length data = 22 + 4 * ?n + length rest"
    by (simp add: data wire_ids_def be32.length_concat_put)
  have un: "unat (of_nat ?n :: byte) = ?n"
    using nk by (simp only: unat_of_nat) simp
  have nks: "unmarshalNACKs q' data 16 = Ok (q'\<lparr>NACKs := NACKs p\<rparr>, 17 + 4 * ?n)"
    if "NACKs q' = []" for q' :: "'d Packet"
    using that read_nacks_suffix [OF d17] len
    by (auto simp: unmarshalNACKs_def index_at_suffix [OF d16] un Let_def)
  have "drop (17 + 4 * ?n) data = ResendDelay p # PutUint16 (Flags p) @ PutUint16 os @ rest"
    using dn by simp
  from index_at_suffix [OF this] show ?thesis
    using read16_suffix [OF df] read16_suffix [OF dos] len fits fresh
    by (simp add: unmarshalHeader_def req nks Let_def)
qed

lemma unmarshalOptionalDelay_wire:
  assumes "drop off data = delay_option q @ rest" and "off + length (delay_option q) \<le> oe"
    and "OptionalDelay q = (if hasFlag q FlagDelayRequested then x else 0)"
  shows "unmarshalOptionalDelay (q\<lparr>OptionalDelay := 0\<rparr>) data off oe =
    Ok (q, off + length (delay_option q))"
proof (cases "hasFlag q FlagDelayRequested")
  case True
  then have "drop off data = PutUint16 (OptionalDelay q) @ rest"
    using assms(1) by (simp add: delay_option_def)
  from read16_suffix [OF this] True assms(2) show ?thesis
    by (simp add: unmarshalOptionalDelay_def delay_option_def)
next
  case False
  with assms(3) show ?thesis by (simp add: unmarshalOptionalDelay_def delay_option_def)
qed

lemma unmarshalMaxPacketSize_wire:
  assumes "drop off data = mtu_option q @ rest" and "off + length (mtu_option q) \<le> oe"
    and "MaxPacketSize q = (if hasFlag q FlagMaxPacketSizeIncluded then x else 0)"
  shows "unmarshalMaxPacketSize (q\<lparr>MaxPacketSize := 0\<rparr>) data off oe =
    Ok (q, off + length (mtu_option q))"
proof (cases "hasFlag q FlagMaxPacketSizeIncluded")
  case True
  then have "drop off data = PutUint16 (MaxPacketSize q) @ rest"
    using assms(1) by (simp add: mtu_option_def)
  from read16_suffix [OF this] True assms(2) show ?thesis
    by (simp add: unmarshalMaxPacketSize_def mtu_option_def)
next
  case False
  with assms(3) show ?thesis by (simp add: unmarshalMaxPacketSize_def mtu_option_def)
qed

lemma unmarshalFromDestination_wire:
  assumes codec: "dest_codec lib" and d: "drop off data = from_option lib q @ rest"
    and oe: "off + length (from_option lib q) \<le> oe" "oe \<le> length data"
    and ok: "if hasFlag q FlagFromIncluded
      then (case FromDestination q of None \<Rightarrow> False | Some d \<Rightarrow> \<not> isl (WriteToMessage lib d))
      else FromDestination q = None"
  shows "unmarshalFromDestination lib (q\<lparr>FromDestination := None\<rparr>) data off oe =
    Ok (q, off + length (from_option lib q))"
proof (cases "hasFlag q FlagFromIncluded")
  case False
  with ok show ?thesis by (simp add: unmarshalFromDestination_def from_option_def)
next
  case True
  with ok obtain dst bs where q: "FromDestination q = Some dst" and w: "WriteToMessage lib dst = Inr bs"
    by (auto split: option.splits simp: isl_def) (metis sum.exhaust)
  from True q w have fo: "from_option lib q = bs" by (simp add: from_option_def dest_bytes_def)
  from codec w have bs: "bs \<noteq> []" and rd: "\<And>r. NewDestinationFromMessage lib (bs @ r) = Inr dst"
    by (auto simp: dest_codec_def)
  have "take (oe - off) (drop off data) = bs @ take (oe - off - length bs) rest"
    using oe d by (simp add: fo)
  moreover have "off < oe" using bs oe(1) by (cases bs) (auto simp: fo)
  ultimately have "slice_range data off oe = Ok (bs @ take (oe - off - length bs) rest)"
    using oe by (simp add: slice_range_def)
  with True q w rd \<open>off < oe\<close> show ?thesis
    by (simp add: unmarshalFromDestination_def fo)
qed

lemma unmarshalOfflineSignature_wire:
  assumes d: "drop off data = offline_option q @ rest"
    and oe: "off + length (offline_option q) \<le> oe" "off \<le> length data"
    and ok: "if hasFlag q FlagOfflineSignature
      then (case OfflineSignature q of None \<Rightarrow> False
            | Some os \<Rightarrow> length (TransientPublicKey os) = getPublicKeyLength (TransientSigType os) \<and>
                getPublicKeyLength (TransientSigType os) \<noteq> 0 \<and>
                length (DestSignature os) = getSignatureLength lib (FromDestination q)) \<and>
        FromDestination q \<noteq> None
      else OfflineSignature q = None"
  shows "unmarshalOfflineSignature lib (q\<lparr>OfflineSignature := None\<rparr>) data off oe =
    Ok (q, off + length (offline_option q))"
proof (cases "hasFlag q FlagOfflineSignature")
  case False
  with ok show ?thesis by (simp add: unmarshalOfflineSignature_def offline_option_def)
next
  case True
  with ok obtain os where q: "OfflineSignature q = Some os"
    and kl: "length (TransientPublicKey os) = getPublicKeyLength (TransientSigType os)"
    and k0: "getPublicKeyLength (TransientSigType os) \<noteq> 0"
    and dl: "length (DestSignature os) = getSignatureLength lib (FromDestination q)"
    and f: "FromDestination q \<noteq> None"
    by (auto split: option.splits)
  have oo: "offline_option q = offline_bytes os" using True q by (simp add: offline_option_def)
  have d1: "drop off data = PutUint32 (Expires os) @ PutUint16 (TransientSigType os)
      @ TransientPublicKey os @ DestSignature os @ rest"
    using d by (simp add: oo offline_bytes_def)
  from drop_suffix_next [OF this] have d2: "drop (off + 4) data = PutUint16 (TransientSigType os)
      @ TransientPublicKey os @ DestSignature os @ rest" by simp
  from drop_suffix_next [OF this, of 2] have d3: "drop (off + 6) data =
      TransientPublicKey os @ DestSignature os @ rest" by (simp add: add.commute)
  have "length (drop off data) = length (offline_bytes os) + length rest" using d by (simp add: oo)
  then have len: "off + length (offline_bytes os) \<le> length data" using oe(2) by simp
  have sk: "slice_range data (off + 6) (off + 6 + getPublicKeyLength (TransientSigType os)) =
      Ok (TransientPublicKey os)"
    using d3 len by (intro slice_range_suffix) (auto simp: kl offline_bytes_def)
  from drop_suffix_next [OF d3, of "getPublicKeyLength (TransientSigType os)"]
  have d4: "drop (off + 6 + getPublicKeyLength (TransientSigType os)) data = DestSignature os @ rest"
    by (simp add: kl)
  have sd: "slice_range data (off + 6 + getPublicKeyLength (TransientSigType os))
      (off + 6 + getPublicKeyLength (TransientSigType os) + getSignatureLength lib (FromDestination q))
      = Ok (DestSignature os)"
    using d4 len by (intro slice_range_suffix) (auto simp: kl dl offline_bytes_def)
  have end_eq: "off + length (offline_option q) =
      off + 6 + getPublicKeyLength (TransientSigType os) + getSignatureLength lib (FromDestination q)"
    by (simp add: oo offline_bytes_def kl dl)
  have h: "unmarshalOfflineSigHeader data off \<lparr>Expires = 0, TransientSigType = 0,
      TransientPublicKey = [], DestSignature = []\<rparr> =
      Ok (\<lparr>Expires = Expires os, TransientSigType = TransientSigType os,
        TransientPublicKey = [], DestSignature = []\<rparr>, off + 6)"
    by (simp add: unmarshalOfflineSigHeader_def read32_suffix [OF d1] read16_suffix [OF d2])
  have k: "unmarshalTransientKey data (off + 6) oe \<lparr>Expires = Expires os,
      TransientSigType = TransientSigType os, TransientPublicKey = [], DestSignature = []\<rparr> =
      Ok (\<lparr>Expires = Expires os, TransientSigType = TransientSigType os,
        TransientPublicKey = TransientPublicKey os, DestSignature = []\<rparr>,
        off + 6 + getPublicKeyLength (TransientSigType os))"
    using oe(1) k0 unfolding end_eq by (simp add: unmarshalTransientKey_def sk Let_def)
  have g: "unmarshalDestSignature lib (q\<lparr>OfflineSignature := None\<rparr>) data
      (off + 6 + getPublicKeyLength (TransientSigType os)) oe \<lparr>Expires = Expires os,
      TransientSigType = TransientSigType os, TransientPublicKey = TransientPublicKey os,
      DestSignature = []\<rparr> = Ok (os, off + length (offline_option q))"
    using oe(1) f unfolding end_eq by (auto simp: unmarshalDestSignature_def sd Let_def)
  show ?thesis
    using True q oe(1) unfolding end_eq
    by (simp add: unmarshalOfflineSignature_def h k g [unfolded end_eq])
qed

lemma unmarshalSignature_wire:
  assumes d: "drop off data = sg @ rest" and oe: "off + length sg \<le> oe" "off \<le> length data"
    and ok: "if hasFlag q FlagSignatureIncluded
      then length sg = getSignatureLength lib (FromDestination q) \<and> FromDestination q \<noteq> None
      else sg = []"
  shows "unmarshalSignature lib (q\<lparr>Signature := []\<rparr>) data off oe =
    Ok (q\<lparr>Signature := sg\<rparr>, off + length sg)"
proof (cases "hasFlag q FlagSignatureIncluded")
  case True
  then have "slice_range data off (off + getSignatureLength lib (FromDestination q)) = Ok sg"
    using ok d oe by (intro slice_range_suffix) auto
  with True ok oe show ?thesis by (simp add: unmarshalSignature_def Let_def)
next
  case False
  with ok show ?thesis by (simp add: unmarshalSignature_def)
qed

text \<open>The option block as a whole: from the packet after the header to the packet without payload.\<close>

lemma unmarshalOptions_wire:
  assumes codec: "dest_codec lib" and m: "marshalable lib p" and dec: "decodable lib p"
    and d: "drop off data = wire_options lib p @ rest"
    and oe: "oe = off + length (wire_options lib p)" "off \<le> length data"
  shows "unmarshalOptions lib ((wire_view lib p)\<lparr>Payload := [], Signature := [],
      OfflineSignature := None, MaxPacketSize := 0, FromDestination := None, OptionalDelay := 0\<rparr>) data off oe
    = Ok ((wire_view lib p)\<lparr>Payload := []\<rparr>)"
proof -
  define v where "v = wire_view lib p"
  let ?q5 = "v\<lparr>Payload := []\<rparr>"
  let ?q4 = "?q5\<lparr>Signature := []\<rparr>"
  let ?q3 = "?q4\<lparr>OfflineSignature := None\<rparr>"
  let ?q2 = "?q3\<lparr>MaxPacketSize := 0\<rparr>"
  let ?q1 = "?q2\<lparr>FromDestination := None\<rparr>"
  have flag: "hasFlag v f = hasFlag p f" for f
    by (rule hasFlag_Flags) (simp add: v_def wire_view_def)
  have vf: "OptionalDelay v = (if hasFlag p FlagDelayRequested then OptionalDelay p else 0)"
    "MaxPacketSize v = (if hasFlag p FlagMaxPacketSizeIncluded then MaxPacketSize p else 0)"
    "FromDestination v = (if hasFlag p FlagFromIncluded then FromDestination p else None)"
    "OfflineSignature v = (if hasFlag p FlagOfflineSignature then OfflineSignature p else None)"
    "Signature v = sig_option lib p"
    by (simp_all add: v_def wire_view_def)
  have opts: "delay_option ?q1 = delay_option p" "from_option lib ?q2 = from_option lib p"
    "mtu_option ?q3 = mtu_option p" "offline_option ?q4 = offline_option p"
    unfolding delay_option_def from_option_def mtu_option_def offline_option_def
    by (simp_all add: flag vf)
  have "length (drop off data) = length (wire_options lib p) + length rest" unfolding d by simp
  then have len: "oe \<le> length data" using oe by simp
  define o1 where "o1 = off + length (delay_option p)"
  define o2 where "o2 = o1 + length (from_option lib p)"
  define o3 where "o3 = o2 + length (mtu_option p)"
  define o4 where "o4 = o3 + length (offline_option p)"
  note ends = o1_def o2_def o3_def o4_def oe(1) wire_options_def
  have d0: "drop off data = delay_option p @ from_option lib p @ mtu_option p @ offline_option p
      @ sig_option lib p @ rest" using d by (simp add: wire_options_def)
  from drop_suffix_next [OF this] have d1: "drop o1 data = from_option lib p @ mtu_option p
      @ offline_option p @ sig_option lib p @ rest" by (simp add: o1_def)
  from drop_suffix_next [OF this] have d2: "drop o2 data = mtu_option p @ offline_option p
      @ sig_option lib p @ rest" by (simp add: o2_def)
  from drop_suffix_next [OF this] have d3: "drop o3 data = offline_option p @ sig_option lib p @ rest"
    by (simp add: o3_def)
  from drop_suffix_next [OF this] have d4: "drop o4 data = sig_option lib p @ rest"
    by (simp add: o4_def)
  have s1: "unmarshalOptionalDelay (?q1\<lparr>OptionalDelay := 0\<rparr>) data off oe = Ok (?q1, o1)"
    using d0 by (subst unmarshalOptionalDelay_wire [where x = "OptionalDelay p"])
      (auto simp: opts ends flag vf)
  have s2: "unmarshalFromDestination lib ?q1 data o1 oe = Ok (?q2, o2)"
    using d1 m len by (subst unmarshalFromDestination_wire [OF codec])
      (auto simp: opts ends flag marshalable_def vf split: option.splits)
  have s3: "unmarshalMaxPacketSize ?q2 data o2 oe = Ok (?q3, o3)"
    using d2 by (subst unmarshalMaxPacketSize_wire [where x = "MaxPacketSize p"])
      (auto simp: opts ends flag vf)
  have s4: "unmarshalOfflineSignature lib ?q3 data o3 oe = Ok (?q4, o4)"
    using d3 m dec len by (subst unmarshalOfflineSignature_wire)
      (auto simp: opts ends flag marshalable_def decodable_def vf split: option.splits)
  have s5: "unmarshalSignature lib ?q4 data o4 oe = Ok (?q5, o4 + length (sig_option lib p))"
    using d4 m dec len unmarshalSignature_wire [of o4 data "sig_option lib p" rest oe ?q5 lib]
    by (simp add: opts ends flag vf) (auto simp: opts ends flag marshalable_def decodable_def vf sig_option_def sig_bytes_def)
  have "unmarshalOptions lib (?q1\<lparr>OptionalDelay := 0\<rparr>) data off oe = Ok ?q5"
    by (simp only: unmarshalOptions_def s1 s2 s3 s4 s5 bind_result.simps prod.case)
  then show ?thesis by (simp add: v_def)
qed

lemma Unmarshal_wire_format:
  fixes p :: "'d Packet"
  assumes codec: "dest_codec lib" and m: "marshalable lib p" and dec: "decodable lib p"
  shows "Unmarshal lib emptyPacket (wire_format lib p) = Ok (wire_view lib p)"
proof -
  let ?n = "length (NACKs p)" and ?opts = "wire_options lib p"
  let ?hdr = "wire_ids p @ [of_nat ?n] @ concat (map PutUint32 (NACKs p)) @ [ResendDelay p]
      @ PutUint16 (Flags p) @ PutUint16 (of_nat (length ?opts))"
  let ?e = "emptyPacket :: 'd Packet"
  let ?v = "wire_view lib p" and ?oe = "22 + 4 * ?n + length ?opts"
  have w: "wire_format lib p = ?hdr @ ?opts @ Payload p" by (simp add: wire_format_def)
  have hl: "length ?hdr = 22 + 4 * ?n" by (simp add: wire_ids_def be32.length_concat_put)
  have us: "unat (of_nat (length ?opts) :: u16) = length ?opts"
    using dec by (simp only: unat_of_nat decodable_def) simp
  have "unmarshalHeader ?e (wire_format lib p) = Ok (?e\<lparr>SendStreamID := SendStreamID p,
      RecvStreamID := RecvStreamID p, SequenceNum := SequenceNum p, AckThrough := AckThrough p,
      NACKs := NACKs p, ResendDelay := ResendDelay p, Flags := Flags p\<rparr>, 22 + 4 * ?n, ?oe)"
    using us marshalable_def [of lib p] m
      unmarshalHeader_wire [of "wire_format lib p" p "of_nat (length ?opts)" "?opts @ Payload p" ?e]
    by (simp add: wire_format_def emptyPacket_def)
  also have "?e\<lparr>SendStreamID := SendStreamID p,
      RecvStreamID := RecvStreamID p, SequenceNum := SequenceNum p, AckThrough := AckThrough p,
      NACKs := NACKs p, ResendDelay := ResendDelay p, Flags := Flags p\<rparr>
    = ?v\<lparr>Payload := [], Signature := [], OfflineSignature := None, MaxPacketSize := 0,
        FromDestination := None, OptionalDelay := 0\<rparr>"
    by (simp add: emptyPacket_def wire_view_def)
  finally have h: "unmarshalHeader ?e (wire_format lib p) = Ok (?v\<lparr>Payload := [],
      Signature := [], OfflineSignature := None, MaxPacketSize := 0, FromDestination := None,
      OptionalDelay := 0\<rparr>, 22 + 4 * ?n, ?oe)" .
  have dr: "drop (22 + 4 * ?n) (wire_format lib p) = ?opts @ Payload p"
    unfolding w hl [symmetric] by (rule drop_length_append)
  have "length (wire_format lib p) = length ?hdr + (length ?opts + length (Payload p))"
    unfolding w by (simp only: length_append)
  then have len: "length (wire_format lib p) = ?oe + length (Payload p)" unfolding hl by simp
  have pl: "drop ?oe (wire_format lib p) = Payload p" using drop_suffix_next [OF dr] by simp
  have o: "unmarshalOptions lib (?v\<lparr>Payload := [],
      Signature := [], OfflineSignature := None, MaxPacketSize := 0, FromDestination := None,
      OptionalDelay := 0\<rparr>) (wire_format lib p) (22 + 4 * ?n) ?oe = Ok (?v\<lparr>Payload := []\<rparr>)"
    using len by (intro unmarshalOptions_wire [OF codec m dec dr]) auto
  have "Payload ?v = Payload p" by (simp add: wire_view_def)
  then show ?thesis
    using len pl by (auto simp: Unmarshal_def h o)
qed

section \<open>Where Unmarshal panics\<close>

lemma read16_Panic_iff: "read16 data off = Panic \<longleftrightarrow> length data < off + 2"
  unfolding read16_def by (rule be16.get_at_Panic_iff)

lemma read32_Panic_iff: "read32 data off = Panic \<longleftrightarrow> length data < off + 4"
  unfolding read32_def by (rule be32.get_at_Panic_iff)

lemma read16_not_Err: "read16 data off \<noteq> Err e"
  by (auto simp: read16_def slice_from_def be16.get_never_Err)

lemma read32_not_Err: "read32 data off \<noteq> Err e"
  by (auto simp: read32_def slice_from_def be32.get_never_Err)

lemma index_at_Panic_iff: "index_at data off = Panic \<longleftrightarrow> length data \<le> off"
  by (simp add: index_at_def)

lemma slice_range_Panic_iff: "slice_range data lo hi = Panic \<longleftrightarrow> \<not> (lo \<le> hi \<and> hi \<le> length data)"
  by (simp add: slice_range_def)

lemmas panic_iffs = read16_Panic_iff read32_Panic_iff index_at_Panic_iff slice_range_Panic_iff

lemma read32_cases_len: "off + 4 \<le> length data \<Longrightarrow> \<exists>x. read32 data off = Ok x"
  using read32_Panic_iff [of data off] read32_not_Err [of data off] by (cases "read32 data off") auto

lemma read16_cases_len: "off + 2 \<le> length data \<Longrightarrow> \<exists>x. read16 data off = Ok x"
  using read16_Panic_iff [of data off] read16_not_Err [of data off] by (cases "read16 data off") auto

lemma read_nacks_len: "off + 4 * n \<le> length data \<Longrightarrow> \<exists>ns. read_nacks n data off = Ok (ns, off + 4 * n)"
proof (induction n arbitrary: off)
  case 0
  then show ?case by simp
next
  case (Suc n)
  then obtain x where "read32 data off = Ok x" using read32_cases_len [of off data] by auto
  moreover obtain ns where "read_nacks n data (off + 4) = Ok (ns, off + 4 + 4 * n)"
    using Suc.IH [of "off + 4"] Suc.prems by auto
  ultimately show ?case by simp
qed

lemma unmarshalOptionalDelay_no_panic:
  "oe \<le> length data \<Longrightarrow> unmarshalOptionalDelay p data off oe \<noteq> Panic"
  by (auto simp: unmarshalOptionalDelay_def panic_iffs)

lemma unmarshalMaxPacketSize_no_panic:
  "oe \<le> length data \<Longrightarrow> unmarshalMaxPacketSize p data off oe \<noteq> Panic"
  by (auto simp: unmarshalMaxPacketSize_def panic_iffs)

lemma unmarshalFromDestination_no_panic:
  "oe \<le> length data \<Longrightarrow> unmarshalFromDestination lib p data off oe \<noteq> Panic"
  by (auto simp: unmarshalFromDestination_def panic_iffs split: sum.splits)

lemma unmarshalSignature_no_panic:
  "oe \<le> length data \<Longrightarrow> unmarshalSignature lib p data off oe \<noteq> Panic"
  by (auto simp: unmarshalSignature_def panic_iffs Let_def)

lemma unmarshalTransientKey_no_panic:
  "oe \<le> length data \<Longrightarrow> unmarshalTransientKey data off oe os \<noteq> Panic"
  by (auto simp: unmarshalTransientKey_def panic_iffs Let_def)

lemma unmarshalDestSignature_no_panic:
  "oe \<le> length data \<Longrightarrow> unmarshalDestSignature lib p data off oe os \<noteq> Panic"
  by (auto simp: unmarshalDestSignature_def panic_iffs Let_def)

lemma unmarshalOfflineSignature_no_panic:
  assumes "oe \<le> length data"
  shows "unmarshalOfflineSignature lib p data off oe \<noteq> Panic"
  using assms
  by (auto simp: unmarshalOfflineSignature_def unmarshalOfflineSigHeader_def panic_iffs
      unmarshalTransientKey_no_panic unmarshalDestSignature_no_panic)

lemma unmarshalOptions_no_panic:
  assumes "oe \<le> length data"
  shows "unmarshalOptions lib p data off oe \<noteq> Panic"
  using assms
  by (auto simp: unmarshalOptions_def unmarshalOptionalDelay_no_panic unmarshalFromDestination_no_panic
      unmarshalMaxPacketSize_no_panic unmarshalOfflineSignature_no_panic unmarshalSignature_no_panic)

text \<open>The number of NACKs a packet announces: the byte at offset 16.\<close>

definition announced_nacks :: "byte list \<Rightarrow> nat" where
  "announced_nacks data = unat (data ! 16)"

lemma unmarshalNACKs_len:
  assumes "22 \<le> length data" and "17 + 4 * announced_nacks data \<le> length data"
  shows "\<exists>q. unmarshalNACKs p data 16 = Ok (q, 17 + 4 * announced_nacks data)"
proof -
  have ix: "index_at data 16 = Ok (data ! 16)" using assms(1) by (simp add: index_at_def)
  obtain ns where "read_nacks (unat (data ! 16)) data 17 = Ok (ns, 17 + 4 * unat (data ! 16))"
    using read_nacks_len [of 17 "unat (data ! 16)" data] assms(2) by (auto simp: announced_nacks_def)
  with assms(2) show ?thesis
    by (cases "unat (data ! 16) = 0") (simp_all add: unmarshalNACKs_def ix announced_nacks_def Let_def)
qed

lemma unmarshalHeader_cases:
  assumes "22 \<le> length data"
  shows "if length data < 17 + 4 * announced_nacks data
      then \<exists>e. unmarshalHeader p data = Err e
    else if length data < 22 + 4 * announced_nacks data
      then unmarshalHeader p data = Panic
    else (\<exists>e. unmarshalHeader p data = Err e) \<or>
      (\<exists>q off oe. unmarshalHeader p data = Ok (q, off, oe) \<and> oe \<le> length data)"
proof -
  let ?n = "announced_nacks data"
  obtain a b c d where "read32 data 0 = Ok a" "read32 data 4 = Ok b" "read32 data 8 = Ok c"
      "read32 data 12 = Ok d"
    using assms read32_cases_len [of 0 data] read32_cases_len [of 4 data]
      read32_cases_len [of 8 data] read32_cases_len [of 12 data] by auto
  then obtain q where req: "unmarshalRequiredFields p data = Ok (q, 16)"
    by (simp add: unmarshalRequiredFields_def)
  have ix: "index_at data 16 = Ok (data ! 16)" using assms by (simp add: index_at_def)
  consider (short) "length data < 17 + 4 * ?n" | (cut) "17 + 4 * ?n \<le> length data" "length data < 22 + 4 * ?n"
    | (full) "22 + 4 * ?n \<le> length data" by linarith
  then show ?thesis
  proof cases
    case short
    then have "\<exists>e. unmarshalNACKs q data 16 = Err e"
      using assms by (auto simp: unmarshalNACKs_def ix announced_nacks_def Let_def)
    with short show ?thesis by (auto simp: unmarshalHeader_def req)
  next
    case cut
    then obtain q' where nk: "unmarshalNACKs q data 16 = Ok (q', 17 + 4 * ?n)"
      using unmarshalNACKs_len [OF assms, of q] by auto
    have "unmarshalHeader p data = Panic"
      using cut read16_cases_len [of "18 + 4 * ?n" data]
      by (cases "20 + 4 * ?n \<le> length data")
        (auto simp: unmarshalHeader_def req nk panic_iffs index_at_def Let_def not_less)
    with cut show ?thesis by simp
  next
    case full
    then obtain q' where nk: "unmarshalNACKs q data 16 = Ok (q', 17 + 4 * ?n)"
      using unmarshalNACKs_len [OF assms, of q] by auto
    obtain f os where "read16 data (18 + 4 * ?n) = Ok f" "read16 data (20 + 4 * ?n) = Ok os"
      using full read16_cases_len [of "18 + 4 * ?n" data] read16_cases_len [of "20 + 4 * ?n" data] by auto
    with full show ?thesis by (auto simp: unmarshalHeader_def req nk index_at_def Let_def)
  qed
qed

lemma Unmarshal_Panic_iff:
  "Unmarshal lib p data = Panic \<longleftrightarrow>
     22 \<le> length data \<and> 17 + 4 * announced_nacks data \<le> length data \<and>
     length data < 22 + 4 * announced_nacks data"
proof (cases "22 \<le> length data")
  case False
  then show ?thesis by (simp add: Unmarshal_def)
next
  case True
  from unmarshalHeader_cases [OF this, of p] True show ?thesis
    by (auto simp: Unmarshal_def unmarshalOptions_no_panic split: if_splits)
qed

section \<open>Properties\<close>

text \<open>
  C17. What \<^verbatim>\<open>Marshal\<close> writes: it never panics, it succeeds exactly on the packets that satisfy
  its checks (at most 255 NACKs, the fields its flags announce present and of the right length), and
  then its bytes are, in this order: the two stream identifiers, the sequence number, \<open>ackThrough\<close>, the number of NACKs, the NACKs, the resend delay, the
  flags, the length of the options modulo \<open>2 ^ 16\<close>, the options (delay, FROM destination, MTU, offline signature, signature) and the payload.
\<close>

theorem Marshal_wire_format:
  "Marshal lib p \<noteq> Panic \<and> (Marshal lib p = Ok data \<longleftrightarrow> marshalable lib p \<and> data = wire_format lib p)"
  using Marshal_marshalable [of lib p] Marshal_Ok_marshalable [of lib p] Marshal_no_panic [of lib p] by auto

text \<open>
  C16. Round trip: what \<^verbatim>\<open>Marshal\<close> writes for a decodable packet, \<^verbatim>\<open>Unmarshal\<close> reads back into a fresh packet, field by field; the
  fields that the flags leave out of the wire come back at their zero value, and an absent signature
  of a packet that announces one comes back as the zero bytes that reserve its place.  A packet is decodable if it includes its destination whenever
  it includes a signature or an offline signature, if the type of the transient key of an offline signature is known, and if its options take less than
  \<open>2 ^ 16\<close> bytes; \<^verbatim>\<open>Marshal\<close> checks none of this, and what it writes for other packets may be unreadable.
\<close>

theorem Unmarshal_Marshal:
  assumes "dest_codec lib" and "decodable lib p" and "Marshal lib p = Ok data"
  shows "Unmarshal lib emptyPacket data = Ok (wire_view lib p)"
  using assms Marshal_Ok_marshalable [OF assms(3)] Marshal_marshalable [of lib p]
    Unmarshal_wire_format [of lib p] by simp

text \<open>A concrete library for the witnesses: a destination is one byte that stands for its own encoding.\<close>

definition byte_lib :: "(byte, unit, byte) i2plib" where
  "byte_lib = \<lparr>WriteToMessage = (\<lambda>d. Inr [d]), WriteToStream = (\<lambda>d. Inr [d]),
     NewDestinationFromMessage = (\<lambda>bs. case bs of [] \<Rightarrow> Inl EOF | b # _ \<Rightarrow> Inr b),
     VerifySignature = (\<lambda>d m s. s = replicate 64 (of_nat (length m) + d)),
     Sign = (\<lambda>k m. Inr (replicate 64 (of_nat (length m) + k))),
     SigningPublicKey = (\<lambda>d. Some (replicate 32 d)),
     ed25519Verify = (\<lambda>pk m s. s = replicate 64 (of_nat (length m) + hd pk)),
     Sum256 = (\<lambda>bs. take 32 (bs @ replicate 32 0)),
     ReadCertificate = (\<lambda>bs. Inl EOF), CertificateType = (\<lambda>c. Inr 0),
     GetSignatureTypeFromCertificate = (\<lambda>c. Inr 7), CERT_MIN_SIZE = 3, CERT_NULL = 0, CERT_KEY = 5\<rparr>"

lemma byte_lib_codec: "dest_codec byte_lib"
  by (simp add: dest_codec_def byte_lib_def)

lemma byte_lib_sigLen: "getSignatureLength byte_lib (Some d) = 64"
  by (simp add: getSignatureLength_def getSignatureTypeFromDestination_def serializeDestination_def
      parseSignatureTypeFromBytes_def byte_lib_def sigtype_defs DestinationPublicKeySize_def
      DestinationSigningKeyPadding_def)

text \<open>The restriction is needed: a packet with a signature and a destination but without the flag for it is written, and cannot be read.\<close>

lemma sig_without_from_unreadable:
  "\<exists>data e. Marshal byte_lib (emptyPacket\<lparr>Flags := FlagSignatureIncluded, FromDestination := Some 9\<rparr>) = Ok data \<and>
     Unmarshal byte_lib emptyPacket data = Err e"
proof -
  have "case Marshal byte_lib (emptyPacket\<lparr>Flags := FlagSignatureIncluded, FromDestination := Some 9\<rparr>) of Ok data \<Rightarrow>
      (case Unmarshal byte_lib emptyPacket data of Err e \<Rightarrow> True | _ \<Rightarrow> False) | _ \<Rightarrow> False"
    by code_simp
  then show ?thesis by (auto split: result.splits)
qed

text \<open>A SYN packet with a destination, an MTU, eight NACKs and a reserved signature.\<close>

definition demo_syn :: "byte Packet" where
  "demo_syn = emptyPacket\<lparr>RecvStreamID := 77, SequenceNum := 0xFFFFFFFF,
     Flags := FlagSYN OR FlagNoACK OR FlagMaxPacketSizeIncluded OR FlagSignatureIncluded OR FlagFromIncluded,
     NACKs := [1, 2, 3, 4, 5, 6, 7, 8], MaxPacketSize := 1730, FromDestination := Some 9,
     Payload := [104, 105]\<rparr>"

lemma demo_syn_flags [simp]:
  "hasFlag demo_syn FlagFromIncluded" "hasFlag demo_syn FlagSignatureIncluded"
  "hasFlag demo_syn FlagMaxPacketSizeIncluded" "\<not> hasFlag demo_syn FlagDelayRequested"
  "\<not> hasFlag demo_syn FlagOfflineSignature"
  by (simp_all add: hasFlag_def demo_syn_def emptyPacket_def flag_defs)

lemma demo_syn_fields [simp]:
  "NACKs demo_syn = [1, 2, 3, 4, 5, 6, 7, 8]" "FromDestination demo_syn = Some 9"
  "Signature demo_syn = []" "MaxPacketSize demo_syn = 1730" "SequenceNum demo_syn = 0xFFFFFFFF"
  by (simp_all add: demo_syn_def emptyPacket_def)

lemma demo_syn_marshalable: "marshalable byte_lib demo_syn"
  by (simp add: marshalable_def) (simp add: byte_lib_def)

lemma demo_syn_decodable: "decodable byte_lib demo_syn"
  by (simp add: decodable_def wire_options_def delay_option_def from_option_def dest_bytes_def mtu_option_def
      offline_option_def sig_option_def sig_bytes_def byte_lib_sigLen)
    (simp add: byte_lib_def)

theorem Unmarshal_Marshal_witness:
  "\<exists>data q. Marshal byte_lib demo_syn = Ok data \<and> Unmarshal byte_lib emptyPacket data = Ok q \<and>
     FromDestination q = Some 9 \<and> NACKs q = [1, 2, 3, 4, 5, 6, 7, 8] \<and> Signature q = replicate 64 0"
  using Unmarshal_Marshal [OF byte_lib_codec demo_syn_decodable Marshal_marshalable [OF demo_syn_marshalable]]
    Marshal_marshalable [OF demo_syn_marshalable]
  by (simp add: wire_view_def sig_option_def sig_bytes_def byte_lib_sigLen)

text \<open>
  C18. Unmarshal panics exactly on the packets of at least 22 bytes that announce \<open>n\<close> NACKs, hold all
  of them, and end before the five bytes of resend delay, flags and option size that follow the
  NACKs: the only bounds check before those reads is the one for the NACK list.
\<close>

theorem Unmarshal_panics_exactly:
  "Unmarshal lib p data = Panic \<longleftrightarrow>
     22 \<le> length data \<and> 17 + 4 * announced_nacks data \<le> length data \<and>
     length data < 22 + 4 * announced_nacks data"
  by (rule Unmarshal_Panic_iff)

text \<open>
  A packet of 22 bytes that announces one NACK makes Unmarshal panic, whatever its other bytes are.
\<close>

theorem Unmarshal_panic_22:
  assumes "length ids = 16" and "length rest = 5"
  shows "Unmarshal lib emptyPacket (ids @ [1] @ rest) = Panic"
  using assms by (simp add: Unmarshal_Panic_iff announced_nacks_def nth_append)

theorem Unmarshal_panic_22_witness:
  "Unmarshal byte_lib emptyPacket (replicate 16 0 @ [1] @ replicate 5 0) = Panic"
  by (rule Unmarshal_panic_22) simp_all

text \<open>
  \<^verbatim>\<open>generateStreamID\<close> returns as soon as the source delivers a non-zero word, never returns zero, and
  returns the first non-zero word of the source; \<^verbatim>\<open>generateISN\<close> returns the first word, which may be zero.
\<close>

theorem generateStreamID_nonzero:
  assumes "w \<noteq> 0"
  shows "generateStreamID (replicate k (Inr 0) @ Inr w # rs) = Some (Ok w, rs) \<and>
    generateISN (replicate (Suc k) (Inr 0) @ Inr w # rs) = Some (Ok 0, replicate k (Inr 0) @ Inr w # rs)"
proof -
  have "generateStreamID (replicate k (Inr 0) @ Inr w # rs) = Some (Ok w, rs)"
    using assms by (induction k) (auto simp: word_neq_0_conv)
  then show ?thesis by simp
qed

theorem generateStreamID_nonzero_witness:
  "generateStreamID (replicate 2 (Inr 0) @ Inr 5 # []) = Some (Ok 5, []) \<and>
    generateISN (replicate (Suc 2) (Inr 0) @ Inr 5 # []) = Some (Ok 0, replicate 2 (Inr 0) @ Inr 5 # [])"
proof -
  have "(5 :: u32) \<noteq> 0" by simp
  from generateStreamID_nonzero [OF this, of 2 "[]"] show ?thesis .
qed

end
