(* ===== verification/Packet_Crypto.thy ===== *)
theory Packet_Crypto
  imports Packet_Wire
begin

text \<open>
  Packet authentication of \<^verbatim>\<open>crypto.go\<close>: \<^verbatim>\<open>SignPacket\<close>, \<^verbatim>\<open>VerifyPacketSignature\<close>, \<^verbatim>\<open>findSignatureOffset\<close>
  and the offline-signature check.  The lemmas show that signer and verifier compute the same bytes
  (the wire format with the signature field zeroed) and that these bytes determine every field of
  the packet the wire carries.
\<close>

section \<open>Signing and verifying packets\<close>

definition validateSignPacketPrereqs :: "'d Packet \<Rightarrow> unit result" where
  "validateSignPacketPrereqs pkt =
     (if FromDestination pkt = None
      then Err (Errorf ''cannot sign packet: FromDestination is nil'' [])
      else if \<not> hasFlag pkt FlagSignatureIncluded
      then Err (Errorf ''cannot sign packet: FlagSignatureIncluded not set'' [])
      else Ok ())"

definition findSignatureOffset :: "('d, 'c, 'k) i2plib \<Rightarrow> 'd Packet \<Rightarrow> nat" where
  "findSignatureOffset lib pkt =
     22 + length (NACKs pkt) * 4
     + (if hasFlag pkt FlagDelayRequested then 2 else 0)
     + (if hasFlag pkt FlagFromIncluded
        then (case FromDestination pkt of
                None \<Rightarrow> 0
              | Some d \<Rightarrow> (case WriteToMessage lib d of Inr bs \<Rightarrow> length bs | Inl _ \<Rightarrow> 387))
        else 0)
     + (if hasFlag pkt FlagMaxPacketSizeIncluded then 2 else 0)
     + (if hasFlag pkt FlagOfflineSignature
        then (case OfflineSignature pkt of
                None \<Rightarrow> 0
              | Some os \<Rightarrow> 4 + 2 + getPublicKeyLength (TransientSigType os)
                            + getSignatureLength lib (FromDestination pkt))
        else 0)"

text \<open>The loop \<^verbatim>\<open>for i := 0; i < n; i++ { data[off+i] = 0 }\<close>.\<close>

fun zeroBytes :: "byte list \<Rightarrow> nat \<Rightarrow> nat \<Rightarrow> byte list" where
  "zeroBytes data off 0 = data"
| "zeroBytes data off (Suc n) = zeroBytes (data[off := 0]) (Suc off) n"

definition prepareDataForSigning :: "('d, 'c, 'k) i2plib \<Rightarrow> 'd Packet \<Rightarrow> (byte list \<times> nat) result" where
  "prepareDataForSigning lib pkt =
     bind_result (wrap_result ''marshal for signing'' (Marshal lib pkt)) (\<lambda>data.
     let sigOffset = findSignatureOffset lib pkt;
         sigLen = getSignatureLength lib (FromDestination pkt)
     in if sigOffset + sigLen > length data
        then Err (Errorf ''signature offset+length (%d) exceeds data length (%d)''
               [int (sigOffset + sigLen), int (length data)])
        else Ok (zeroBytes data sigOffset sigLen, sigLen))"

definition signAndValidate :: "('d, 'c, 'k) i2plib \<Rightarrow> 'k \<Rightarrow> byte list \<Rightarrow> nat \<Rightarrow> byte list result" where
  "signAndValidate lib keyPair data expectedLen =
     (case Sign lib keyPair data of
        Inl e \<Rightarrow> Err (Wrap ''sign packet'' e)
      | Inr signature \<Rightarrow>
          if length signature \<noteq> expectedLen
          then Err (Errorf ''signature length mismatch: expected %d, got %d''
                 [int expectedLen, int (length signature)])
          else Ok signature)"

text \<open>The packet is mutated only on success, so the result is the packet with its signature.\<close>

definition SignPacket :: "('d, 'c, 'k) i2plib \<Rightarrow> 'd Packet \<Rightarrow> 'k \<Rightarrow> 'd Packet result" where
  "SignPacket lib pkt keyPair =
     bind_result (validateSignPacketPrereqs pkt) (\<lambda>_.
     bind_result (prepareDataForSigning lib pkt) (\<lambda>(data, sigLen).
     bind_result (signAndValidate lib keyPair data sigLen) (\<lambda>signature.
     Ok (pkt\<lparr>Signature := signature\<rparr>))))"

definition validateSignaturePrerequisites :: "'d Packet \<Rightarrow> unit result" where
  "validateSignaturePrerequisites pkt =
     (if FromDestination pkt = None then Err (Errorf ''cannot verify: no FROM destination'' [])
      else if length (Signature pkt) = 0 then Err (Errorf ''cannot verify: no signature present'' [])
      else if \<not> hasFlag pkt FlagSignatureIncluded
      then Err (Errorf ''cannot verify: FlagSignatureIncluded not set'' [])
      else Ok ())"

definition marshalWithZeroedSignature :: "('d, 'c, 'k) i2plib \<Rightarrow> 'd Packet \<Rightarrow> byte list result" where
  "marshalWithZeroedSignature lib pkt =
     (let sigLen = length (Signature pkt) in
      bind_result (wrap_result ''marshal for verification''
          (Marshal lib (pkt\<lparr>Signature := replicate sigLen 0\<rparr>))) (\<lambda>data.
      let sigOffset = findSignatureOffset lib pkt in
      if sigOffset + sigLen > length data
      then Err (Errorf ''signature offset+length (%d) exceeds data length (%d)''
             [int (sigOffset + sigLen), int (length data)])
      else Ok (zeroBytes data sigOffset sigLen)))"

text \<open>The call panics on a nil destination only before \<^verbatim>\<open>validateSignaturePrerequisites\<close> can pass.\<close>

definition VerifyPacketSignature :: "('d, 'c, 'k) i2plib \<Rightarrow> 'd Packet \<Rightarrow> unit result" where
  "VerifyPacketSignature lib pkt =
     bind_result (validateSignaturePrerequisites pkt) (\<lambda>_.
     let originalSig = Signature pkt in
     bind_result (marshalWithZeroedSignature lib pkt) (\<lambda>data.
     case FromDestination pkt of
       None \<Rightarrow> Panic
     | Some d \<Rightarrow>
         if \<not> VerifySignature lib d data originalSig
         then Err (Errorf ''signature verification failed: invalid signature'' [])
         else Ok ()))"

section \<open>Offline signatures\<close>

definition validateOfflineSignatureInputs ::
    "OfflineSig option \<Rightarrow> 'd option \<Rightarrow> bool \<Rightarrow> unit result" where
  "validateOfflineSignatureInputs offsig dest cryptoPresent =
     (case offsig of
        None \<Rightarrow> Err (Errorf ''offline signature is nil'' [])
      | Some os \<Rightarrow>
          if dest = None then Err (Errorf ''destination is nil'' [])
          else if \<not> cryptoPresent then Err (Errorf ''crypto is nil'' [])
          else if length (TransientPublicKey os) = 0
          then Err (Errorf ''transient public key is empty'' [])
          else Ok ())"

definition checkOfflineSignatureExpiration :: "int \<Rightarrow> OfflineSig \<Rightarrow> unit result" where
  "checkOfflineSignatureExpiration nowUnix os =
     (if nowUnix > uint (Expires os)
      then Err (Errorf ''offline signature expired at %d, current time %d'' [uint (Expires os), nowUnix])
      else Ok ())"

definition buildOfflineSignatureData :: "OfflineSig \<Rightarrow> byte list" where
  "buildOfflineSignatureData os =
     [] @ PutUint32 (Expires os) @ PutUint16 (TransientSigType os) @ TransientPublicKey os"

definition validateDestSignatureFormat :: "byte list \<Rightarrow> unit result" where
  "validateDestSignatureFormat destSignature =
     (if length destSignature \<noteq> 64
      then Err (Errorf ''invalid dest signature length: expected 64, got %d'' [int (length destSignature)])
      else if list_ex (\<lambda>b. b \<noteq> 0) destSignature then Ok ()
      else Err (Errorf ''dest signature is all zeros'' []))"

definition VerifyOfflineSignature ::
    "('d, 'c, 'k) i2plib \<Rightarrow> int \<Rightarrow> OfflineSig option \<Rightarrow> 'd option \<Rightarrow> bool \<Rightarrow> unit result" where
  "VerifyOfflineSignature lib nowUnix offsig dest cryptoPresent =
     bind_result (validateOfflineSignatureInputs offsig dest cryptoPresent) (\<lambda>_.
     case (offsig, dest) of
       (Some os, Some d) \<Rightarrow>
         bind_result (checkOfflineSignatureExpiration nowUnix os) (\<lambda>_.
         let toSign = buildOfflineSignatureData os in
         bind_result (validateDestSignatureFormat (DestSignature os)) (\<lambda>_.
         case SigningPublicKey lib d of
           None \<Rightarrow> Err (Errorf ''destination has no signing public key'' [])
         | Some pubKey \<Rightarrow>
             if length pubKey \<noteq> 32
             then Err (Errorf ''invalid signing public key size: expected %d, got %d''
                    [32, int (length pubKey)])
             else if \<not> ed25519Verify lib pubKey toSign (DestSignature os)
             then Err (Errorf ''offline signature verification failed: signature does not match'' [])
             else Ok ()))
     | _ \<Rightarrow> Panic)"

section \<open>The bytes under a signature\<close>

text \<open>The wire format of a packet with \<open>n\<close> zero bytes in the place of its signature.\<close>

definition signed_bytes :: "('d, 'c, 'k) i2plib \<Rightarrow> 'd Packet \<Rightarrow> byte list" where
  "signed_bytes lib pkt =
     wire_format lib (pkt\<lparr>Signature := replicate (getSignatureLength lib (FromDestination pkt)) 0\<rparr>)"

lemma zeroBytes_append:
  "length pre = off \<Longrightarrow> length mid = n \<Longrightarrow> zeroBytes (pre @ mid @ post) off n = pre @ replicate n 0 @ post"
proof (induction n arbitrary: pre off mid)
  case 0
  then show ?case by simp
next
  case (Suc n)
  then obtain m ms where mid: "mid = m # ms" by (cases mid) auto
  have "zeroBytes (pre @ mid @ post) off (Suc n) = zeroBytes ((pre @ [0]) @ ms @ post) (Suc off) n"
    using Suc.prems mid by (simp add: list_update_append)
  also have "\<dots> = (pre @ [0]) @ replicate n 0 @ post"
    using Suc.prems mid by (intro Suc.IH) auto
  finally show ?case by simp
qed

text \<open>\<^verbatim>\<open>findSignatureOffset\<close> is where the wire format puts the signature.\<close>

definition wire_before_signature :: "('d, 'c, 'k) i2plib \<Rightarrow> 'd Packet \<Rightarrow> byte list" where
  "wire_before_signature lib p =
     wire_ids p @ [of_nat (length (NACKs p))] @ concat (map PutUint32 (NACKs p)) @ [ResendDelay p]
       @ PutUint16 (Flags p) @ PutUint16 (of_nat (length (wire_options lib p)))
       @ delay_option p @ from_option lib p @ mtu_option p @ offline_option p"

lemma wire_format_split: "wire_format lib p = wire_before_signature lib p @ sig_option lib p @ Payload p"
  by (simp add: wire_format_def wire_before_signature_def wire_options_def)

lemma length_wire_before_signature:
  assumes "marshalable lib p"
  shows "length (wire_before_signature lib p) = findSignatureOffset lib p"
  using assms
  by (auto simp: wire_before_signature_def findSignatureOffset_def wire_ids_def be32.length_concat_put
      delay_option_def from_option_def dest_bytes_def mtu_option_def offline_option_def offline_bytes_def
      marshalable_def split: option.splits sum.splits)

lemma wire_before_signature_resize:
  assumes "length (sig_option lib (p\<lparr>Signature := s\<rparr>)) = length (sig_option lib p)"
  shows "wire_before_signature lib (p\<lparr>Signature := s\<rparr>) = wire_before_signature lib p"
  using assms
  by (simp add: wire_before_signature_def wire_options_def wire_ids_def delay_option_def from_option_def
      mtu_option_def offline_option_def)

lemma zeroBytes_wire:
  assumes m: "marshalable lib p" and fl: "hasFlag p FlagSignatureIncluded"
    and n: "n = getSignatureLength lib (FromDestination p)"
  shows "findSignatureOffset lib p + n \<le> length (wire_format lib p) \<and>
    zeroBytes (wire_format lib p) (findSignatureOffset lib p) n = signed_bytes lib p"
proof -
  let ?z = "replicate n (0 :: byte)"
  have len: "length (sig_option lib p) = n"
    using m fl n by (auto simp: sig_option_def sig_bytes_def marshalable_def)
  moreover have "0 < n" using m fl n getSignatureLength_eq_0 [of lib "FromDestination p"]
    by (auto simp: marshalable_def simp del: getSignatureLength_eq_0)
  ultimately have sz: "sig_option lib (p\<lparr>Signature := ?z\<rparr>) = ?z"
    using fl by (simp add: sig_option_def sig_bytes_def)
  have "wire_format lib (p\<lparr>Signature := ?z\<rparr>) = wire_before_signature lib p @ ?z @ Payload p"
    using sz len by (simp add: wire_format_split wire_before_signature_resize)
  moreover have "zeroBytes (wire_before_signature lib p @ sig_option lib p @ Payload p)
      (findSignatureOffset lib p) n = wire_before_signature lib p @ ?z @ Payload p"
    using length_wire_before_signature [OF m] len by (intro zeroBytes_append) auto
  ultimately show ?thesis
    using length_wire_before_signature [OF m] len
    by (simp add: signed_bytes_def wire_format_split n)
qed

lemma prepareDataForSigning_eq:
  assumes "marshalable lib p" and "hasFlag p FlagSignatureIncluded"
  shows "prepareDataForSigning lib p =
    Ok (signed_bytes lib p, getSignatureLength lib (FromDestination p))"
  using zeroBytes_wire [OF assms refl]
  by (auto simp: prepareDataForSigning_def Marshal_marshalable [OF assms(1)] Let_def)

lemma signed_bytes_Signature [simp]: "signed_bytes lib (p\<lparr>Signature := s\<rparr>) = signed_bytes lib p"
  by (simp add: signed_bytes_def)

lemma findSignatureOffset_Signature [simp]:
  "findSignatureOffset lib (p\<lparr>Signature := s\<rparr>) = findSignatureOffset lib p"
  by (simp add: findSignatureOffset_def split: option.splits)

lemma marshalable_Signature:
  "length s = length (Signature p) \<Longrightarrow> marshalable lib (p\<lparr>Signature := s\<rparr>) = marshalable lib p"
  by (cases "OfflineSignature p"; cases s; cases "Signature p") (simp_all add: marshalable_def)

lemma marshalWithZeroedSignature_eq:
  assumes "hasFlag p FlagSignatureIncluded" and "Signature p \<noteq> []"
  shows "marshalWithZeroedSignature lib p = Ok data \<longleftrightarrow> marshalable lib p \<and> data = signed_bytes lib p"
proof (cases "marshalable lib p")
  case True
  let ?z = "p\<lparr>Signature := replicate (length (Signature p)) 0\<rparr>"
  have m: "marshalable lib ?z" using True by (subst marshalable_Signature) simp_all
  have n: "length (Signature p) = getSignatureLength lib (FromDestination ?z)"
    using True assms by (auto simp: marshalable_def)
  from zeroBytes_wire [OF m _ n] assms True show ?thesis
    by (auto simp: marshalWithZeroedSignature_def Marshal_marshalable [OF m] Let_def)
next
  case False
  then have "\<not> marshalable lib (p\<lparr>Signature := replicate (length (Signature p)) 0\<rparr>)"
    by (subst marshalable_Signature) simp_all
  then have "Marshal lib (p\<lparr>Signature := replicate (length (Signature p)) 0\<rparr>) \<noteq> Ok d" for d
    using Marshal_Ok_marshalable by blast
  with False show ?thesis by (simp add: marshalWithZeroedSignature_def Let_def)
qed

lemma VerifyPacketSignature_iff:
  "VerifyPacketSignature lib p = Ok () \<longleftrightarrow>
     hasFlag p FlagSignatureIncluded \<and> Signature p \<noteq> [] \<and> marshalable lib p \<and>
     (\<exists>d. FromDestination p = Some d \<and> VerifySignature lib d (signed_bytes lib p) (Signature p))"
  by (auto simp: VerifyPacketSignature_def validateSignaturePrerequisites_def Let_def
      marshalWithZeroedSignature_eq split: if_splits option.splits)

lemma SignPacket_Ok:
  "SignPacket lib p k = Ok p' \<longleftrightarrow>
     hasFlag p FlagSignatureIncluded \<and> FromDestination p \<noteq> None \<and> marshalable lib p \<and>
     (\<exists>s. Sign lib k (signed_bytes lib p) = Inr s \<and>
        length s = getSignatureLength lib (FromDestination p) \<and> p' = p\<lparr>Signature := s\<rparr>)"
proof (cases "hasFlag p FlagSignatureIncluded \<and> marshalable lib p")
  case True
  then show ?thesis
    by (auto simp: SignPacket_def validateSignPacketPrereqs_def prepareDataForSigning_eq
        signAndValidate_def split: if_splits sum.splits)
next
  case False
  have "Marshal lib p \<noteq> Ok d" if "\<not> marshalable lib p" for d
    using that Marshal_Ok_marshalable by blast
  with False show ?thesis
    by (auto simp: SignPacket_def validateSignPacketPrereqs_def prepareDataForSigning_def Let_def
        split: if_splits)
qed

section \<open>Properties\<close>

text \<open>
  C22. Signatures verify: when the key pair belongs to the FROM destination (every signature it makes
  is one the destination accepts), a packet signed by SignPacket passes VerifyPacketSignature, and
  signing changes nothing but the signature field.
\<close>

theorem SignPacket_verifies:
  assumes "FromDestination p = Some d"
    and "\<And>m s. Sign lib k m = Inr s \<Longrightarrow> VerifySignature lib d m s"
    and "SignPacket lib p k = Ok p'"
  shows "VerifyPacketSignature lib p' = Ok () \<and> p' = p\<lparr>Signature := Signature p'\<rparr>"
proof -
  from assms(3) obtain s where s: "Sign lib k (signed_bytes lib p) = Inr s"
    and len: "length s = getSignatureLength lib (Some d)" and p': "p' = p\<lparr>Signature := s\<rparr>"
    and fl: "hasFlag p FlagSignatureIncluded" and m: "marshalable lib p"
    using assms(1) by (auto simp: SignPacket_Ok)
  from len getSignatureLength_eq_0 [of lib "Some d"] have "s \<noteq> []" by auto
  moreover have "marshalable lib p'"
    using m len assms(1) by (cases "OfflineSignature p") (auto simp: p' marshalable_def)
  ultimately show ?thesis
    using s fl assms(1,2) by (simp add: VerifyPacketSignature_iff p')
qed

lemma demo_syn_signs: "\<exists>p'. SignPacket byte_lib demo_syn 9 = Ok p'"
  by (simp add: SignPacket_Ok demo_syn_marshalable byte_lib_sigLen) (simp add: byte_lib_def)

theorem SignPacket_verifies_witness:
  "\<exists>p'. SignPacket byte_lib demo_syn 9 = Ok p' \<and> VerifyPacketSignature byte_lib p' = Ok ()"
proof -
  obtain p' where p': "SignPacket byte_lib demo_syn 9 = Ok p'" using demo_syn_signs by blast
  have "VerifyPacketSignature byte_lib p' = Ok () \<and> p' = demo_syn\<lparr>Signature := Signature p'\<rparr>"
    by (rule SignPacket_verifies [OF demo_syn_fields(2) _ p']) (auto simp: byte_lib_def)
  with p' show ?thesis by blast
qed

text \<open>
  What a signature covers: VerifyPacketSignature accepts a packet exactly when the destination
  accepts its signature over the wire format with a zeroed signature field, and two decodable
  packets with the same signed bytes agree in every field the wire carries but the signature.  No
  field can be changed without changing the bytes the signature is over.
\<close>

theorem signature_covers_packet:
  assumes "dest_codec lib" and "decodable lib p" and "decodable lib q"
    and "VerifyPacketSignature lib p = Ok ()" and "VerifyPacketSignature lib q = Ok ()"
  shows "(\<exists>d. FromDestination p = Some d \<and> VerifySignature lib d (signed_bytes lib p) (Signature p)) \<and>
    (signed_bytes lib p = signed_bytes lib q \<longrightarrow>
       (wire_view lib p)\<lparr>Signature := []\<rparr> = (wire_view lib q)\<lparr>Signature := []\<rparr>)"
proof -
  have z: "Unmarshal lib emptyPacket (signed_bytes lib r) =
      Ok ((wire_view lib r)\<lparr>Signature := replicate (getSignatureLength lib (FromDestination r)) 0\<rparr>)"
    if v: "VerifyPacketSignature lib r = Ok ()" and d: "decodable lib r" for r
  proof -
    let ?z = "r\<lparr>Signature := replicate (getSignatureLength lib (FromDestination r)) 0\<rparr>"
    from v have n: "length (Signature r) = getSignatureLength lib (FromDestination r)"
      and ne: "Signature r \<noteq> []" and fl: "hasFlag r FlagSignatureIncluded" and m: "marshalable lib r"
      by (auto simp: VerifyPacketSignature_iff marshalable_def)
    have m': "marshalable lib ?z" using m n by (subst marshalable_Signature) simp_all
    have "length (wire_options lib ?z) = length (wire_options lib r)"
      using n ne by (simp add: wire_options_def delay_option_def from_option_def mtu_option_def
          offline_option_def sig_option_def sig_bytes_def)
    then have "decodable lib ?z" using d by (simp add: decodable_def)
    from Unmarshal_wire_format [OF assms(1) m' this] ne n fl show ?thesis
      by (simp add: signed_bytes_def wire_view_def sig_option_def sig_bytes_def)
  qed
  have "(wire_view lib p)\<lparr>Signature := []\<rparr> = (wire_view lib q)\<lparr>Signature := []\<rparr>"
    if "signed_bytes lib p = signed_bytes lib q"
  proof -
    from z [OF assms(4,2)] z [OF assms(5,3)] that
    have "(wire_view lib p)\<lparr>Signature := replicate (getSignatureLength lib (FromDestination p)) 0\<rparr> =
        (wire_view lib q)\<lparr>Signature := replicate (getSignatureLength lib (FromDestination q)) 0\<rparr>" by simp
    from arg_cong [OF this, of "\<lambda>r. r\<lparr>Signature := []\<rparr>"] show ?thesis by simp
  qed
  with assms(4) show ?thesis by (auto simp: VerifyPacketSignature_iff)
qed

theorem signature_covers_packet_witness:
  "\<exists>p'. SignPacket byte_lib demo_syn 9 = Ok p' \<and>
     (\<exists>d. FromDestination p' = Some d \<and>
        VerifySignature byte_lib d (signed_bytes byte_lib p') (Signature p'))"
proof -
  obtain p' where p': "SignPacket byte_lib demo_syn 9 = Ok p'" using demo_syn_signs by blast
  then have eq: "p' = demo_syn\<lparr>Signature := Signature p'\<rparr>" and n: "length (Signature p') = 64"
    by (auto simp: SignPacket_Ok byte_lib_sigLen)
  have v: "VerifyPacketSignature byte_lib p' = Ok ()"
    using p' by (auto simp: SignPacket_Ok VerifyPacketSignature_iff marshalable_def byte_lib_sigLen)
      (auto simp: byte_lib_def)
  have "length (wire_options byte_lib p') = length (wire_options byte_lib demo_syn)"
    using n by (subst eq) (auto simp: wire_options_def delay_option_def from_option_def mtu_option_def
        offline_option_def sig_option_def sig_bytes_def byte_lib_sigLen)
  moreover have fl: "hasFlag p' = hasFlag demo_syn" by (subst eq) (simp add: fun_eq_iff)
  ultimately have "decodable byte_lib p'"
    using demo_syn_decodable by (simp add: decodable_def)
  from signature_covers_packet [OF byte_lib_codec this this v v] p' show ?thesis by blast
qed

text \<open>
  VerifyOfflineSignature accepts exactly when the transient key is present, the expiry is not in the
  past, the destination signature has 64 bytes that are not all zero, the destination has a 32-byte
  key, and that key signed expiry, key type and transient key.
\<close>

theorem VerifyOfflineSignature_iff:
  "VerifyOfflineSignature lib nowUnix offsig dest cryptoPresent = Ok () \<longleftrightarrow>
     (\<exists>os d pk. offsig = Some os \<and> dest = Some d \<and> cryptoPresent \<and> TransientPublicKey os \<noteq> [] \<and>
        nowUnix \<le> uint (Expires os) \<and> length (DestSignature os) = 64 \<and>
        DestSignature os \<noteq> replicate 64 0 \<and> SigningPublicKey lib d = Some pk \<and> length pk = 32 \<and>
        ed25519Verify lib pk (PutUint32 (Expires os) @ PutUint16 (TransientSigType os) @ TransientPublicKey os)
          (DestSignature os))"
proof -
  have nz: "list_ex (\<lambda>b. b \<noteq> 0) xs \<longleftrightarrow> xs \<noteq> replicate 64 0" if "length xs = 64" for xs :: "byte list"
    using that replicate_length_same [of xs 0] by (auto simp: list_ex_iff)
  show ?thesis
    by (auto simp: VerifyOfflineSignature_def validateOfflineSignatureInputs_def
        checkOfflineSignatureExpiration_def validateDestSignatureFormat_def buildOfflineSignatureData_def
        nz Let_def split: option.splits if_splits)
qed

end
