(* ===== verification/Profile.thy ===== *)
theory Profile
  imports Packet_Codec
begin

text \<open>
  The traffic profile hint of \<^verbatim>\<open>profile.go\<close> and its encoding in the packet flags.
\<close>

type_synonym StreamProfile = int

definition ProfileBulk :: StreamProfile where "ProfileBulk = 1"
definition ProfileInteractive :: StreamProfile where "ProfileInteractive = 2"

definition IsValid :: "StreamProfile \<Rightarrow> bool" where
  "IsValid p \<longleftrightarrow> p = ProfileBulk \<or> p = ProfileInteractive"

record ProfileConfig =
  cfgProfile :: StreamProfile

definition DefaultProfileConfig :: ProfileConfig where
  "DefaultProfileConfig = \<lparr>cfgProfile = ProfileBulk\<rparr>"

definition profileFromFlag :: "u16 \<Rightarrow> StreamProfile" where
  "profileFromFlag flags = (if flags AND FlagProfileInteractive \<noteq> 0 then ProfileInteractive else ProfileBulk)"

definition profileToFlag :: "StreamProfile \<Rightarrow> u16" where
  "profileToFlag profile = (if profile = ProfileInteractive then FlagProfileInteractive else 0)"

lemmas profile_defs = ProfileBulk_def ProfileInteractive_def

lemma profileFromFlag_valid: "IsValid (profileFromFlag flags)"
  by (simp add: IsValid_def profileFromFlag_def)

lemma profile_bit: "w AND FlagProfileInteractive \<noteq> 0 \<longleftrightarrow> bit w 8"
  by (simp add: flag_defs bit_iff_and_push_bit_not_eq_0)

text \<open>
  The profile survives the flag word: a valid profile or-ed into any flags in which bit 8 is clear
  is read back, and the flag bits around it are unchanged.
\<close>

theorem profile_flag_roundtrip:
  assumes "IsValid p" and "flags AND FlagProfileInteractive = 0"
  shows "profileFromFlag (flags OR profileToFlag p) = p \<and>
    (flags OR profileToFlag p) AND NOT FlagProfileInteractive = flags"
proof -
  have b: "\<not> bit flags 8" using assms(2) profile_bit [of flags] by simp
  have "bit FlagProfileInteractive n \<longleftrightarrow> n = 8" for n
    unfolding FlagProfileInteractive_def bit_push_bit_iff bit_1_iff by auto
  with b have "flags AND NOT FlagProfileInteractive = flags" 
    "(flags OR FlagProfileInteractive) AND NOT FlagProfileInteractive = flags"
    "bit (flags OR FlagProfileInteractive) 8"
    by (auto intro!: bit_word_eqI simp: bit_simps)
  with assms b show ?thesis
    by (auto simp: IsValid_def profileFromFlag_def profileToFlag_def profile_bit profile_defs)
qed

theorem profile_flag_roundtrip_witness:
  "profileFromFlag (FlagSYN OR profileToFlag ProfileInteractive) = ProfileInteractive"
  using profile_flag_roundtrip [of ProfileInteractive FlagSYN]
  by (simp add: IsValid_def flag_defs)

end
