(* ===== verification/Conn_Limits.thy ===== *)
theory Conn_Limits
  imports Packet_Wire
begin

text \<open>
  The connection limiter of \<^verbatim>\<open>limits.go\<close>.  A limiter keeps the number of active streams, the time
  stamps of the accepted connections and the same per peer; every rate limit is a sliding window over
  them.  The abstract limiter keeps the log of everything it ever accepted and decides on it directly;
  the concrete one, which prunes and forgets, refines it.  Times of successive calls do not decrease
  (\<^verbatim>\<open>time.Now\<close> is monotonic within a process).
\<close>

section \<open>Configuration\<close>

type_synonym LimitAction = int

definition LimitActionReset :: LimitAction where "LimitActionReset = 0"
definition LimitActionDrop :: LimitAction where "LimitActionDrop = 1"
definition LimitActionHTTP :: LimitAction where "LimitActionHTTP = 2"

record ConnectionLimitsConfig =
  MaxConcurrentStreams :: int
  MaxConnsPerMinute :: int
  MaxConnsPerHour :: int
  MaxConnsPerDay :: int
  MaxTotalConnsPerMinute :: int
  MaxTotalConnsPerHour :: int
  MaxTotalConnsPerDay :: int
  limitAction :: LimitAction
  DisableRejectLogging :: bool

definition DefaultConnectionLimitsConfig :: ConnectionLimitsConfig where
  "DefaultConnectionLimitsConfig =
     \<lparr>MaxConcurrentStreams = - 1, MaxConnsPerMinute = 0, MaxConnsPerHour = 0, MaxConnsPerDay = 0,
      MaxTotalConnsPerMinute = 0, MaxTotalConnsPerHour = 0, MaxTotalConnsPerDay = 0,
      limitAction = LimitActionReset, DisableRejectLogging = False\<rparr>"

section \<open>State\<close>

record connectionHistory =
  timestamps :: "instant list"

record connectionLimiter =
  cl_config :: ConnectionLimitsConfig
  activeStreams :: int
  peerHistory :: "(byte list, connectionHistory) gomap"
  totalHistory :: connectionHistory

definition newConnectionLimiter :: "ConnectionLimitsConfig option \<Rightarrow> connectionLimiter" where
  "newConnectionLimiter config =
     \<lparr>cl_config = (case config of None \<Rightarrow> DefaultConnectionLimitsConfig | Some c \<Rightarrow> c),
      activeStreams = 0, peerHistory = [], totalHistory = \<lparr>timestamps = []\<rparr>\<rparr>"

definition SetConfig :: "connectionLimiter \<Rightarrow> ConnectionLimitsConfig option \<Rightarrow> connectionLimiter" where
  "SetConfig cl config =
     cl\<lparr>cl_config := (case config of None \<Rightarrow> DefaultConnectionLimitsConfig | Some c \<Rightarrow> c)\<rparr>"

definition GetConfig :: "connectionLimiter \<Rightarrow> ConnectionLimitsConfig" where
  "GetConfig cl =
     \<lparr>MaxConcurrentStreams = MaxConcurrentStreams (cl_config cl),
      MaxConnsPerMinute = MaxConnsPerMinute (cl_config cl),
      MaxConnsPerHour = MaxConnsPerHour (cl_config cl),
      MaxConnsPerDay = MaxConnsPerDay (cl_config cl),
      MaxTotalConnsPerMinute = MaxTotalConnsPerMinute (cl_config cl),
      MaxTotalConnsPerHour = MaxTotalConnsPerHour (cl_config cl),
      MaxTotalConnsPerDay = MaxTotalConnsPerDay (cl_config cl),
      limitAction = limitAction (cl_config cl),
      DisableRejectLogging = DisableRejectLogging (cl_config cl)\<rparr>"

definition ActiveStreams :: "connectionLimiter \<Rightarrow> int" where
  "ActiveStreams cl = activeStreams cl"

section \<open>Histories\<close>

definition pruneOldEntriesLocked :: "connectionHistory \<Rightarrow> instant \<Rightarrow> connectionHistory" where
  "pruneOldEntriesLocked h now =
     (let cutoff = now - 24 * Hour in h\<lparr>timestamps := filter (\<lambda>ts. ts > cutoff) (timestamps h)\<rparr>)"

definition countSinceLocked :: "connectionHistory \<Rightarrow> instant \<Rightarrow> int" where
  "countSinceLocked h since = foldl (\<lambda>count ts. if ts > since then count + 1 else count) 0 (timestamps h)"

text \<open>The \<^verbatim>\<open>if max > 0\<close> block every rate limit repeats: the error when the window is full.\<close>

definition windowFull :: "connectionHistory \<Rightarrow> instant \<Rightarrow> duration \<Rightarrow> int \<Rightarrow> string \<Rightarrow> goerror option" where
  "windowFull h now w limit msg =
     (if limit > 0 \<and> countSinceLocked h (now - w) \<ge> limit then Some (Errorf msg [limit]) else None)"

section \<open>Checks and recording\<close>

definition getPeerHash :: "('d, 'c, 'k) i2plib \<Rightarrow> 'd option \<Rightarrow> byte list" where
  "getPeerHash lib dest =
     (case dest of None \<Rightarrow> []
      | Some d \<Rightarrow> (case WriteToStream lib d of Inl _ \<Rightarrow> [] | Inr bs \<Rightarrow> bs))"

text \<open>\<^verbatim>\<open>getOrCreatePeerHistoryLocked\<close> returns the history and leaves it in the map.\<close>

definition getOrCreatePeerHistoryLocked ::
  "connectionLimiter \<Rightarrow> byte list \<Rightarrow> connectionHistory \<times> connectionLimiter" where
  "getOrCreatePeerHistoryLocked cl peerHash =
     (case map_of (peerHistory cl) peerHash of
        Some history \<Rightarrow> (history, cl)
      | None \<Rightarrow> (let history = \<lparr>timestamps = []\<rparr>
                in (history, cl\<lparr>peerHistory := AList.update peerHash history (peerHistory cl)\<rparr>)))"

definition checkConcurrentLimitLocked :: "connectionLimiter \<Rightarrow> goerror option" where
  "checkConcurrentLimitLocked cl =
     (if MaxConcurrentStreams (cl_config cl) > 0 \<and> activeStreams cl \<ge> MaxConcurrentStreams (cl_config cl)
      then Some (Errorf ''max concurrent streams limit exceeded'' [MaxConcurrentStreams (cl_config cl)])
      else None)"

definition checkTotalRateLimitsLocked ::
  "connectionLimiter \<Rightarrow> instant \<Rightarrow> goerror option \<times> connectionLimiter" where
  "checkTotalRateLimitsLocked cl now =
     (let h = pruneOldEntriesLocked (totalHistory cl) now;
          cl = cl\<lparr>totalHistory := h\<rparr>;
          cfg = cl_config cl
      in (case windowFull h now Minute (MaxTotalConnsPerMinute cfg)
                 ''total connections per minute limit exceeded'' of
            Some e \<Rightarrow> Some e
          | None \<Rightarrow>
         (case windowFull h now Hour (MaxTotalConnsPerHour cfg)
                 ''total connections per hour limit exceeded'' of
            Some e \<Rightarrow> Some e
          | None \<Rightarrow>
            windowFull h now (24 * Hour) (MaxTotalConnsPerDay cfg)
              ''total connections per day limit exceeded''), cl))"

definition checkPeerRateLimitsLocked ::
  "('d, 'c, 'k) i2plib \<Rightarrow> connectionLimiter \<Rightarrow> 'd option \<Rightarrow> instant \<Rightarrow> goerror option \<times> connectionLimiter" where
  "checkPeerRateLimitsLocked lib cl peerDest now =
     (let cfg = cl_config cl in
      if peerDest = None then (None, cl)
      else if MaxConnsPerMinute cfg \<le> 0 \<and> MaxConnsPerHour cfg \<le> 0 \<and> MaxConnsPerDay cfg \<le> 0
      then (None, cl)
      else
        let peerHash = getPeerHash lib peerDest;
            (history, cl) = getOrCreatePeerHistoryLocked cl peerHash;
            h = pruneOldEntriesLocked history now;
            cl = cl\<lparr>peerHistory := AList.update peerHash h (peerHistory cl)\<rparr>
        in (case windowFull h now Minute (MaxConnsPerMinute cfg)
                   ''connections per minute from peer exceeded'' of
              Some e \<Rightarrow> Some e
            | None \<Rightarrow>
           (case windowFull h now Hour (MaxConnsPerHour cfg)
                   ''connections per hour from peer exceeded'' of
              Some e \<Rightarrow> Some e
            | None \<Rightarrow>
              windowFull h now (24 * Hour) (MaxConnsPerDay cfg)
                ''connections per day from peer exceeded''), cl))"

definition recordConnectionLocked ::
  "('d, 'c, 'k) i2plib \<Rightarrow> connectionLimiter \<Rightarrow> 'd option \<Rightarrow> instant \<Rightarrow> connectionLimiter" where
  "recordConnectionLocked lib cl peerDest now =
     (let cl = cl\<lparr>activeStreams := activeStreams cl + 1\<rparr>;
          cl = cl\<lparr>totalHistory := (totalHistory cl)\<lparr>timestamps := timestamps (totalHistory cl) @ [now]\<rparr>\<rparr>
      in if peerDest = None then cl
         else
           let peerHash = getPeerHash lib peerDest;
               (history, cl) = getOrCreatePeerHistoryLocked cl peerHash
           in cl\<lparr>peerHistory := AList.update peerHash
                   (history\<lparr>timestamps := timestamps history @ [now]\<rparr>) (peerHistory cl)\<rparr>)"

definition CheckAndRecordConnection ::
  "('d, 'c, 'k) i2plib \<Rightarrow> connectionLimiter \<Rightarrow> 'd option \<Rightarrow> instant \<Rightarrow> goerror option \<times> connectionLimiter" where
  "CheckAndRecordConnection lib cl peerDest now =
     (case checkConcurrentLimitLocked cl of
        Some e \<Rightarrow> (Some e, cl)
      | None \<Rightarrow>
     (case checkTotalRateLimitsLocked cl now of
        (Some e, cl) \<Rightarrow> (Some e, cl)
      | (None, cl) \<Rightarrow>
     (case checkPeerRateLimitsLocked lib cl peerDest now of
        (Some e, cl) \<Rightarrow> (Some e, cl)
      | (None, cl) \<Rightarrow> (None, recordConnectionLocked lib cl peerDest now))))"

definition ConnectionClosed :: "connectionLimiter \<Rightarrow> connectionLimiter" where
  "ConnectionClosed cl =
     (if activeStreams cl > 0 then cl\<lparr>activeStreams := activeStreams cl - 1\<rparr> else cl)"

text \<open>
  One iteration of the loop of \<^verbatim>\<open>CleanupStaleHistory\<close>: what the entry becomes, \<open>None\<close> when it is
  deleted.  An iteration touches no other entry, so the order in which Go visits the map is irrelevant.
\<close>

definition cleanupPeer :: "instant \<Rightarrow> byte list \<times> connectionHistory \<Rightarrow> (byte list \<times> connectionHistory) option" where
  "cleanupPeer now e =
     (let cutoff = now - 24 * Hour;
          h = pruneOldEntriesLocked (snd e) now
      in if timestamps h = [] then None
         else let hasRecent = list_ex (\<lambda>ts. ts > cutoff) (timestamps h)
              in if \<not> hasRecent then None else Some (fst e, h))"

definition CleanupStaleHistory :: "connectionLimiter \<Rightarrow> instant \<Rightarrow> connectionLimiter" where
  "CleanupStaleHistory cl now = cl\<lparr>peerHistory := List.map_filter (cleanupPeer now) (peerHistory cl)\<rparr>"

section \<open>The abstract limiter\<close>

text \<open>It remembers every accepted connection with its peer (\<open>None\<close> when the peer is not known).\<close>

record abs_limiter =
  ab_config :: ConnectionLimitsConfig
  ab_active :: int
  ab_log :: "(instant \<times> byte list option) list"

definition accepted_since :: "(instant \<times> byte list option) list \<Rightarrow> (byte list option \<Rightarrow> bool) \<Rightarrow> instant \<Rightarrow> int" where
  "accepted_since es P since = int (length (filter (\<lambda>e. fst e > since \<and> P (snd e)) es))"

definition room :: "int \<Rightarrow> int \<Rightarrow> bool" where
  "room limit n \<longleftrightarrow> (limit > 0 \<longrightarrow> n < limit)"

definition peer_ok :: "abs_limiter \<Rightarrow> byte list option \<Rightarrow> instant \<Rightarrow> bool" where
  "peer_ok a p now \<longleftrightarrow>
     room (MaxConnsPerMinute (ab_config a)) (accepted_since (ab_log a) (\<lambda>q. q = p) (now - Minute)) \<and>
     room (MaxConnsPerHour (ab_config a)) (accepted_since (ab_log a) (\<lambda>q. q = p) (now - Hour)) \<and>
     room (MaxConnsPerDay (ab_config a)) (accepted_since (ab_log a) (\<lambda>q. q = p) (now - 24 * Hour))"

definition admits :: "abs_limiter \<Rightarrow> byte list option \<Rightarrow> instant \<Rightarrow> bool" where
  "admits a p now \<longleftrightarrow>
     room (MaxConcurrentStreams (ab_config a)) (ab_active a) \<and>
     room (MaxTotalConnsPerMinute (ab_config a)) (accepted_since (ab_log a) (\<lambda>_. True) (now - Minute)) \<and>
     room (MaxTotalConnsPerHour (ab_config a)) (accepted_since (ab_log a) (\<lambda>_. True) (now - Hour)) \<and>
     room (MaxTotalConnsPerDay (ab_config a)) (accepted_since (ab_log a) (\<lambda>_. True) (now - 24 * Hour)) \<and>
     (p \<noteq> None \<longrightarrow> peer_ok a p now)"

text \<open>Histories of calls, and the decisions a limiter and its abstraction take on them.\<close>

datatype 'd limiter_op =
    Arrive "'d option" instant
  | StreamClosed
  | Cleanup instant
  | Configure "ConnectionLimitsConfig option"

fun limiter_step :: "('d, 'c, 'k) i2plib \<Rightarrow> connectionLimiter \<Rightarrow> 'd limiter_op \<Rightarrow> bool list \<times> connectionLimiter" where
  "limiter_step lib cl (Arrive p now) =
     (case CheckAndRecordConnection lib cl p now of (e, cl') \<Rightarrow> ([e = None], cl'))"
| "limiter_step lib cl StreamClosed = ([], ConnectionClosed cl)"
| "limiter_step lib cl (Cleanup now) = ([], CleanupStaleHistory cl now)"
| "limiter_step lib cl (Configure c) = ([], SetConfig cl c)"

definition peer_key :: "('d, 'c, 'k) i2plib \<Rightarrow> 'd option \<Rightarrow> byte list option" where
  "peer_key lib p = map_option (\<lambda>d. getPeerHash lib (Some d)) p"

fun abs_step :: "('d, 'c, 'k) i2plib \<Rightarrow> abs_limiter \<Rightarrow> 'd limiter_op \<Rightarrow> bool list \<times> abs_limiter" where
  "abs_step lib a (Arrive p now) =
     (if admits a (peer_key lib p) now
      then ([True], a\<lparr>ab_active := ab_active a + 1, ab_log := ab_log a @ [(now, peer_key lib p)]\<rparr>)
      else ([False], a))"
| "abs_step lib a StreamClosed = ([], a\<lparr>ab_active := max 0 (ab_active a - 1)\<rparr>)"
| "abs_step lib a (Cleanup now) = ([], a)"
| "abs_step lib a (Configure c) =
     ([], a\<lparr>ab_config := (case c of None \<Rightarrow> DefaultConnectionLimitsConfig | Some c \<Rightarrow> c)\<rparr>)"

fun run_ops :: "('s \<Rightarrow> 'op \<Rightarrow> bool list \<times> 's) \<Rightarrow> 's \<Rightarrow> 'op list \<Rightarrow> bool list \<times> 's" where
  "run_ops step s [] = ([], s)"
| "run_ops step s (x # ops) =
     (case step s x of (d, s') \<Rightarrow> (case run_ops step s' ops of (ds, s'') \<Rightarrow> (d @ ds, s'')))"

definition abs_initial :: "ConnectionLimitsConfig option \<Rightarrow> abs_limiter" where
  "abs_initial config = \<lparr>ab_config = (case config of None \<Rightarrow> DefaultConnectionLimitsConfig | Some c \<Rightarrow> c),
     ab_active = 0, ab_log = []\<rparr>"

fun times_ok :: "instant \<Rightarrow> 'd limiter_op list \<Rightarrow> bool" where
  "times_ok t [] \<longleftrightarrow> True"
| "times_ok t (Arrive p now # ops) \<longleftrightarrow> t \<le> now \<and> times_ok now ops"
| "times_ok t (Cleanup now # ops) \<longleftrightarrow> t \<le> now \<and> times_ok now ops"
| "times_ok t (_ # ops) \<longleftrightarrow> times_ok t ops"

lemma CheckAndRecord_counts:
  assumes "CheckAndRecordConnection lib cl p t = (None, cl')"
  shows "activeStreams cl' = activeStreams cl + 1"
proof -
  have g: "activeStreams (snd (getOrCreatePeerHistoryLocked cl h)) = activeStreams cl" for cl h
    by (simp add: getOrCreatePeerHistoryLocked_def Let_def split: option.split)
  have r: "activeStreams (recordConnectionLocked lib cl p t) = activeStreams cl + 1" for cl
    using g [of _ "getPeerHash lib p"] by (simp add: recordConnectionLocked_def Let_def split_beta)
  have "activeStreams (snd (checkTotalRateLimitsLocked cl t)) = activeStreams cl" for cl
    by (simp add: checkTotalRateLimitsLocked_def Let_def)
  moreover have "activeStreams (snd (checkPeerRateLimitsLocked lib cl p t)) = activeStreams cl" for cl
    using g by (simp add: checkPeerRateLimitsLocked_def Let_def split_beta)
  ultimately show ?thesis
    using assms r by (auto simp: CheckAndRecordConnection_def split: option.splits prod.splits) (metis snd_conv)+
qed

section \<open>The simulation relation\<close>

definition peer_times :: "connectionLimiter \<Rightarrow> byte list \<Rightarrow> instant list" where
  "peer_times cl p = (case map_of (peerHistory cl) p of None \<Rightarrow> [] | Some h \<Rightarrow> timestamps h)"

abbreviation recent :: "instant \<Rightarrow> instant list \<Rightarrow> instant list" where
  "recent now ts \<equiv> filter (\<lambda>t. t > now - 24 * Hour) ts"

definition log_times :: "abs_limiter \<Rightarrow> (byte list option \<Rightarrow> bool) \<Rightarrow> instant list" where
  "log_times a P = map fst (filter (\<lambda>e. P (snd e)) (ab_log a))"

definition limiter_rel :: "instant \<Rightarrow> connectionLimiter \<Rightarrow> abs_limiter \<Rightarrow> bool" where
  "limiter_rel now cl a \<longleftrightarrow>
     cl_config cl = ab_config a \<and> activeStreams cl = ab_active a \<and> 0 \<le> ab_active a \<and>
     distinct (map fst (peerHistory cl)) \<and>
     recent now (timestamps (totalHistory cl)) = recent now (log_times a (\<lambda>_. True)) \<and>
     (\<forall>p. recent now (peer_times cl p) = recent now (log_times a (\<lambda>q. q = Some p)))"

lemma countSinceLocked_eq: "countSinceLocked h since = int (length (filter (\<lambda>ts. ts > since) (timestamps h)))"
proof -
  have "foldl (\<lambda>c ts. if ts > since then c + 1 else c) n xs = n + int (length (filter (\<lambda>ts. ts > since) xs))"
    for n xs by (induction xs arbitrary: n) auto
  then show ?thesis by (simp add: countSinceLocked_def)
qed

lemma recent_later:
  assumes "now \<le> now'" and "recent now xs = recent now ys"
  shows "recent now' xs = recent now' ys"
proof -
  have "recent now' zs = recent now' (recent now zs)" for zs
    using assms(1) by (simp add: conj_commute) (rule filter_cong, auto)
  with assms(2) show ?thesis by metis
qed

lemma limiter_rel_later: "limiter_rel now cl a \<Longrightarrow> now \<le> now' \<Longrightarrow> limiter_rel now' cl a"
  unfolding limiter_rel_def using recent_later by blast

lemma filter_window_recent:
  assumes "recent now xs = recent now ys" and "now - 24 * Hour \<le> since"
  shows "filter (\<lambda>t. t > since) xs = filter (\<lambda>t. t > since) ys"
proof -
  have "filter (\<lambda>t. t > since) zs = filter (\<lambda>t. t > since) (recent now zs)" for zs
    using assms(2) by simp (rule filter_cong, auto)
  with assms(1) show ?thesis by metis
qed

lemma accepted_since_log_times:
  "accepted_since (ab_log a) P since = int (length (filter (\<lambda>t. t > since) (log_times a P)))"
  by (simp add: accepted_since_def log_times_def filter_map o_def conj_commute)

lemma windowFull_None:
  assumes "recent now (timestamps h) = recent now (log_times a P)" and "w \<le> 24 * Hour"
  shows "windowFull h now w limit msg = None \<longleftrightarrow> room limit (accepted_since (ab_log a) P (now - w))"
  using filter_window_recent [OF assms(1), of "now - w"] assms(2)
  by (auto simp: windowFull_def room_def countSinceLocked_eq accepted_since_log_times)

lemma windows_None:
  assumes "recent now (timestamps h) = recent now (log_times a P)"
  shows "(case windowFull h now Minute m msg of Some e \<Rightarrow> Some e | None \<Rightarrow>
      (case windowFull h now Hour hr msg' of Some e \<Rightarrow> Some e | None \<Rightarrow>
        windowFull h now (24 * Hour) d msg'')) = None \<longleftrightarrow>
    room m (accepted_since (ab_log a) P (now - Minute)) \<and>
    room hr (accepted_since (ab_log a) P (now - Hour)) \<and>
    room d (accepted_since (ab_log a) P (now - 24 * Hour))"
  using windowFull_None [OF assms, of Minute m msg] windowFull_None [OF assms, of Hour hr msg']
    windowFull_None [OF assms, of "24 * Hour" d msg'']
  by (auto split: option.splits)

lemma recent_prune [simp]: "timestamps (pruneOldEntriesLocked h now) = recent now (timestamps h)"
  by (simp add: pruneOldEntriesLocked_def Let_def)

lemma peer_times_update [simp]:
  "peer_times (cl\<lparr>peerHistory := AList.update k h (peerHistory cl)\<rparr>) p =
     (if p = k then timestamps h else peer_times cl p)"
  by (simp add: peer_times_def update_conv')

lemma peer_times_other [simp]:
  "peer_times (cl\<lparr>activeStreams := n\<rparr>) p = peer_times cl p"
  "peer_times (cl\<lparr>totalHistory := h\<rparr>) p = peer_times cl p"
  "peer_times (cl\<lparr>cl_config := c\<rparr>) p = peer_times cl p"
  by (simp_all add: peer_times_def)

lemma log_times_other [simp]:
  "log_times (a\<lparr>ab_active := n\<rparr>) P = log_times a P"
  "log_times (a\<lparr>ab_config := c\<rparr>) P = log_times a P"
  "log_times (a\<lparr>ab_active := n, ab_log := ab_log a @ [(t, p)]\<rparr>) P = log_times a P @ (if P p then [t] else [])"
  by (simp_all add: log_times_def)

lemma getOrCreatePeerHistoryLocked_spec:
  assumes "getOrCreatePeerHistoryLocked cl p = (h, cl')"
  shows "timestamps h = peer_times cl p \<and> peer_times cl' = peer_times cl \<and>
    (limiter_rel now cl a \<longrightarrow> limiter_rel now cl' a) \<and> cl_config cl' = cl_config cl"
proof -
  have t: "timestamps h = peer_times cl p" "peer_times cl' = peer_times cl"
    using assms by (auto simp: getOrCreatePeerHistoryLocked_def Let_def peer_times_def update_conv'
        split: option.splits)
  moreover have "limiter_rel now cl' a" if "limiter_rel now cl a"
    using that assms t(2)
    by (auto simp: limiter_rel_def getOrCreatePeerHistoryLocked_def Let_def distinct_update
        split: option.splits)
  moreover have "cl_config cl' = cl_config cl"
    using assms by (auto simp: getOrCreatePeerHistoryLocked_def Let_def split: option.splits)
  ultimately show ?thesis by blast
qed

lemma checkTotal_sim:
  assumes "limiter_rel now cl a"
  shows "fst (checkTotalRateLimitsLocked cl now) = None \<longleftrightarrow>
      room (MaxTotalConnsPerMinute (ab_config a)) (accepted_since (ab_log a) (\<lambda>_. True) (now - Minute)) \<and>
      room (MaxTotalConnsPerHour (ab_config a)) (accepted_since (ab_log a) (\<lambda>_. True) (now - Hour)) \<and>
      room (MaxTotalConnsPerDay (ab_config a)) (accepted_since (ab_log a) (\<lambda>_. True) (now - 24 * Hour))"
    and "limiter_rel now (snd (checkTotalRateLimitsLocked cl now)) a"
proof -
  let ?h = "pruneOldEntriesLocked (totalHistory cl) now"
  have r: "recent now (timestamps ?h) = recent now (log_times a (\<lambda>_. True))" and c: "cl_config cl = ab_config a"
    using assms by (simp_all add: limiter_rel_def)
  show "fst (checkTotalRateLimitsLocked cl now) = None \<longleftrightarrow>
      room (MaxTotalConnsPerMinute (ab_config a)) (accepted_since (ab_log a) (\<lambda>_. True) (now - Minute)) \<and>
      room (MaxTotalConnsPerHour (ab_config a)) (accepted_since (ab_log a) (\<lambda>_. True) (now - Hour)) \<and>
      room (MaxTotalConnsPerDay (ab_config a)) (accepted_since (ab_log a) (\<lambda>_. True) (now - 24 * Hour))"
    by (simp add: checkTotalRateLimitsLocked_def Let_def c windows_None [OF r])
  show "limiter_rel now (snd (checkTotalRateLimitsLocked cl now)) a"
    using assms by (simp add: limiter_rel_def checkTotalRateLimitsLocked_def Let_def)
qed

lemma checkPeer_sim:
  assumes "limiter_rel now cl a"
  shows "fst (checkPeerRateLimitsLocked lib cl peer now) = None \<longleftrightarrow>
      peer = None \<or> peer_ok a (peer_key lib peer) now"
    and "limiter_rel now (snd (checkPeerRateLimitsLocked lib cl peer now)) a"
proof -
  have c: "cl_config cl = ab_config a" using assms by (simp add: limiter_rel_def)
  show "fst (checkPeerRateLimitsLocked lib cl peer now) = None \<longleftrightarrow>
      peer = None \<or> peer_ok a (peer_key lib peer) now"
    and "limiter_rel now (snd (checkPeerRateLimitsLocked lib cl peer now)) a"
  proof (atomize (full), cases "peer = None \<or> MaxConnsPerMinute (ab_config a) \<le> 0 \<and>
      MaxConnsPerHour (ab_config a) \<le> 0 \<and> MaxConnsPerDay (ab_config a) \<le> 0")
    case True
    then show "(fst (checkPeerRateLimitsLocked lib cl peer now) = None) =
        (peer = None \<or> peer_ok a (peer_key lib peer) now) \<and>
        limiter_rel now (snd (checkPeerRateLimitsLocked lib cl peer now)) a"
      using assms by (auto simp: checkPeerRateLimitsLocked_def Let_def c peer_ok_def room_def)
  next
    case False
    obtain h cl' where g: "getOrCreatePeerHistoryLocked cl (getPeerHash lib peer) = (h, cl')"
      by (metis surj_pair)
    note spec = getOrCreatePeerHistoryLocked_spec [OF g, of now a]
    let ?h = "pruneOldEntriesLocked h now"
    from False have k: "peer_key lib peer = Some (getPeerHash lib peer)"
      by (auto simp: peer_key_def)
    have r: "recent now (timestamps ?h) = recent now (log_times a (\<lambda>q. q = peer_key lib peer))"
      using assms spec by (simp add: limiter_rel_def k)
    have "limiter_rel now (cl'\<lparr>peerHistory := AList.update (getPeerHash lib peer) ?h (peerHistory cl')\<rparr>) a"
      using assms spec by (simp add: limiter_rel_def distinct_update)
    then show "(fst (checkPeerRateLimitsLocked lib cl peer now) = None) =
        (peer = None \<or> peer_ok a (peer_key lib peer) now) \<and>
        limiter_rel now (snd (checkPeerRateLimitsLocked lib cl peer now)) a"
      using False
      by (auto simp: checkPeerRateLimitsLocked_def Let_def c g peer_ok_def
          windows_None [OF r])
  qed
qed

lemma recordConnection_sim:
  assumes "limiter_rel now cl a"
  shows "limiter_rel now (recordConnectionLocked lib cl peer now)
    (a\<lparr>ab_active := ab_active a + 1, ab_log := ab_log a @ [(now, peer_key lib peer)]\<rparr>)"
proof (cases peer)
  case None
  then show ?thesis using assms
    by (simp add: recordConnectionLocked_def limiter_rel_def peer_key_def)
next
  case (Some d)
  define cl1 where "cl1 = cl\<lparr>activeStreams := activeStreams cl + 1,
    totalHistory := (totalHistory cl)\<lparr>timestamps := timestamps (totalHistory cl) @ [now]\<rparr>\<rparr>"
  obtain h cl' where g: "getOrCreatePeerHistoryLocked cl1 (getPeerHash lib peer) = (h, cl')"
    by (metis surj_pair)
  have "recordConnectionLocked lib cl peer now =
      cl'\<lparr>peerHistory := AList.update (getPeerHash lib peer) (h\<lparr>timestamps := timestamps h @ [now]\<rparr>) (peerHistory cl')\<rparr>"
    using Some g by (simp add: recordConnectionLocked_def cl1_def Let_def)
  moreover have "timestamps h = peer_times cl (getPeerHash lib peer)" "peer_times cl' = peer_times cl"
    using getOrCreatePeerHistoryLocked_spec [OF g] by (simp_all add: cl1_def fun_eq_iff)
  moreover have "distinct (map fst (peerHistory cl'))" "cl_config cl' = cl_config cl"
    "activeStreams cl' = activeStreams cl + 1"
    "timestamps (totalHistory cl') = timestamps (totalHistory cl) @ [now]"
    using g assms by (auto simp: getOrCreatePeerHistoryLocked_def cl1_def Let_def distinct_update
        limiter_rel_def split: option.splits)
  ultimately show ?thesis using assms Some
    by (simp add: limiter_rel_def distinct_update peer_key_def)
qed

text \<open>Which decision is made, and the state that follows, of one arrival.\<close>

lemma arrive_sim:
  assumes "limiter_rel now cl a"
  shows "fst (limiter_step lib cl (Arrive p now)) = fst (abs_step lib a (Arrive p now)) \<and>
    limiter_rel now (snd (limiter_step lib cl (Arrive p now))) (snd (abs_step lib a (Arrive p now)))"
proof -
  have c: "cl_config cl = ab_config a" "activeStreams cl = ab_active a"
    using assms by (simp_all add: limiter_rel_def)
  show ?thesis
  proof (cases "checkConcurrentLimitLocked cl")
    case (Some e)
    then have "\<not> admits a (peer_key lib p) now"
      by (auto simp: checkConcurrentLimitLocked_def c admits_def room_def split: if_splits)
    with Some assms show ?thesis by (simp add: CheckAndRecordConnection_def)
  next
    case None
    then have room: "room (MaxConcurrentStreams (ab_config a)) (ab_active a)"
      by (auto simp: checkConcurrentLimitLocked_def c room_def split: if_splits)
    obtain e1 cl1 where t: "checkTotalRateLimitsLocked cl now = (e1, cl1)" by (metis surj_pair)
    obtain e2 cl2 where q: "checkPeerRateLimitsLocked lib cl1 p now = (e2, cl2)" by (metis surj_pair)
    note s1 = checkTotal_sim [OF assms, unfolded t fst_conv snd_conv]
    note s2 = checkPeer_sim [OF s1(2), of lib p, unfolded q fst_conv snd_conv]
    have key: "peer_key lib p = None \<longleftrightarrow> p = None" by (simp add: peer_key_def)
    have "admits a (peer_key lib p) now \<longleftrightarrow> e1 = None \<and> e2 = None"
      unfolding admits_def s1(1) s2(1) key using room by blast
    then show ?thesis using None t q s1(2) s2(2) recordConnection_sim [OF s2(2), of lib p]
      by (auto simp: CheckAndRecordConnection_def split: option.splits)
  qed
qed

lemma cleanupPeer_pair:
  "cleanupPeer now (k, h) =
     (if recent now (timestamps h) = [] then None else Some (k, pruneOldEntriesLocked h now))"
  by (auto simp: cleanupPeer_def Let_def list_ex_iff filter_empty_conv)

lemma map_filter_Cons: "List.map_filter f (x # xs) =
    (case f x of None \<Rightarrow> List.map_filter f xs | Some y \<Rightarrow> y # List.map_filter f xs)"
  by (simp add: List.map_filter_def split: option.split)

lemma map_of_map_filter_cleanup:
  assumes "distinct (map fst xs)"
  shows "map_of (List.map_filter (cleanupPeer now) xs) k =
    (case map_of xs k of None \<Rightarrow> None | Some h \<Rightarrow> map_option snd (cleanupPeer now (k, h)))"
  using assms
proof (induction xs)
  case (Cons x xs)
  obtain k0 h0 where x: "x = (k0, h0)" by fastforce
  have "map_of xs k0 = None" using Cons.prems by (simp add: x map_of_eq_None_iff)
  with Cons show ?case by (auto simp: x map_filter_Cons cleanupPeer_pair)
qed (simp add: List.map_filter_def)

lemma distinct_map_filter_cleanup:
  assumes "distinct (map fst xs)"
  shows "distinct (map fst (List.map_filter (cleanupPeer now) xs))"
proof -
  have sub: "fst ` set (List.map_filter (cleanupPeer now) ys) \<subseteq> fst ` set ys" for ys
  proof (induction ys)
    case (Cons y ys)
    then show ?case by (cases y) (auto simp: map_filter_Cons cleanupPeer_pair)
  qed (simp add: List.map_filter_def)
  show ?thesis using assms
  proof (induction xs)
    case (Cons x xs)
    with sub [of xs] show ?case
      by (cases x) (auto simp: map_filter_Cons cleanupPeer_pair)
  qed (simp add: List.map_filter_def)
qed

lemma cleanup_sim:
  assumes "limiter_rel now cl a"
  shows "limiter_rel now (CleanupStaleHistory cl now) a"
proof -
  have d: "distinct (map fst (peerHistory cl))" using assms by (simp add: limiter_rel_def)
  have "peer_times (CleanupStaleHistory cl now) p = recent now (peer_times cl p)" for p
    by (auto simp: peer_times_def CleanupStaleHistory_def map_of_map_filter_cleanup [OF d]
        cleanupPeer_pair split: option.splits)
  then show ?thesis using assms distinct_map_filter_cleanup [OF d]
    by (simp add: limiter_rel_def CleanupStaleHistory_def)
qed

lemma run_sim:
  assumes "limiter_rel t cl a" and "times_ok t ops"
  shows "fst (run_ops (limiter_step lib) cl ops) = fst (run_ops (abs_step lib) a ops) \<and>
    (\<exists>t'. limiter_rel t' (snd (run_ops (limiter_step lib) cl ops)) (snd (run_ops (abs_step lib) a ops)))"
  using assms
proof (induction ops arbitrary: t cl a)
  case (Cons x ops)
  obtain u where u: "limiter_rel u (snd (limiter_step lib cl x)) (snd (abs_step lib a x))"
    and d: "fst (limiter_step lib cl x) = fst (abs_step lib a x)" and t: "times_ok u ops"
  proof (cases x)
    case (Arrive p now)
    with Cons.prems have "limiter_rel now cl a" "times_ok now ops"
      using limiter_rel_later by auto
    with arrive_sim [of now cl a lib p] that [of now] Arrive show ?thesis by blast
  next
    case (Cleanup now)
    with Cons.prems have "limiter_rel now cl a" "times_ok now ops"
      using limiter_rel_later by auto
    with cleanup_sim [of now cl a] that [of now] Cleanup show ?thesis by simp
  next
    case StreamClosed
    with Cons.prems that [of t] show ?thesis
      by (auto simp: limiter_rel_def ConnectionClosed_def)
  next
    case (Configure c)
    with Cons.prems that [of t] show ?thesis
      by (auto simp: limiter_rel_def SetConfig_def)
  qed
  from Cons.IH [OF u t] d show ?case
    by (simp split: prod.splits) (metis fst_conv snd_conv)
qed auto

section \<open>Rate bounds of the abstract limiter\<close>

fun accepted_log :: "('d, 'c, 'k) i2plib \<Rightarrow> 'd limiter_op list \<Rightarrow> bool list \<Rightarrow> (instant \<times> byte list option) list" where
  "accepted_log lib (Arrive p now # ops) (d # ds) =
     (if d then [(now, peer_key lib p)] else []) @ accepted_log lib ops ds"
| "accepted_log lib (Arrive p now # ops) [] = []"
| "accepted_log lib (_ # ops) ds = accepted_log lib ops ds"
| "accepted_log lib [] ds = []"

definition accepted_between :: "(instant \<times> byte list option) list \<Rightarrow> (byte list option \<Rightarrow> bool) \<Rightarrow> instant \<Rightarrow> instant \<Rightarrow> int" where
  "accepted_between es P lo hi = int (length (filter (\<lambda>e. lo < fst e \<and> fst e \<le> hi \<and> P (snd e)) es))"

definition rate_bound :: "duration \<Rightarrow> int \<Rightarrow> (byte list option \<Rightarrow> bool) \<Rightarrow> (instant \<times> byte list option) list \<Rightarrow> bool" where
  "rate_bound w limit P es \<longleftrightarrow> (limit > 0 \<longrightarrow> (\<forall>t. accepted_between es P (t - w) t \<le> limit))"

definition rates_kept :: "ConnectionLimitsConfig \<Rightarrow> (instant \<times> byte list option) list \<Rightarrow> bool" where
  "rates_kept cfg es \<longleftrightarrow>
     rate_bound Minute (MaxTotalConnsPerMinute cfg) (\<lambda>_. True) es \<and>
     rate_bound Hour (MaxTotalConnsPerHour cfg) (\<lambda>_. True) es \<and>
     rate_bound (24 * Hour) (MaxTotalConnsPerDay cfg) (\<lambda>_. True) es \<and>
     (\<forall>p. rate_bound Minute (MaxConnsPerMinute cfg) (\<lambda>q. q = Some p) es \<and>
          rate_bound Hour (MaxConnsPerHour cfg) (\<lambda>q. q = Some p) es \<and>
          rate_bound (24 * Hour) (MaxConnsPerDay cfg) (\<lambda>q. q = Some p) es)"

lemma rate_bound_snoc:
  assumes "rate_bound w limit P es" and "\<forall>e\<in>set es. fst e \<le> now"
    and "P p \<Longrightarrow> room limit (accepted_since es P (now - w))"
  shows "rate_bound w limit P (es @ [(now, p)])"
  unfolding rate_bound_def
proof (intro impI allI)
  fix t
  assume l: "limit > 0"
  show "accepted_between (es @ [(now, p)]) P (t - w) t \<le> limit"
  proof (cases "P p \<and> now \<le> t")
    case True
    have "length (filter (\<lambda>e. t - w < fst e \<and> fst e \<le> t \<and> P (snd e)) es) \<le>
        length (filter (\<lambda>e. now - w < fst e \<and> P (snd e)) es)"
      using True by (induction es) auto
    with True assms(3) l show ?thesis
      by (auto simp: accepted_between_def accepted_since_def room_def)
  next
    case False
    with assms(1) l show ?thesis by (auto simp: accepted_between_def rate_bound_def)
  qed
qed

lemma rates_kept_snoc:
  assumes "rates_kept cfg (ab_log a)" and "\<forall>e\<in>set (ab_log a). fst e \<le> now"
    and "admits a p now" and "ab_config a = cfg"
  shows "rates_kept cfg (ab_log a @ [(now, p)])"
  using assms unfolding rates_kept_def admits_def peer_ok_def
  by (auto intro!: rate_bound_snoc)

lemma abs_run_bounds:
  assumes "rates_kept cfg (ab_log a)" and "\<forall>e\<in>set (ab_log a). fst e \<le> t" and "times_ok t ops"
    and "ab_config a = cfg" and "\<forall>c. Configure c \<notin> set ops"
    and "MaxConcurrentStreams cfg > 0 \<longrightarrow> ab_active a \<le> MaxConcurrentStreams cfg"
    and "run_ops (abs_step lib) a ops = (ds, a')"
  shows "ab_log a' = ab_log a @ accepted_log lib ops ds \<and> rates_kept cfg (ab_log a') \<and>
    (MaxConcurrentStreams cfg > 0 \<longrightarrow> ab_active a' \<le> MaxConcurrentStreams cfg)"
  using assms
proof (induction ops arbitrary: t a ds)
  case (Cons x ops)
  obtain d1 a1 ds1 where s: "abs_step lib a x = (d1, a1)" "run_ops (abs_step lib) a1 ops = (ds1, a')"
    and ds: "ds = d1 @ ds1"
    using Cons.prems(7) by (auto split: prod.splits)
  have nc: "\<forall>c. Configure c \<notin> set ops" using Cons.prems(5) by simp
  show ?case
  proof (cases x)
    case (Arrive p now)
    have le: "\<forall>e\<in>set (ab_log a). fst e \<le> now" using Cons.prems(2,3) Arrive by fastforce
    from Cons.prems(3) Arrive have tk: "times_ok now ops" by simp
    show ?thesis
    proof (cases "admits a (peer_key lib p) now")
      case True
      with s Arrive have a1: "a1 = a\<lparr>ab_active := ab_active a + 1, ab_log := ab_log a @ [(now, peer_key lib p)]\<rparr>"
        and d1: "d1 = [True]" by auto
      have "MaxConcurrentStreams cfg > 0 \<longrightarrow> ab_active a1 \<le> MaxConcurrentStreams cfg"
        using True Cons.prems(4) by (auto simp: a1 admits_def room_def)
      from Cons.IH [OF _ _ tk _ nc this s(2)] rates_kept_snoc [OF Cons.prems(1) le True Cons.prems(4)]
        le Cons.prems(4) show ?thesis by (auto simp: a1 ds d1 Arrive)
    next
      case False
      with s Arrive have "a1 = a" "d1 = [False]" by auto
      with Cons.IH [OF Cons.prems(1) le tk Cons.prems(4) nc Cons.prems(6)] s(2) show ?thesis
        by (auto simp: ds Arrive)
    qed
  next
    case (Cleanup now)
    then have le: "\<forall>e\<in>set (ab_log a). fst e \<le> now" using Cons.prems(2,3) by fastforce
    from Cleanup s Cons.prems Cons.IH [OF Cons.prems(1) le _ Cons.prems(4) nc Cons.prems(6)]
    show ?thesis by (auto simp: ds)
  next
    case StreamClosed
    with s have a1: "a1 = a\<lparr>ab_active := max 0 (ab_active a - 1)\<rparr>" "d1 = []" by auto
    from Cons.IH [of a1 t ds1] Cons.prems nc s(2) StreamClosed show ?thesis by (auto simp: a1 ds)
  next
    case (Configure c)
    with Cons.prems(5) show ?thesis by auto
  qed
qed auto

lemma abs_run_log:
  assumes "run_ops (abs_step lib) a ops = (ds, a')" and "\<forall>e\<in>set (ab_log a). fst e \<le> t" and "times_ok t (ops @ [Arrive p now])"
  shows "ab_log a' = ab_log a @ accepted_log lib ops ds \<and> (\<forall>e\<in>set (ab_log a'). fst e \<le> now)"
  using assms
proof (induction ops arbitrary: t a ds)
  case (Cons x ops)
  obtain d1 a1 ds1 where s: "abs_step lib a x = (d1, a1)" "run_ops (abs_step lib) a1 ops = (ds1, a')" and ds: "ds = d1 @ ds1"
    using Cons.prems(1) by (auto split: prod.splits)
  obtain u where u: "t \<le> u" "times_ok u (ops @ [Arrive p now])" "\<forall>e\<in>set (ab_log a1). fst e \<le> u"
    and l: "ab_log a1 @ accepted_log lib ops ds1 = ab_log a @ accepted_log lib (x # ops) ds"
  proof (cases x)
    case (Arrive q v)
    have "\<forall>e\<in>set (ab_log a). fst e \<le> v" using Cons.prems(2,3) Arrive by fastforce
    with s(1) Cons.prems(3) Arrive show ?thesis by (intro that [of v]) (auto simp: ds split: if_splits)
  next
    case (Cleanup v)
    have "\<forall>e\<in>set (ab_log a). fst e \<le> v" using Cons.prems(2,3) Cleanup by fastforce
    with s(1) Cons.prems(3) Cleanup show ?thesis by (intro that [of v]) (auto simp: ds)
  qed (use s(1) Cons.prems(2,3) that [of t] in \<open>auto simp: ds\<close>)
  from Cons.IH [OF s(2) u(3,2)] show ?case by (simp add: l)
qed auto

definition limit_kept :: "int \<Rightarrow> int \<Rightarrow> bool" where
  "limit_kept limit n \<longleftrightarrow> (limit > 0 \<longrightarrow> n \<le> limit)"

lemma limit_kept_snoc:
  assumes "\<forall>e\<in>set es. fst e \<le> now" and "P p" and "room limit (accepted_since es P (now - w))" and "0 < w"
  shows "limit_kept limit (accepted_between (es @ [(now, p)]) P (now - w) now)"
proof -
  have "filter (\<lambda>e. now - w < fst e \<and> fst e \<le> now \<and> P (snd e)) es = filter (\<lambda>e. now - w < fst e \<and> P (snd e)) es"
    using assms(1) by (intro filter_cong) auto
  with assms(2-4) show ?thesis by (auto simp: limit_kept_def room_def accepted_between_def accepted_since_def)
qed

lemma configured:
  "run_ops (abs_step lib) a (map Configure cs @ ops) = (ds, a') \<Longrightarrow>
     \<exists>cfg. run_ops (abs_step lib) (a\<lparr>ab_config := cfg\<rparr>) ops = (ds, a')"
proof (induction cs arbitrary: a)
  case Nil
  then have "run_ops (abs_step lib) (a\<lparr>ab_config := ab_config a\<rparr>) ops = (ds, a')" by simp
  then show ?case ..
next
  case (Cons c cs)
  then show ?case by (fastforce split: prod.splits)
qed

lemma times_ok_configured: "times_ok t (map Configure cs @ ops) = times_ok t ops"
  by (induction cs) auto

lemma accepted_log_configured: "accepted_log lib (map Configure cs @ ops) ds = accepted_log lib ops ds"
  by (induction cs) auto

lemma config_kept:
  "run_ops (abs_step lib) a ops = (ds, a') \<Longrightarrow> \<forall>c. Configure c \<notin> set ops \<Longrightarrow> ab_config a' = ab_config a"
proof (induction ops arbitrary: a ds)
  case (Cons x ops)
  obtain d1 a1 ds1 where s: "abs_step lib a x = (d1, a1)" "run_ops (abs_step lib) a1 ops = (ds1, a')"
    using Cons.prems(1) by (auto split: prod.splits)
  have "ab_config a1 = ab_config a" using s(1) Cons.prems(2) by (cases x) (auto split: if_splits)
  with Cons.IH [OF s(2)] Cons.prems(2) show ?case by auto
qed auto

lemma times_ok_front: "times_ok t (ops @ ops') \<Longrightarrow> times_ok t ops"
proof (induction ops arbitrary: t)
  case (Cons x ops)
  then show ?case by (cases x) auto
qed simp

lemma initial_rel: "limiter_rel t (newConnectionLimiter c) (abs_initial c)"
  by (simp add: limiter_rel_def newConnectionLimiter_def abs_initial_def peer_times_def log_times_def
      split: option.splits)

lemma limiter_arrival:
  assumes "times_ok t (ops @ [Arrive p now])" and "run_ops (limiter_step lib) (newConnectionLimiter config) ops = (ds, cl)"
    and "CheckAndRecordConnection lib cl p now = (None, cl')"
  obtains a where "run_ops (abs_step lib) (abs_initial config) ops = (ds, a)" and "cl_config cl = ab_config a"
    and "activeStreams cl = ab_active a" and "admits a (peer_key lib p) now"
proof -
  have f: "times_ok t ops" by (rule times_ok_front [OF assms(1)])
  obtain a where a: "run_ops (abs_step lib) (abs_initial config) ops = (ds, a)" and c: "cl_config cl = ab_config a" "activeStreams cl = ab_active a"
    using run_sim [OF initial_rel f, of lib config] assms(2)
    by (cases "run_ops (abs_step lib) (abs_initial config) ops") (auto simp: limiter_rel_def)
  have snoc: "fst (run_ops st s (ops @ [x])) = fst (run_ops st s ops) @ fst (st (snd (run_ops st s ops)) x)"
    for st :: "'s \<Rightarrow> 'a limiter_op \<Rightarrow> bool list \<times> 's" and s x
    by (induction ops arbitrary: s) (simp_all add: split_beta)
  have "fst (limiter_step lib cl (Arrive p now)) = fst (abs_step lib a (Arrive p now))"
    using run_sim [OF initial_rel assms(1), of lib config] assms(2) a by (simp add: snoc split: prod.splits)
  then have "admits a (peer_key lib p) now" using assms(3) by (auto split: if_splits)
  with a c show thesis by (rule that)
qed

lemma CheckAndRecord_active:
  "activeStreams (snd (CheckAndRecordConnection lib cl p t)) = activeStreams cl + (if fst (CheckAndRecordConnection lib cl p t) = None then 1 else 0)"
proof (cases "fst (CheckAndRecordConnection lib cl p t)")
  case None
  then obtain cl' where "CheckAndRecordConnection lib cl p t = (None, cl')" by (metis prod.collapse)
  with CheckAndRecord_counts [OF this] show ?thesis by simp
next
  case (Some e)
  have t: "activeStreams (snd (checkTotalRateLimitsLocked cl t)) = activeStreams cl" for cl
    by (simp add: checkTotalRateLimitsLocked_def Let_def)
  have g: "activeStreams (snd (getOrCreatePeerHistoryLocked cl h)) = activeStreams cl" for cl h
    by (simp add: getOrCreatePeerHistoryLocked_def Let_def split: option.split)
  have p: "activeStreams (snd (checkPeerRateLimitsLocked lib cl p t)) = activeStreams cl" for cl
    using g by (simp add: checkPeerRateLimitsLocked_def Let_def split_beta)
  from Some show ?thesis
    using t p by (auto simp: CheckAndRecordConnection_def split: option.splits prod.splits) (metis snd_conv)+
qed

lemma active_kept:
  "StreamClosed \<notin> set ops \<Longrightarrow> activeStreams cl \<le> activeStreams (snd (run_ops (limiter_step lib) cl ops))"
proof (induction ops arbitrary: cl)
  case (Cons x ops)
  have "activeStreams cl \<le> activeStreams (snd (limiter_step lib cl x))"
    using Cons.prems CheckAndRecord_active [of lib cl]
    by (cases x) (auto simp: CleanupStaleHistory_def SetConfig_def split_beta)
  with Cons.IH [of "snd (limiter_step lib cl x)"] Cons.prems show ?case by (simp add: split_beta)
qed simp

section \<open>Properties\<close>

text \<open>
  C20. The limiter implements its specification: on every history of arrivals, closes, clean-ups and
  configuration changes with non-decreasing times, the limiter, which prunes and deletes its
  histories, takes exactly the decisions of the abstract limiter, which looks at the log of all
  connections ever accepted, and reports the same number of active streams.
\<close>

theorem limiter_refines:
  assumes "times_ok t ops"
  shows "fst (run_ops (limiter_step lib) (newConnectionLimiter config) ops) =
      fst (run_ops (abs_step lib) (abs_initial config) ops) \<and>
    ActiveStreams (snd (run_ops (limiter_step lib) (newConnectionLimiter config) ops)) =
      ab_active (snd (run_ops (abs_step lib) (abs_initial config) ops))"
  using run_sim [OF initial_rel assms] by (auto simp: limiter_rel_def ActiveStreams_def)

text \<open>A configuration with one connection per minute and a short history for it.\<close>

definition demo_limits :: ConnectionLimitsConfig where
  "demo_limits = DefaultConnectionLimitsConfig\<lparr>MaxConcurrentStreams := 5, MaxTotalConnsPerMinute := 1\<rparr>"

definition demo_ops :: "byte limiter_op list" where
  "demo_ops = [Arrive (Some 9) 0, Arrive None 5, StreamClosed, Cleanup 7, Arrive (Some 7) Minute]"

lemmas demo_limiter_defs = demo_limits_def demo_ops_def DefaultConnectionLimitsConfig_def
  abs_initial_def admits_def peer_ok_def room_def accepted_since_def

theorem limiter_refines_witness:
  "fst (run_ops (limiter_step byte_lib) (newConnectionLimiter (Some demo_limits)) demo_ops) = [True, False, True]"
proof -
  have "times_ok 0 demo_ops" by (simp add: demo_ops_def)
  from limiter_refines [OF this, of byte_lib "Some demo_limits"] show ?thesis
    by (simp add: demo_limiter_defs)
qed

text \<open>
  C21. The limits hold at every acceptance: whatever history of arrivals, closes, clean-ups and configuration changes went before, when the limiter
  accepts a connection, the number of active streams, this one included, is within the maximum in force at that time, and so are the numbers of
  connections accepted in the minute, the hour and the day that end then, in total and from this peer.  If the limits were set before the first
  connection and not changed since, no window of a minute, an hour or a day, ending at any instant, contains more accepted connections than
  configured, in total or from any peer.  A configuration change does not look back: the streams that are active then may exceed the new maximum.
\<close>

theorem limiter_rate_bounds:
  assumes "times_ok t (ops @ [Arrive p now])" and "run_ops (limiter_step lib) (newConnectionLimiter config) ops = (ds, cl)"
    and "CheckAndRecordConnection lib cl p now = (None, cl')" and "es = accepted_log lib ops ds @ [(now, peer_key lib p)]"
  shows "limit_kept (MaxConcurrentStreams (GetConfig cl)) (ActiveStreams cl') \<and>
    limit_kept (MaxTotalConnsPerMinute (GetConfig cl)) (accepted_between es (\<lambda>_. True) (now - Minute) now) \<and>
    limit_kept (MaxTotalConnsPerHour (GetConfig cl)) (accepted_between es (\<lambda>_. True) (now - Hour) now) \<and>
    limit_kept (MaxTotalConnsPerDay (GetConfig cl)) (accepted_between es (\<lambda>_. True) (now - 24 * Hour) now) \<and>
    (p \<noteq> None \<longrightarrow>
      limit_kept (MaxConnsPerMinute (GetConfig cl)) (accepted_between es (\<lambda>q. q = peer_key lib p) (now - Minute) now) \<and>
      limit_kept (MaxConnsPerHour (GetConfig cl)) (accepted_between es (\<lambda>q. q = peer_key lib p) (now - Hour) now) \<and>
      limit_kept (MaxConnsPerDay (GetConfig cl)) (accepted_between es (\<lambda>q. q = peer_key lib p) (now - 24 * Hour) now)) \<and>
    (\<forall>cs rest. ops = map Configure cs @ rest \<and> (\<forall>c. Configure c \<notin> set rest) \<longrightarrow> rates_kept (GetConfig cl) es)"
proof -
  from limiter_arrival [OF assms(1-3)] obtain a where a: "run_ops (abs_step lib) (abs_initial config) ops = (ds, a)"
    "cl_config cl = ab_config a" "activeStreams cl = ab_active a" and ad: "admits a (peer_key lib p) now" .
  have l: "ab_log a = accepted_log lib ops ds" "\<forall>e\<in>set (ab_log a). fst e \<le> now"
    using abs_run_log [OF a(1) _ assms(1)] by (simp_all add: abs_initial_def)
  have g: "GetConfig cl = ab_config a" by (simp add: GetConfig_def a(2))
  have pos: "0 < Minute" "0 < Hour" "0 < 24 * Hour" by simp_all
  have es: "es = ab_log a @ [(now, peer_key lib p)]" by (simp add: assms(4) l(1))
  have "rates_kept (GetConfig cl) es" if o: "ops = map Configure cs @ rest" "\<forall>c. Configure c \<notin> set rest" for cs rest
  proof -
    obtain cfg where r: "run_ops (abs_step lib) ((abs_initial config)\<lparr>ab_config := cfg\<rparr>) rest = (ds, a)"
      using configured a(1) unfolding o(1) by blast
    have t: "times_ok t rest" using times_ok_front [OF assms(1)] by (simp add: o(1) times_ok_configured)
    have cfg: "ab_config a = cfg" using config_kept [OF r o(2)] by simp
    have "rates_kept cfg (ab_log a)"
      by (rule abs_run_bounds [OF _ _ t _ o(2) _ r, THEN conjunct2, THEN conjunct1])
        (simp_all add: abs_initial_def rates_kept_def rate_bound_def accepted_between_def)
    from rates_kept_snoc [OF this l(2) ad cfg] show ?thesis by (simp add: g es cfg)
  qed
  moreover have "limit_kept (MaxConcurrentStreams (GetConfig cl)) (ActiveStreams cl')"
    using ad CheckAndRecord_counts [OF assms(3)] by (auto simp: limit_kept_def g a(3) ActiveStreams_def admits_def room_def)
  moreover have "peer_key lib p \<noteq> None" if "p \<noteq> None" using that by (simp add: peer_key_def)
  ultimately show ?thesis using ad pos unfolding admits_def peer_ok_def g es
    by (intro conjI impI allI) (auto intro: limit_kept_snoc [OF l(2)])
qed
theorem limiter_rate_bounds_witness:
  "\<exists>ds cl cl'. run_ops (limiter_step byte_lib) (newConnectionLimiter None) [Arrive (Some 9) 0, Configure (Some demo_limits)] = (ds, cl) \<and>
     CheckAndRecordConnection byte_lib cl (Some 7) Minute = (None, cl') \<and> ActiveStreams cl' = 2 \<and>
     limit_kept 5 (ActiveStreams cl') \<and>
     limit_kept 1 (accepted_between (accepted_log byte_lib [Arrive (Some 9) 0, Configure (Some demo_limits)] ds @ [(Minute, peer_key byte_lib (Some 7))])
       (\<lambda>_. True) 0 Minute)"
proof -
  let ?ops = "[Arrive (Some 9) 0, Configure (Some demo_limits)]"
  obtain ds cl where r: "run_ops (limiter_step byte_lib) (newConnectionLimiter None) ?ops = (ds, cl)" by (metis surj_pair)
  have t: "times_ok 0 (?ops @ [Arrive (Some 7) Minute])" by simp
  have "fst (run_ops (limiter_step byte_lib) (newConnectionLimiter None) (?ops @ [Arrive (Some 7) Minute])) = [True, True]"
    using limiter_refines [OF t, of byte_lib None] by (simp add: demo_limiter_defs)
  moreover have "ActiveStreams (snd (run_ops (limiter_step byte_lib) (newConnectionLimiter None) ?ops)) = 1"
    using limiter_refines [of 0 ?ops byte_lib None] by (simp add: demo_limiter_defs)
  moreover have "GetConfig cl = demo_limits" using r by (auto simp: SetConfig_def GetConfig_def split: prod.splits)
  ultimately obtain cl' where c: "CheckAndRecordConnection byte_lib cl (Some 7) Minute = (None, cl')" and a: "ActiveStreams cl = 1"
    and g: "GetConfig cl = demo_limits"
    using r by (auto split: prod.splits)
  have "ActiveStreams cl' = 2" using CheckAndRecord_counts [OF c] a by (simp add: ActiveStreams_def)
  with limiter_rate_bounds [OF t r c refl] r c show ?thesis by (auto simp: g demo_limits_def)
qed

end
