(* ===== verification/Base64.thy ===== *)
theory Base64
  imports Stream_Prelude
begin

text \<open>
  The parts of Go's standard library that the access list and the caches use on strings: standard
  Base64 with and without padding (\<^verbatim>\<open>encoding/base64\<close>, non-strict, skipping line breaks), hexadecimal
  output (\<^verbatim>\<open>encoding/hex\<close>), \<^verbatim>\<open>strings.TrimSpace\<close>, \<^verbatim>\<open>strings.Fields\<close> and \<^verbatim>\<open>strings.ReplaceAll\<close> for
  one-character patterns, on ASCII strings.
\<close>

section \<open>White space\<close>

definition isSpace :: "char \<Rightarrow> bool" where
  "isSpace c \<longleftrightarrow> c \<in> {CHR 0x09, CHR 0x0A, CHR 0x0B, CHR 0x0C, CHR 0x0D, CHR 0x20}"

definition TrimSpace :: "string \<Rightarrow> string" where
  "TrimSpace s = rev (dropWhile isSpace (rev (dropWhile isSpace s)))"

fun Fields_acc :: "string \<Rightarrow> string \<Rightarrow> string list" where
  "Fields_acc w [] = (if w = [] then [] else [w])"
| "Fields_acc w (c # cs) =
     (if isSpace c then (if w = [] then [] else [w]) @ Fields_acc [] cs else Fields_acc (w @ [c]) cs)"

definition Fields :: "string \<Rightarrow> string list" where
  "Fields s = Fields_acc [] s"

definition ReplaceChar :: "char \<Rightarrow> char \<Rightarrow> string \<Rightarrow> string" where
  "ReplaceChar old new s = map (\<lambda>c. if c = old then new else c) s"

lemma TrimSpace_id:
  assumes "\<forall>c\<in>set s. \<not> isSpace c"
  shows "TrimSpace s = s"
proof -
  have "dropWhile isSpace t = t" if "\<forall>c\<in>set t. \<not> isSpace c" for t
    using that by (cases t) auto
  from this [of s] this [of "rev s"] assms show ?thesis by (simp add: TrimSpace_def)
qed

lemma Fields_acc_word:
  "\<forall>c\<in>set v. \<not> isSpace c \<Longrightarrow> Fields_acc w (v @ rest) = Fields_acc (w @ v) rest"
  by (induction v arbitrary: w) auto

lemma Fields_acc_words:
  "w \<in> set (Fields_acc v s) \<Longrightarrow> \<forall>c\<in>set v. \<not> isSpace c \<Longrightarrow> w \<noteq> [] \<and> (\<forall>c\<in>set w. \<not> isSpace c)"
  by (induction v s rule: Fields_acc.induct) (auto split: if_splits)

lemma Fields_words: "w \<in> set (Fields s) \<Longrightarrow> w \<noteq> [] \<and> (\<forall>c\<in>set w. \<not> isSpace c)"
  unfolding Fields_def by (rule Fields_acc_words) auto

lemma Fields_acc_chars: "w \<in> set (Fields_acc v s) \<Longrightarrow> set w \<subseteq> set v \<union> set s"
proof (induction v s rule: Fields_acc.induct)
  case (2 w' c cs)
  then show ?case by (cases "isSpace c") (auto split: if_splits)
qed (auto split: if_splits)

lemma Fields_chars: "w \<in> set (Fields s) \<Longrightarrow> set w \<subseteq> set s"
  unfolding Fields_def using Fields_acc_chars [of w "[]" s] by simp

lemma Fields_append_space:
  assumes "v \<noteq> []" and "\<forall>c\<in>set v. \<not> isSpace c" and "isSpace sp"
  shows "Fields (v @ sp # rest) = v # Fields rest"
  using assms by (simp add: Fields_def Fields_acc_word)

section \<open>Base64\<close>

definition b64_alphabet :: string where
  "b64_alphabet = ''ABCDEFGHIJKLMNOPQRSTUVWXYZabcdefghijklmnopqrstuvwxyz0123456789+/''"

definition b64_enc :: "nat \<Rightarrow> char" where
  "b64_enc n = b64_alphabet ! (n mod 64)"

definition b64_dec :: "char \<Rightarrow> nat option" where
  "b64_dec c = map_of (zip b64_alphabet [0..<64]) c"

definition pad :: char where "pad = CHR ''=''"

text \<open>\<^verbatim>\<open>StdEncoding.EncodeToString\<close>.\<close>

fun b64_encode :: "byte list \<Rightarrow> string" where
  "b64_encode [] = []"
| "b64_encode [a] = (let n = unat a * 16 in [b64_enc (n div 64), b64_enc n, pad, pad])"
| "b64_encode [a, b] = (let n = (unat a * 256 + unat b) * 4
     in [b64_enc (n div 4096), b64_enc (n div 64), b64_enc n, pad])"
| "b64_encode (a # b # c # rest) = (let n = (unat a * 256 + unat b) * 256 + unat c
     in [b64_enc (n div 262144), b64_enc (n div 4096), b64_enc (n div 64), b64_enc n] @ b64_encode rest)"

definition b64_tail1 :: "char \<Rightarrow> char \<Rightarrow> byte list option" where
  "b64_tail1 a b = (case (b64_dec a, b64_dec b) of
     (Some x, Some y) \<Rightarrow> Some [of_nat ((x * 64 + y) div 16)] | _ \<Rightarrow> None)"

definition b64_tail2 :: "char \<Rightarrow> char \<Rightarrow> char \<Rightarrow> byte list option" where
  "b64_tail2 a b c = (case (b64_dec a, b64_dec b, b64_dec c) of
     (Some x, Some y, Some z) \<Rightarrow>
       (let n = ((x * 64 + y) * 64 + z) div 4 in Some [of_nat (n div 256), of_nat (n mod 256)])
   | _ \<Rightarrow> None)"

text \<open>
  The decoder after line breaks are removed; \<open>padded\<close> is \<open>True\<close> for \<^verbatim>\<open>StdEncoding\<close> and \<open>False\<close> for
  \<^verbatim>\<open>RawStdEncoding\<close>.  \<open>None\<close> is a \<^verbatim>\<open>CorruptInputError\<close>.
\<close>

fun b64_quanta :: "bool \<Rightarrow> string \<Rightarrow> byte list option" where
  "b64_quanta padded [] = Some []"
| "b64_quanta padded [a] = None"
| "b64_quanta padded [a, b] = (if padded then None else b64_tail1 a b)"
| "b64_quanta padded [a, b, c] = (if padded then None else b64_tail2 a b c)"
| "b64_quanta padded (a # b # c # d # rest) =
     (case (b64_dec a, b64_dec b, b64_dec c, b64_dec d) of
        (Some x, Some y, Some z, Some w) \<Rightarrow>
          (let n = ((x * 64 + y) * 64 + z) * 64 + w
           in map_option (\<lambda>bs. [of_nat (n div 65536), of_nat (n div 256 mod 256), of_nat (n mod 256)] @ bs)
                (b64_quanta padded rest))
      | _ \<Rightarrow>
          if \<not> padded \<or> d \<noteq> pad \<or> rest \<noteq> [] then None
          else if c = pad then b64_tail1 a b
          else b64_tail2 a b c)"

definition b64_decode :: "bool \<Rightarrow> string \<Rightarrow> byte list option" where
  "b64_decode padded s = b64_quanta padded (filter (\<lambda>c. c \<noteq> CHR 0x0A \<and> c \<noteq> CHR 0x0D) s)"

lemma length_b64_alphabet: "length b64_alphabet = 64"
  by (simp add: b64_alphabet_def)

lemma distinct_b64_alphabet: "distinct b64_alphabet"
  unfolding b64_alphabet_def by code_simp

lemma b64_dec_enc [simp]: "b64_dec (b64_enc n) = Some (n mod 64)"
proof -
  have "map_of (zip b64_alphabet [0..<64]) (b64_alphabet ! (n mod 64)) = Some ([0..<64] ! (n mod 64))"
    by (rule map_of_zip_nth) (simp_all add: length_b64_alphabet distinct_b64_alphabet)
  then show ?thesis by (simp add: b64_dec_def b64_enc_def)
qed

lemma b64_dec_pad [simp]: "b64_dec pad = None"
  unfolding b64_dec_def pad_def b64_alphabet_def by code_simp

lemma b64_alphabet_plain: "\<forall>c\<in>set b64_alphabet. \<not> isSpace c \<and> c \<noteq> CHR 0x0A \<and> c \<noteq> CHR 0x0D \<and> c \<noteq> pad"
  unfolding b64_alphabet_def isSpace_def pad_def by code_simp

lemma b64_enc_in: "b64_enc n \<in> set b64_alphabet"
  by (simp add: b64_enc_def length_b64_alphabet)

lemma b64_enc_not_pad: "b64_enc n \<noteq> pad"
  using b64_enc_in [of n] b64_alphabet_plain by auto

lemma b64_encode_chars: "c \<in> set (b64_encode bs) \<Longrightarrow> c \<in> set b64_alphabet \<or> c = pad"
  by (induction bs rule: b64_encode.induct) (auto simp: b64_enc_in Let_def)

lemma b64_encode_plain:
  "c \<in> set (b64_encode bs) \<Longrightarrow> \<not> isSpace c \<and> c \<noteq> CHR 0x0A \<and> c \<noteq> CHR 0x0D"
  using b64_encode_chars [of c bs] b64_alphabet_plain by (auto simp: pad_def isSpace_def)

lemma length_b64_encode: "length (b64_encode bs) = (length bs + 2) div 3 * 4"
proof (induction bs rule: b64_encode.induct)
  case (4 a b c rest)
  have "(length rest + 5) div 3 = (length rest + 2) div 3 + 1"
    using div_add_self2 [of 3 "length rest + 2"] by simp
  with 4 show ?case by (simp add: Let_def add.commute)
qed (simp_all add: Let_def)

lemma unat_byte_less: "unat (b :: byte) < 256"
  using unsigned_less [of b, where ?'a = nat] by simp

lemma digits4:
  fixes n :: nat
  assumes "n < 16777216"
  shows "((n div 262144 mod 64 * 64 + n div 4096 mod 64) * 64 + n div 64 mod 64) * 64 + n mod 64 = n"
proof -
  have "n div 262144 < 64" using assms by simp
  then have "n div 262144 mod 64 = n div 64 div 64 div 64"
    by (simp add: div_mult2_eq [symmetric])
  moreover have "n div 4096 = n div 64 div 64" by (simp add: div_mult2_eq [symmetric])
  ultimately show ?thesis by (simp add: mult.commute [of _ 64])
qed

lemma split256:
  fixes x y :: nat
  assumes "y < 256"
  shows "(x * 256 + y) div 256 = x" and "(x * 256 + y) mod 256 = y"
  using assms by (simp, metis mod_less mod_mult_self3)

lemma b64_quanta_encode: "b64_quanta True (b64_encode bs) = Some bs"
proof (induction bs rule: b64_encode.induct)
  case (2 a)
  have "unat a * 16 mod 64 = unat a mod 4 * 16"
    using mod_mult_mult2 [of "unat a" 16 4] by simp
  moreover have "unat a div 4 * 4 + unat a mod 4 = unat a" by (rule div_mult_mod_eq)
  ultimately have "unat a div 4 * 64 + unat a * 16 mod 64 = unat a * 16" by linarith
  then show ?case using unat_byte_less [of a] by (simp add: Let_def b64_tail1_def)
next
  case (3 a b)
  define n where "n = (unat a * 256 + unat b) * 4"
  have bound: "n < 262144" using unat_byte_less [of a] unat_byte_less [of b] by (simp add: n_def)
  then have "(n div 4096 mod 64 * 64 + n div 64 mod 64) * 64 + n mod 64 = n"
    using digits4 [of n] by simp
  moreover have "n div 4 div 256 = unat a" "n div 4 mod 256 = unat b"
    using unat_byte_less [of b] by (simp_all add: n_def)
  ultimately have "b64_tail2 (b64_enc (n div 4096)) (b64_enc (n div 64)) (b64_enc n) = Some [a, b]"
    by (simp add: b64_tail2_def Let_def)
  moreover have "b64_encode [a, b] = [b64_enc (n div 4096), b64_enc (n div 64), b64_enc n, pad]"
    by (simp add: n_def Let_def)
  ultimately show ?case by (simp add: b64_enc_not_pad del: b64_encode.simps)
next
  case (4 a b c rest)
  define n where "n = (unat a * 256 + unat b) * 256 + unat c"
  have bound: "n < 16777216"
    using unat_byte_less [of a] unat_byte_less [of b] unat_byte_less [of c] by (simp add: n_def)
  have q: "n div 256 = unat a * 256 + unat b" and m: "n mod 256 = unat c"
    unfolding n_def using unat_byte_less [of c] by (rule split256)+
  moreover have "n div 65536 = n div 256 div 256" by (simp add: div_mult2_eq [symmetric])
  ultimately have "n div 65536 = unat a" "n div 256 mod 256 = unat b" "n mod 256 = unat c"
    using split256 [OF unat_byte_less [of b], of "unat a"] by simp_all
  note digits = this
  have "b64_encode (a # b # c # rest) =
      [b64_enc (n div 262144), b64_enc (n div 4096), b64_enc (n div 64), b64_enc n] @ b64_encode rest"
    unfolding n_def by (simp only: b64_encode.simps Let_def)
  with digits4 [OF bound] digits 4 show ?case by (simp add: Let_def del: b64_encode.simps)
qed simp

lemma b64_decode_encode: "b64_decode True (b64_encode bs) = Some bs"
proof -
  have "filter (\<lambda>c. c \<noteq> CHR 0x0A \<and> c \<noteq> CHR 0x0D) (b64_encode bs) = b64_encode bs"
    using b64_encode_plain by (intro filter_True) blast
  then show ?thesis by (simp only: b64_decode_def b64_quanta_encode)
qed

text \<open>A character outside the alphabet that is no padding and no line break spoils the input.\<close>

lemma b64_quanta_bad:
  assumes "c \<in> set s" and "b64_dec c = None" and "c \<noteq> pad"
  shows "b64_quanta padded s = None"
  using assms
proof (induction padded s rule: b64_quanta.induct)
  case (5 padded a b c' d rest)
  then show ?case
    by (auto simp: b64_tail1_def b64_tail2_def Let_def split: option.splits)
qed (auto simp: b64_tail1_def b64_tail2_def split: option.splits)

section \<open>Hexadecimal\<close>

definition hex_digits :: string where "hex_digits = ''0123456789abcdef''"

definition hex_encode :: "byte list \<Rightarrow> string" where
  "hex_encode bs = concat (map (\<lambda>b. [hex_digits ! (unat b div 16), hex_digits ! (unat b mod 16)]) bs)"

lemma hex_encode_empty [simp]: "hex_encode bs = [] \<longleftrightarrow> bs = []"
  by (cases bs) (simp_all add: hex_encode_def)

lemma hex_encode_inj: "hex_encode xs = hex_encode ys \<longleftrightarrow> xs = ys"
proof -
  have "distinct hex_digits" "length hex_digits = 16" by (simp_all add: hex_digits_def)
  then have nth: "hex_digits ! i = hex_digits ! j \<longleftrightarrow> i = j" if "i < 16" "j < 16" for i j
    using that by (simp add: nth_eq_iff_index_eq)
  have byte: "x = y" if "unat x div 16 = unat y div 16" "unat x mod 16 = unat y mod 16" for x y :: byte
    using that by (metis div_mult_mod_eq word_unat_eq_iff)
  have "hex_encode xs = hex_encode ys \<Longrightarrow> xs = ys"
  proof (induction xs arbitrary: ys)
    case (Cons x xs)
    then obtain y ys' where ys: "ys = y # ys'" by (cases ys) (auto simp: hex_encode_def)
    have "unat x div 16 < 16" "unat y div 16 < 16" "unat x mod 16 < 16" "unat y mod 16 < 16"
      using unat_byte_less [of x] unat_byte_less [of y] by auto
    moreover from Cons.prems ys have "hex_digits ! (unat x div 16) = hex_digits ! (unat y div 16)"
      "hex_digits ! (unat x mod 16) = hex_digits ! (unat y mod 16)" "hex_encode xs = hex_encode ys'"
      by (simp_all add: hex_encode_def)
    ultimately show ?case using nth byte Cons.IH [of ys'] ys by blast
  qed (cases ys, auto simp: hex_encode_def)
  then show ?thesis by blast
qed

end
