(* ===== verification/Tcb_Cache.thy ===== *)
theory Tcb_Cache
  imports Packet_Wire Base64
begin

text \<open>
  The control-block cache of \<^verbatim>\<open>tcb_cache.go\<close> (RFC 2140 temporal sharing) and the destination hash it
  is keyed by.  The \<^verbatim>\<open>float64\<close> arithmetic of the source multiplies and averages integers below
  \<open>2 ^ 51\<close> (durations of less than 26 days, 32-bit windows) with factors such as 0.75 and 0.5 that are
  exact in binary, so it is exact and is written with rational numbers; the conversion back to an integer
  truncates.
\<close>

definition trunc :: "rat \<Rightarrow> int" where
  "trunc q = (if q \<ge> 0 then \<lfloor>q\<rfloor> else \<lceil>q\<rceil>)"

definition u32_of_float :: "rat \<Rightarrow> u32" where
  "u32_of_float q = word_of_int (trunc q)"

section \<open>Configuration and state\<close>

record TCBCacheConfig =
  RTTDampening :: rat
  RTTDevDampening :: rat
  WindowDampening :: rat
  EntryTTL :: duration
  Enabled :: bool

definition DefaultTCBCacheConfig :: TCBCacheConfig where
  "DefaultTCBCacheConfig = \<lparr>RTTDampening = 3 / 4, RTTDevDampening = 3 / 4, WindowDampening = 3 / 4,
     EntryTTL = 5 * Minute, Enabled = True\<rparr>"

record tcbEntry =
  te_rtt :: duration
  te_rttVariance :: duration
  te_windowSize :: u32
  lastUpdate :: instant
  sampleCount :: int

record tcbCache =
  tc_config :: TCBCacheConfig
  tc_entries :: "(string, tcbEntry) gomap"

definition newTCBCache :: "TCBCacheConfig \<Rightarrow> tcbCache" where
  "newTCBCache config = \<lparr>tc_config = config, tc_entries = []\<rparr>"

section \<open>Keys\<close>

definition hashDestination :: "('d, 'c, 'k) i2plib \<Rightarrow> 'd option \<Rightarrow> byte list result" where
  "hashDestination lib dest =
     (case dest of
        None \<Rightarrow> Err (Errorf ''destination is nil'' [])
      | Some d \<Rightarrow>
          (case WriteToStream lib d of
             Inl e \<Rightarrow> Err (Wrap ''serialize destination'' e)
           | Inr bs \<Rightarrow> Ok (Sum256 lib bs)))"

definition getDestKey :: "('d, 'c, 'k) i2plib \<Rightarrow> 'd option \<Rightarrow> string" where
  "getDestKey lib dest =
     (if dest = None then []
      else case hashDestination lib dest of
        Ok hash \<Rightarrow> hex_encode (take 8 hash)
      | _ \<Rightarrow> [])"

definition getDestKeyFromHash :: "byte list \<Rightarrow> string" where
  "getDestKeyFromHash hash = (if length hash < 8 then [] else hex_encode (take 8 hash))"

definition hashDestinationForCache :: "('d, 'c, 'k) i2plib \<Rightarrow> 'd option \<Rightarrow> byte list result" where
  "hashDestinationForCache lib dest =
     (case dest of
        None \<Rightarrow> Ok []
      | Some d \<Rightarrow> (case WriteToStream lib d of Inl e \<Rightarrow> Err e | Inr bs \<Rightarrow> Ok (Sum256 lib bs)))"

section \<open>Operations\<close>

text \<open>\<^verbatim>\<open>Get\<close> returns RTT, variance, window and whether there was a live entry, and may delete an expired one.\<close>

definition tcb_Get ::
  "('d, 'c, 'k) i2plib \<Rightarrow> instant \<Rightarrow> tcbCache \<Rightarrow> 'd option \<Rightarrow> (duration \<times> duration \<times> u32 \<times> bool) \<times> tcbCache" where
  "tcb_Get lib now c dest =
     (if \<not> Enabled (tc_config c) then ((0, 0, 0, False), c)
      else
        let key = getDestKey lib dest in
        if key = [] then ((0, 0, 0, False), c)
        else case map_of (tc_entries c) key of
          None \<Rightarrow> ((0, 0, 0, False), c)
        | Some entry \<Rightarrow>
            if now - lastUpdate entry > EntryTTL (tc_config c)
            then ((0, 0, 0, False), c\<lparr>tc_entries := AList.delete key (tc_entries c)\<rparr>)
            else
              let dampedRTT = trunc (of_int (te_rtt entry) * RTTDampening (tc_config c));
                  dampedRTTVar = trunc (of_int (te_rttVariance entry) * RTTDevDampening (tc_config c));
                  dampedWindow = u32_of_float (of_int (uint (te_windowSize entry)) * WindowDampening (tc_config c));
                  dampedWindow = (if dampedWindow < 1 then 1 else dampedWindow)
              in ((dampedRTT, dampedRTTVar, dampedWindow, True), c))"

definition tcb_Put ::
  "('d, 'c, 'k) i2plib \<Rightarrow> instant \<Rightarrow> tcbCache \<Rightarrow> 'd option \<Rightarrow> duration \<Rightarrow> duration \<Rightarrow> u32 \<Rightarrow> tcbCache" where
  "tcb_Put lib now c dest rtt rttVariance windowSize =
     (if \<not> Enabled (tc_config c) then c
      else
        let key = getDestKey lib dest in
        if key = [] then c
        else if rtt = 0 \<and> rttVariance = 0 then c
        else case map_of (tc_entries c) key of
          Some entry \<Rightarrow>
            let weight = 1 / 2;
                entry = entry\<lparr>
                  te_rtt := trunc (of_int (te_rtt entry) * weight + of_int rtt * (1 - weight)),
                  te_rttVariance := trunc (of_int (te_rttVariance entry) * weight + of_int rttVariance * (1 - weight)),
                  te_windowSize := u32_of_float (of_int (uint (te_windowSize entry)) * weight
                                                 + of_int (uint windowSize) * (1 - weight)),
                  lastUpdate := now,
                  sampleCount := sampleCount entry + 1\<rparr>
            in c\<lparr>tc_entries := AList.update key entry (tc_entries c)\<rparr>
        | None \<Rightarrow>
            c\<lparr>tc_entries := AList.update key
               \<lparr>te_rtt = rtt, te_rttVariance = rttVariance, te_windowSize = windowSize,
                lastUpdate = now, sampleCount = 1\<rparr> (tc_entries c)\<rparr>)"

definition tcb_Size :: "tcbCache \<Rightarrow> nat" where
  "tcb_Size c = length (tc_entries c)"

definition tcb_Clear :: "tcbCache \<Rightarrow> tcbCache" where
  "tcb_Clear c = c\<lparr>tc_entries := []\<rparr>"

definition tcb_CleanupExpired :: "instant \<Rightarrow> tcbCache \<Rightarrow> nat \<times> tcbCache" where
  "tcb_CleanupExpired now c =
     (let expired = (\<lambda>e. now - lastUpdate e > EntryTTL (tc_config c))
      in (length (filter (\<lambda>(k, e). expired e) (tc_entries c)),
          c\<lparr>tc_entries := filter (\<lambda>(k, e). \<not> expired e) (tc_entries c)\<rparr>))"

definition tcb_GetConfig :: "tcbCache \<Rightarrow> TCBCacheConfig" where
  "tcb_GetConfig c = tc_config c"

definition tcb_SetConfig :: "tcbCache \<Rightarrow> TCBCacheConfig \<Rightarrow> tcbCache" where
  "tcb_SetConfig c config = c\<lparr>tc_config := config\<rparr>"

section \<open>Truncated averages and dampening\<close>

lemma trunc_of_int [simp]: "trunc (of_int z) = z"
  by (simp add: trunc_def)

lemma trunc_mono: "x \<le> y \<Longrightarrow> trunc x \<le> trunc y"
proof (cases "x < 0 \<and> 0 \<le> y")
  case True
  then have "\<lceil>x\<rceil> \<le> 0" "0 \<le> \<lfloor>y\<rfloor>" by (simp_all add: ceiling_le_iff)
  with True show ?thesis by (simp only: trunc_def not_le [symmetric] if_True if_False)
qed (auto simp: trunc_def floor_mono ceiling_mono)

lemma trunc_between: "of_int a \<le> q \<Longrightarrow> q \<le> of_int b \<Longrightarrow> a \<le> trunc q \<and> trunc q \<le> b"
  using trunc_mono [of "of_int a" q] trunc_mono [of q "of_int b"] by simp

lemma half_sum_between:
  fixes x y :: int
  shows "of_int (min x y) \<le> (of_int x * (1 / 2) + of_int y * (1 - 1 / 2) :: rat)"
    and "(of_int x * (1 / 2) + of_int y * (1 - 1 / 2) :: rat) \<le> of_int (max x y)"
proof -
  have "of_int (min x y) \<le> (of_int x :: rat)" "of_int (min x y) \<le> (of_int y :: rat)"
    "(of_int x :: rat) \<le> of_int (max x y)" "(of_int y :: rat) \<le> of_int (max x y)"
    by (simp_all only: of_int_le_iff min.cobounded1 min.cobounded2 max.cobounded1 max.cobounded2)
  then show "of_int (min x y) \<le> (of_int x * (1 / 2) + of_int y * (1 - 1 / 2) :: rat)"
    "(of_int x * (1 / 2) + of_int y * (1 - 1 / 2) :: rat) \<le> of_int (max x y)"
    by (simp_all add: field_simps)
qed

lemmas average_between = trunc_between [OF half_sum_between]

lemma damp_between:
  fixes x :: int
  assumes "0 \<le> x" and "0 \<le> d" and "d \<le> 1"
  shows "0 \<le> trunc (of_int x * d) \<and> trunc (of_int x * d) \<le> x"
proof (rule trunc_between)
  show "of_int 0 \<le> of_int x * d" using assms by simp
  have "of_int x * d \<le> of_int x * 1" using assms by (intro mult_left_mono) auto
  then show "of_int x * d \<le> of_int x" by simp
qed

lemma uint_word_of_int_u32: "0 \<le> z \<Longrightarrow> z < 4294967296 \<Longrightarrow> uint (word_of_int z :: u32) = z"
  by (simp add: uint_word_of_int)

lemma u32_of_float_between:
  assumes "of_int (uint (a :: u32)) \<le> q" and "q \<le> of_int (uint (b :: u32))"
  shows "a \<le> u32_of_float q \<and> u32_of_float q \<le> b"
proof -
  have t: "uint a \<le> trunc q" "trunc q \<le> uint b" using trunc_between [OF assms] by auto
  moreover have "0 \<le> trunc q" using t(1) uint_ge_0 [of a] by linarith
  moreover have "uint b < 4294967296" using uint_lt2p [of b] by simp
  ultimately have "uint (u32_of_float q) = trunc q"
    unfolding u32_of_float_def by (intro uint_word_of_int_u32) auto
  with t show ?thesis by (simp add: word_le_def)
qed

section \<open>The cache as a timed map\<close>

text \<open>The live entry of a key at a time: what a lookup is computed from.\<close>

definition live :: "instant \<Rightarrow> tcbCache \<Rightarrow> string \<Rightarrow> tcbEntry option" where
  "live now c key =
     (case map_of (tc_entries c) key of
        None \<Rightarrow> None
      | Some e \<Rightarrow> if now - lastUpdate e > EntryTTL (tc_config c) then None else Some e)"

definition cache_inv :: "tcbCache \<Rightarrow> bool" where
  "cache_inv c \<longleftrightarrow> distinct (map fst (tc_entries c))"

lemma at_least_1: "(if w < 1 then 1 else w) = max 1 (w :: u32)"
  using linorder_not_less [of w 1] by (simp only: max_def split: if_split) blast

lemma Get_result:
  "fst (tcb_Get lib now c dest) =
     (case (if Enabled (tc_config c) \<and> getDestKey lib dest \<noteq> [] then live now c (getDestKey lib dest) else None) of
        None \<Rightarrow> (0, 0, 0, False)
      | Some e \<Rightarrow>
          (trunc (of_int (te_rtt e) * RTTDampening (tc_config c)),
           trunc (of_int (te_rttVariance e) * RTTDevDampening (tc_config c)),
           max 1 (u32_of_float (of_int (uint (te_windowSize e)) * WindowDampening (tc_config c))), True))"
  by (simp add: tcb_Get_def live_def Let_def at_least_1 del: word_less_1 split: option.splits)

text \<open>
  The interface of a timed cache: the value a key has at a time.  A value that is there later was there
  earlier, and a sweep keeps every live entry and drops the others.  Then a sweep cannot be observed.
\<close>

locale timed_cache =
  fixes look :: "instant \<Rightarrow> 's \<Rightarrow> string \<Rightarrow> 'v option"
    and sweep :: "instant \<Rightarrow> 's \<Rightarrow> 's"
    and inv :: "'s \<Rightarrow> bool"
  assumes there_before: "look later s k = Some v \<Longrightarrow> now \<le> later \<Longrightarrow> look now s k = Some v"
    and sweep_keeps: "inv s \<Longrightarrow> look now s k = Some v \<Longrightarrow> look t (sweep now s) k = look t s k"
    and sweep_drops: "inv s \<Longrightarrow> look now s k = None \<Longrightarrow> look t (sweep now s) k = None"
    and sweep_inv: "inv s \<Longrightarrow> inv (sweep now s)"
begin

lemma sweep_unobservable:
  assumes "inv s" and "now \<le> later"
  shows "look later (sweep now s) k = look later s k"
proof (cases "look now s k")
  case None
  then have "look later s k = None"
    using there_before [of later s k _ now] assms(2) by (cases "look later s k") auto
  with sweep_drops [OF assms(1) None] show ?thesis by simp
next
  case (Some v)
  then show ?thesis by (rule sweep_keeps [OF assms(1)])
qed

end

lemma map_of_filter_value:
  assumes "distinct (map fst xs)"
  shows "map_of (filter (\<lambda>(k, e). P e) xs) k =
    (case map_of xs k of None \<Rightarrow> None | Some e \<Rightarrow> if P e then Some e else None)"
  using assms
proof (induction xs)
  case (Cons x xs)
  obtain k0 e0 where x: "x = (k0, e0)" by fastforce
  have "map_of xs k0 = None" using Cons.prems by (simp add: x map_of_eq_None_iff)
  with Cons show ?case by (auto simp: x split: option.splits)
qed simp

lemma distinct_filter_fst: "distinct (map fst xs) \<Longrightarrow> distinct (map fst (filter P xs))"
  by (induction xs) auto

interpretation tcb: timed_cache live "\<lambda>now c. snd (tcb_CleanupExpired now c)" cache_inv
proof
  fix c now later t k v
  show "live now c k = Some v" if "live later c k = Some v" "now \<le> later"
    using that by (auto simp: live_def split: option.splits if_splits)
  show "cache_inv (snd (tcb_CleanupExpired now c))" if "cache_inv c"
    using that by (simp add: cache_inv_def tcb_CleanupExpired_def Let_def distinct_filter_fst)
  assume inv: "cache_inv c"
  have l: "live t (snd (tcb_CleanupExpired now c)) k = (if live now c k = None then None else live t c k)"
    using inv by (auto simp: live_def tcb_CleanupExpired_def Let_def cache_inv_def
        map_of_filter_value split: option.splits)
  show "live t (snd (tcb_CleanupExpired now c)) k = live t c k" if "live now c k = Some v"
    using that by (simp add: l)
  show "live t (snd (tcb_CleanupExpired now c)) k = None" if "live now c k = None"
    using that by (simp add: l)
qed

section \<open>Reachable caches\<close>

datatype 'd cache_op =
    CGet instant "'d option"
  | CPut instant "'d option" duration duration u32
  | CClear
  | CSweep instant
  | CConfig TCBCacheConfig

fun cache_step :: "('d, 'c, 'k) i2plib \<Rightarrow> tcbCache \<Rightarrow> 'd cache_op \<Rightarrow> tcbCache" where
  "cache_step lib c (CGet now d) = snd (tcb_Get lib now c d)"
| "cache_step lib c (CPut now d r v w) = tcb_Put lib now c d r v w"
| "cache_step lib c CClear = tcb_Clear c"
| "cache_step lib c (CSweep now) = snd (tcb_CleanupExpired now c)"
| "cache_step lib c (CConfig cfg) = tcb_SetConfig c cfg"

lemma cache_inv_step: "cache_inv c \<Longrightarrow> cache_inv (cache_step lib c x)"
  by (cases x)
    (auto simp: cache_inv_def tcb_Get_def tcb_Put_def tcb_Clear_def tcb_CleanupExpired_def tcb_SetConfig_def
      Let_def distinct_update distinct_delete distinct_filter_fst split: option.splits)

lemma cache_inv_run: "cache_inv (foldl (cache_step lib) (newTCBCache cfg) ops)"
proof -
  have "cache_inv c \<Longrightarrow> cache_inv (foldl (cache_step lib) c ops)" for c
    by (induction ops arbitrary: c) (auto simp: cache_inv_step)
  then show ?thesis by (simp add: newTCBCache_def cache_inv_def)
qed

text \<open>What a series of lookups returns; a lookup that finds an expired entry deletes it.\<close>

fun lookups ::
  "('d, 'c, 'k) i2plib \<Rightarrow> tcbCache \<Rightarrow> (instant \<times> 'd option) list \<Rightarrow> (duration \<times> duration \<times> u32 \<times> bool) list" where
  "lookups lib c [] = []"
| "lookups lib c ((now, dest) # qs) = (case tcb_Get lib now c dest of (r, c') \<Rightarrow> r # lookups lib c' qs)"

fun later_queries :: "instant \<Rightarrow> (instant \<times> 'd option) list \<Rightarrow> bool" where
  "later_queries t [] \<longleftrightarrow> True"
| "later_queries t ((now, dest) # qs) \<longleftrightarrow> t \<le> now \<and> later_queries now qs"

lemma Get_keeps_live:
  assumes "now \<le> later"
  shows "live later (snd (tcb_Get lib now c dest)) = live later c"
  using assms by (auto simp: fun_eq_iff tcb_Get_def live_def Let_def delete_conv' split: option.splits)

lemma Get_keeps_config: "tc_config (snd (tcb_Get lib now c dest)) = tc_config c"
  by (auto simp: tcb_Get_def Let_def split: option.splits)

lemma lookups_live:
  assumes "later_queries t qs" and "tc_config c1 = tc_config c2" and "\<And>u. t \<le> u \<Longrightarrow> live u c1 = live u c2"
  shows "lookups lib c1 qs = lookups lib c2 qs"
  using assms
proof (induction qs arbitrary: t c1 c2)
  case (Cons q qs)
  obtain now dest where q: "q = (now, dest)" by fastforce
  have t: "t \<le> now" "later_queries now qs" using Cons.prems(1) by (simp_all add: q)
  have "fst (tcb_Get lib now c1 dest) = fst (tcb_Get lib now c2 dest)"
    by (simp only: Get_result Cons.prems(2) Cons.prems(3) [OF t(1)])
  moreover have "lookups lib (snd (tcb_Get lib now c1 dest)) qs = lookups lib (snd (tcb_Get lib now c2 dest)) qs"
    by (rule Cons.IH [OF t(2)]) (use Cons.prems(2,3) t(1) in \<open>simp_all add: Get_keeps_live Get_keeps_config\<close>)
  ultimately show ?case by (simp add: q split_beta)
qed simp

lemma Put_entry:
  assumes "Enabled (tc_config c)" and "(rtt, rttvar) \<noteq> (0, 0)" and "getDestKey lib dest \<noteq> []"
  shows "map_option te_rtt (map_of (tc_entries (tcb_Put lib now c dest rtt rttvar w)) (getDestKey lib dest)) =
    Some (case map_of (tc_entries c) (getDestKey lib dest) of None \<Rightarrow> rtt
          | Some e \<Rightarrow> trunc (of_int (te_rtt e) * (1 / 2) + of_int rtt * (1 / 2)))"
  using assms by (auto simp: tcb_Put_def Let_def update_conv' split: option.splits)

section \<open>Properties\<close>

text \<open>
  What is stored is found: a first store for a destination is returned, damped, by every lookup until
  the entry's time to live has passed, and by none after that.
\<close>

theorem Put_then_Get:
  assumes "Enabled (tc_config c)" and "getDestKey lib dest \<noteq> []" and "(rtt, rttvar) \<noteq> (0, 0)"
    and "map_of (tc_entries c) (getDestKey lib dest) = None"
  shows "fst (tcb_Get lib later (tcb_Put lib now c dest rtt rttvar w) dest) =
    (if later - now \<le> EntryTTL (tc_config c)
     then (trunc (of_int rtt * RTTDampening (tc_config c)), trunc (of_int rttvar * RTTDevDampening (tc_config c)),
           max 1 (u32_of_float (of_int (uint w) * WindowDampening (tc_config c))), True)
     else (0, 0, 0, False))"
  using assms by (auto simp: Get_result live_def tcb_Put_def Let_def update_conv')

theorem Put_then_Get_witness:
  "fst (tcb_Get byte_lib Minute
      (tcb_Put byte_lib 0 (newTCBCache DefaultTCBCacheConfig) (Some 4) 400 80 8) (Some 4)) = (300, 60, 6, True)"
proof -
  have k: "getDestKey byte_lib (Some 4) \<noteq> []"
    by (simp add: getDestKey_def hashDestination_def byte_lib_def)
  have "u32_of_float 6 = 6" "trunc 300 = 300" "trunc 60 = 60" by (simp_all add: u32_of_float_def trunc_def)
  with Put_then_Get [of "newTCBCache DefaultTCBCacheConfig" byte_lib "Some 4" 400 80 Minute 0 8] k show ?thesis
    by (simp add: newTCBCache_def DefaultTCBCacheConfig_def)
qed

text \<open>
  C39. Lookups cannot tell whether expired entries were swept, stores can: in every reachable cache, any series of lookups at the time of the clean-up
  or later, with no store and no configuration change in between, returns what it would have returned without it.  But a store for a destination
  whose entry has expired starts afresh after a clean-up, and without one averages the new round-trip time into the expired entry.
\<close>

theorem CleanupExpired_unobservable:
  assumes "c = foldl (cache_step lib) (newTCBCache cfg) ops" and "swept = snd (tcb_CleanupExpired now c)" and "later_queries now qs"
  shows "lookups lib swept qs = lookups lib c qs \<and>
    (\<forall>dest rtt rttvar w e. Enabled (tc_config c) \<and> getDestKey lib dest \<noteq> [] \<and> (rtt, rttvar) \<noteq> (0, 0) \<and>
       map_of (tc_entries c) (getDestKey lib dest) = Some e \<and> now - lastUpdate e > EntryTTL (tc_config c) \<longrightarrow>
       map_option te_rtt (map_of (tc_entries (tcb_Put lib now swept dest rtt rttvar w)) (getDestKey lib dest)) = Some rtt \<and>
       map_option te_rtt (map_of (tc_entries (tcb_Put lib now c dest rtt rttvar w)) (getDestKey lib dest)) =
         Some (trunc (of_int (te_rtt e) * (1 / 2) + of_int rtt * (1 / 2))))"
proof -
  have inv: "cache_inv c" unfolding assms(1) by (rule cache_inv_run)
  have cfg: "tc_config swept = tc_config c" by (simp add: assms(2) tcb_CleanupExpired_def Let_def)
  have "live later swept = live later c" if "now \<le> later" for later
    using tcb.sweep_unobservable [OF inv that] by (simp add: fun_eq_iff assms(2))
  then have "lookups lib swept qs = lookups lib c qs" by (rule lookups_live [OF assms(3) cfg])
  moreover have "map_of (tc_entries swept) k = None" if "map_of (tc_entries c) k = Some e" "now - lastUpdate e > EntryTTL (tc_config c)" for k e
    using that inv by (simp add: assms(2) tcb_CleanupExpired_def Let_def cache_inv_def map_of_filter_value)
  ultimately show ?thesis by (auto simp: Put_entry cfg)
qed

theorem CleanupExpired_unobservable_witness:
  "\<exists>c. c = tcb_Put byte_lib 0 (newTCBCache DefaultTCBCacheConfig) (Some 4) 400 80 8 \<and>
     fst (tcb_CleanupExpired (6 * Minute) c) = 1 \<and>
     lookups byte_lib (snd (tcb_CleanupExpired (6 * Minute) c)) [(7 * Minute, Some 4)] = lookups byte_lib c [(7 * Minute, Some 4)] \<and>
     map_option te_rtt (map_of (tc_entries (tcb_Put byte_lib (6 * Minute) c (Some 4) 600 80 8)) (getDestKey byte_lib (Some 4))) = Some 500"
proof -
  let ?c = "foldl (cache_step byte_lib) (newTCBCache DefaultTCBCacheConfig) [CPut 0 (Some 4) 400 80 8]"
  have k: "getDestKey byte_lib (Some 4) \<noteq> []" by (simp add: getDestKey_def hashDestination_def byte_lib_def)
  have c: "Enabled (tc_config ?c)" "EntryTTL (tc_config ?c) = 5 * Minute" "tc_entries ?c = [(getDestKey byte_lib (Some 4),
      \<lparr>te_rtt = 400, te_rttVariance = 80, te_windowSize = 8, lastUpdate = 0, sampleCount = 1\<rparr>)]"
    using k by (simp_all add: tcb_Put_def newTCBCache_def DefaultTCBCacheConfig_def)
  have "later_queries (6 * Minute) [(7 * Minute, Some 4 :: byte option)]" by simp
  note u = CleanupExpired_unobservable [OF refl refl this, of byte_lib DefaultTCBCacheConfig "[CPut 0 (Some 4) 400 80 8]"]
  have "trunc (of_int 400 * (1 / 2) + of_int 600 * (1 / 2)) = 500" by (simp add: trunc_def)
  moreover have "fst (tcb_CleanupExpired (6 * Minute) ?c) = 1" using c(2,3) by (simp add: tcb_CleanupExpired_def Let_def del: foldl_Cons)
  ultimately show ?thesis
    using u [THEN conjunct1] u [THEN conjunct2, rule_format, of "Some 4" 600 80 _ 8] k c
    by (intro exI [of _ ?c]) (simp del: lookups.simps)
qed

text \<open>
  Samples are averaged: storing into an existing entry leaves round-trip time, variance and window
  each between the old and the new sample, renews the entry's time stamp and counts the sample.
\<close>

theorem Put_averages:
  assumes "Enabled (tc_config c)" and "(rtt, rttvar) \<noteq> (0, 0)"
    and "key = getDestKey lib dest" and "key \<noteq> []" and "map_of (tc_entries c) key = Some e"
  shows "\<exists>e'. map_of (tc_entries (tcb_Put lib now c dest rtt rttvar w)) key = Some e' \<and>
     te_rtt e' \<in> {min (te_rtt e) rtt .. max (te_rtt e) rtt} \<and>
     te_rttVariance e' \<in> {min (te_rttVariance e) rttvar .. max (te_rttVariance e) rttvar} \<and>
     te_windowSize e' \<in> {min (te_windowSize e) w .. max (te_windowSize e) w} \<and>
     lastUpdate e' = now \<and> sampleCount e' = sampleCount e + 1"
proof -
  have min: "uint (min x y) = min (uint x) (uint y)" and max: "uint (max x y) = max (uint x) (uint y)"
    for x y :: u32 by (simp_all add: min_def max_def word_le_def)
  note win = half_sum_between [of "uint (te_windowSize e)" "uint w", folded min max]
  from u32_of_float_between [OF win] average_between [of "te_rtt e" rtt]
    average_between [of "te_rttVariance e" rttvar] assms
  show ?thesis by (auto simp: tcb_Put_def Let_def update_conv' simp del: of_int_uint)
qed

theorem Put_averages_witness:
  "\<exists>e'. map_of (tc_entries (tcb_Put byte_lib Minute
       (tcb_Put byte_lib 0 (newTCBCache DefaultTCBCacheConfig) (Some 4) 400 80 8) (Some 4) 500 100 4))
       (getDestKey byte_lib (Some 4)) = Some e' \<and>
     te_rtt e' \<in> {400..500} \<and> te_windowSize e' \<in> {4..8} \<and> sampleCount e' = 2"
proof -
  let ?c = "tcb_Put byte_lib 0 (newTCBCache DefaultTCBCacheConfig) (Some 4) 400 80 8"
  have k: "getDestKey byte_lib (Some 4) \<noteq> []"
    by (simp add: getDestKey_def hashDestination_def byte_lib_def)
  have "Enabled (tc_config ?c)" "map_of (tc_entries ?c) (getDestKey byte_lib (Some 4)) =
      Some \<lparr>te_rtt = 400, te_rttVariance = 80, te_windowSize = 8, lastUpdate = 0, sampleCount = 1\<rparr>"
    using k by (simp_all add: tcb_Put_def newTCBCache_def DefaultTCBCacheConfig_def)
  from Put_averages [OF this(1) _ refl k this(2), of 500 100 Minute 4] show ?thesis by auto
qed

end
