(* ===== verification/Message_Status.thy ===== *)
theory Message_Status
  imports Stream_Prelude "HOL-Library.Signed_Division"
begin

text \<open>
  The tracker of \<^verbatim>\<open>message_status.go\<close>: messages handed to I2CP, kept by nonce until a status for
  them arrives.  A status callback into a connection (\<^verbatim>\<open>handleMessageDelivered\<close>,
  \<^verbatim>\<open>handleMessageFailed\<close>) is returned as a \<open>notification\<close> naming the connection; the three
  classifications of a status code belong to go-i2cp and are the parameter \<open>status_lib\<close>.
\<close>

record status_lib =
  IsMessageStatusSuccess :: "u8 \<Rightarrow> bool"
  IsMessageStatusFailure :: "u8 \<Rightarrow> bool"
  IsMessageStatusRetriable :: "u8 \<Rightarrow> bool"

type_synonym conn_id = nat

datatype notification =
    MessageDelivered conn_id u32
  | MessageFailed conn_id u32 bool

record pendingMessageInfo =
  pm_nonce :: u32
  pm_seqNum :: u32
  pm_conn :: "conn_id option"
  pm_sentAt :: instant
  pm_payloadSize :: int
  pm_isDataPkt :: bool
  pm_retryCount :: int
  pm_maxRetries :: int

record MessageStats =
  TotalSent :: u64
  TotalDelivered :: u64
  TotalFailed :: u64
  TotalRetried :: u64
  TotalExpired :: u64
  AvgDeliveryTimeMs :: int
  LastDeliveryMs :: int

record messageStatusTracker =
  pendingMessages :: "(u32, pendingMessageInfo) gomap"
  stats :: MessageStats
  nextNonce :: u32

definition zeroStats :: MessageStats where
  "zeroStats = \<lparr>TotalSent = 0, TotalDelivered = 0, TotalFailed = 0, TotalRetried = 0, TotalExpired = 0,
     AvgDeliveryTimeMs = 0, LastDeliveryMs = 0\<rparr>"

definition newMessageStatusTracker :: messageStatusTracker where
  "newMessageStatusTracker = \<lparr>pendingMessages = [], stats = zeroStats, nextNonce = 1\<rparr>"

section \<open>Operations\<close>

definition GenerateNonce :: "messageStatusTracker \<Rightarrow> u32 \<times> messageStatusTracker" where
  "GenerateNonce t = (let n = nextNonce t + 1 in (n, t\<lparr>nextNonce := n\<rparr>))"

definition TrackMessage ::
  "instant \<Rightarrow> messageStatusTracker \<Rightarrow> conn_id option \<Rightarrow> u32 \<Rightarrow> int \<Rightarrow> bool \<Rightarrow> u32 \<times> messageStatusTracker" where
  "TrackMessage now t conn seqNum payloadSize isDataPkt =
     (let (nonce, t) = GenerateNonce t;
          info = \<lparr>pm_nonce = nonce, pm_seqNum = seqNum, pm_conn = conn, pm_sentAt = now,
                  pm_payloadSize = payloadSize, pm_isDataPkt = isDataPkt, pm_retryCount = 0, pm_maxRetries = 3\<rparr>
      in (nonce, t\<lparr>pendingMessages := AList.update nonce info (pendingMessages t),
                   stats := (stats t)\<lparr>TotalSent := TotalSent (stats t) + 1\<rparr>\<rparr>))"

definition Milliseconds :: "duration \<Rightarrow> int" where
  "Milliseconds d = d sdiv Millisecond"

definition handleSuccess ::
  "messageStatusTracker \<Rightarrow> pendingMessageInfo \<Rightarrow> duration \<Rightarrow> notification list \<times> messageStatusTracker" where
  "handleSuccess t info deliveryTime =
     (let st = stats t;
          st = st\<lparr>TotalDelivered := TotalDelivered st + 1\<rparr>;
          st = st\<lparr>LastDeliveryMs := Milliseconds deliveryTime\<rparr>;
          avgMs = AvgDeliveryTimeMs st;
          newAvg = (avgMs * 7 + Milliseconds deliveryTime) sdiv 8;
          st = st\<lparr>AvgDeliveryTimeMs := newAvg\<rparr>
      in (case pm_conn info of
            Some c \<Rightarrow> if pm_isDataPkt info then [MessageDelivered c (pm_seqNum info)] else []
          | None \<Rightarrow> [], t\<lparr>stats := st\<rparr>))"

definition handleFailure ::
  "status_lib \<Rightarrow> messageStatusTracker \<Rightarrow> pendingMessageInfo \<Rightarrow> u8 \<Rightarrow> notification list \<times> messageStatusTracker" where
  "handleFailure lib t info status =
     (let st = stats t;
          st = st\<lparr>TotalFailed := TotalFailed st + 1\<rparr>;
          retriable = IsMessageStatusRetriable lib status
      in case pm_conn info of
           None \<Rightarrow> ([], t\<lparr>stats := st\<rparr>)
         | Some c \<Rightarrow>
             if retriable \<and> pm_retryCount info < pm_maxRetries info \<and> pm_isDataPkt info
             then ([MessageFailed c (pm_seqNum info) True],
                   t\<lparr>stats := st\<lparr>TotalRetried := TotalRetried st + 1\<rparr>\<rparr>)
             else if pm_isDataPkt info
             then ([MessageFailed c (pm_seqNum info) False], t\<lparr>stats := st\<rparr>)
             else ([], t\<lparr>stats := st\<rparr>))"

definition handleIntermediate ::
  "messageStatusTracker \<Rightarrow> pendingMessageInfo \<Rightarrow> notification list \<times> messageStatusTracker" where
  "handleIntermediate t info = ([], t)"

definition HandleStatus ::
  "status_lib \<Rightarrow> instant \<Rightarrow> messageStatusTracker \<Rightarrow> u32 \<Rightarrow> u8 \<Rightarrow> u32 \<Rightarrow> u32 \<Rightarrow>
     notification list \<times> messageStatusTracker" where
  "HandleStatus lib now t messageId status sz nonce =
     (case map_of (pendingMessages t) messageId of
        None \<Rightarrow> ([], t)
      | Some info \<Rightarrow>
          let t = t\<lparr>pendingMessages := AList.delete messageId (pendingMessages t)\<rparr>;
              deliveryTime = now - pm_sentAt info
          in if IsMessageStatusSuccess lib status then handleSuccess t info deliveryTime
             else if IsMessageStatusFailure lib status then handleFailure lib t info status
             else handleIntermediate t info)"

definition GetStats :: "messageStatusTracker \<Rightarrow> MessageStats" where
  "GetStats t = stats t"

definition PendingCount :: "messageStatusTracker \<Rightarrow> nat" where
  "PendingCount t = length (pendingMessages t)"

text \<open>
  \<^verbatim>\<open>CleanupExpired\<close>: the notifications come in the order in which Go visits the map, which the
  language leaves open; the model visits it in insertion order.
\<close>

definition ms_CleanupExpired ::
  "instant \<Rightarrow> messageStatusTracker \<Rightarrow> duration \<Rightarrow> nat \<times> notification list \<times> messageStatusTracker" where
  "ms_CleanupExpired now t maxAge =
     (let stale = filter (\<lambda>(n, info). now - pm_sentAt info > maxAge) (pendingMessages t);
          notes = concat (map (\<lambda>(n, info). case pm_conn info of
              Some c \<Rightarrow> if pm_isDataPkt info then [MessageFailed c (pm_seqNum info) False] else []
            | None \<Rightarrow> []) stale)
      in (length stale, notes,
          t\<lparr>pendingMessages := filter (\<lambda>(n, info). \<not> now - pm_sentAt info > maxAge) (pendingMessages t),
            stats := (stats t)\<lparr>TotalExpired := TotalExpired (stats t) + of_nat (length stale)\<rparr>\<rparr>))"

definition ms_Clear :: "messageStatusTracker \<Rightarrow> messageStatusTracker" where
  "ms_Clear t = t\<lparr>pendingMessages := []\<rparr>"

section \<open>Histories of calls\<close>

datatype tracker_op =
    Track instant "conn_id option" u32 int bool
  | Status instant u32 u8 u32 u32
  | Sweep instant duration
  | Reset

fun tracker_step :: "status_lib \<Rightarrow> messageStatusTracker \<Rightarrow> tracker_op \<Rightarrow> messageStatusTracker" where
  "tracker_step lib t (Track now c s n d) = snd (TrackMessage now t c s n d)"
| "tracker_step lib t (Status now i st sz n) = snd (HandleStatus lib now t i st sz n)"
| "tracker_step lib t (Sweep now age) = snd (snd (ms_CleanupExpired now t age))"
| "tracker_step lib t Reset = ms_Clear t"

fun is_track :: "tracker_op \<Rightarrow> bool" where
  "is_track (Track _ _ _ _ _) = True"
| "is_track _ = False"

text \<open>A call that resolves a message for good: a status that is a success or a failure, not a reset.\<close>

fun final_op :: "status_lib \<Rightarrow> tracker_op \<Rightarrow> bool" where
  "final_op lib (Status _ _ st _ _) = (IsMessageStatusSuccess lib st \<or> IsMessageStatusFailure lib st)"
| "final_op lib Reset = False"
| "final_op lib _ = True"

lemma unat_Suc_u64: "unat (w :: u64) < 4294967295 \<Longrightarrow> unat (w + 1) = unat w + 1"
  by (subst unat_add_lem [THEN iffD1]) (simp_all add: unat_add_lem [symmetric])

lemma length_update_new:
  "k \<notin> fst ` set xs \<Longrightarrow> AList.update k v xs = xs @ [(k, v)]"
  by (induction xs) auto

text \<open>
  What becomes of a message.  A message whose status is neither a success nor a failure, or that is pending when the tracker is cleared, is
  forgotten: no counter records it.
\<close>

datatype fate = Fate_Delivered | Fate_Failed | Fate_Expired | Fate_Forgotten

fun fates :: "status_lib \<Rightarrow> messageStatusTracker \<Rightarrow> tracker_op \<Rightarrow> (u32 \<times> fate) list" where
  "fates lib t (Track _ _ _ _ _) = []"
| "fates lib t (Status _ i st _ _) =
     (if map_of (pendingMessages t) i = None then []
      else [(i, if IsMessageStatusSuccess lib st then Fate_Delivered else if IsMessageStatusFailure lib st then Fate_Failed else Fate_Forgotten)])"
| "fates lib t (Sweep now age) = map (\<lambda>(n, info). (n, Fate_Expired)) (filter (\<lambda>(n, info). now - pm_sentAt info > age) (pendingMessages t))"
| "fates lib t Reset = map (\<lambda>(n, info). (n, Fate_Forgotten)) (pendingMessages t)"

fun tracker_run :: "status_lib \<Rightarrow> messageStatusTracker \<Rightarrow> tracker_op list \<Rightarrow> (u32 \<times> fate) list \<times> messageStatusTracker" where
  "tracker_run lib t [] = ([], t)"
| "tracker_run lib t (x # ops) = (case tracker_run lib (tracker_step lib t x) ops of (fs, t') \<Rightarrow> (fates lib t x @ fs, t'))"

definition fate_count :: "fate \<Rightarrow> (u32 \<times> fate) list \<Rightarrow> nat" where
  "fate_count f fs = length (filter (\<lambda>x. snd x = f) fs)"

lemma fate_count_simps [simp]:
  "fate_count f [] = 0" "fate_count f (x # fs) = (if snd x = f then 1 else 0) + fate_count f fs" "fate_count f (fs @ gs) = fate_count f fs + fate_count f gs"
  by (simp_all add: fate_count_def)

lemma fate_count_le: "fate_count f fs \<le> length fs"
  by (simp add: fate_count_def)

definition nonces :: "nat \<Rightarrow> u32 multiset" where
  "nonces n = mset (map (\<lambda>i. of_nat (i + 2)) [0..<n])"

lemma nonces_Suc: "nonces (Suc n) = add_mset (of_nat (n + 2)) (nonces n)"
  by (simp add: nonces_def)

definition accounts :: "nat \<Rightarrow> (u32 \<times> fate) list \<Rightarrow> messageStatusTracker \<Rightarrow> bool" where
  "accounts n fs t \<longleftrightarrow>
     unat (TotalSent (stats t)) = n \<and> nextNonce t = of_nat (n + 1) \<and>
     mset (map fst fs) + mset (map fst (pendingMessages t)) = nonces n \<and>
     unat (TotalDelivered (stats t)) = fate_count Fate_Delivered fs \<and> unat (TotalFailed (stats t)) = fate_count Fate_Failed fs \<and>
     unat (TotalExpired (stats t)) = fate_count Fate_Expired fs"

lemma nonces_distinct:
  assumes "n < 4294967295"
  shows "distinct (map (\<lambda>i. of_nat (i + 2) :: u32) [0..<n])"
proof -
  have "i = j" if "i < n" "j < n" "(of_nat (i + 2) :: u32) = of_nat (j + 2)" for i j
  proof -
    have "unat (of_nat (i + 2) :: u32) = unat (of_nat (j + 2) :: u32)" using that(3) by simp
    then show ?thesis using that(1,2) assms by (simp only: unat_of_nat) auto
  qed
  then show ?thesis by (auto simp: distinct_map inj_on_def)
qed

lemma accounts_distinct:
  assumes "accounts n fs t" and "n < 4294967295"
  shows "distinct (map fst fs @ map fst (pendingMessages t))" and "length fs + length (pendingMessages t) = n"
    and "set (map fst fs @ map fst (pendingMessages t)) = (\<lambda>i. of_nat (i + 2)) ` {..<n}"
proof -
  have m: "mset (map fst fs @ map fst (pendingMessages t)) = mset (map (\<lambda>i. of_nat (i + 2)) [0..<n])"
    using assms(1) by (simp add: accounts_def nonces_def)
  from mset_eq_imp_distinct_iff [OF this] nonces_distinct [OF assms(2)]
  show "distinct (map fst fs @ map fst (pendingMessages t))" by blast
  from mset_eq_length [OF m] show "length fs + length (pendingMessages t) = n" by simp
  from mset_eq_setD [OF m] show "set (map fst fs @ map fst (pendingMessages t)) = (\<lambda>i. of_nat (i + 2)) ` {..<n}"
    by (simp add: atLeast0LessThan)
qed

lemma accounts_track:
  assumes "accounts n fs t" and "n < 4294967294"
  shows "accounts (n + 1) fs (snd (TrackMessage now t c s sz d))"
proof -
  let ?k = "nextNonce t + 1"
  have k: "?k = of_nat (n + 2)" using assms(1) by (simp add: accounts_def)
  have "?k \<notin> set (map fst fs @ map fst (pendingMessages t))"
  proof
    assume "?k \<in> set (map fst fs @ map fst (pendingMessages t))"
    moreover have "n < 4294967295" using assms(2) by simp
    ultimately have "(of_nat (n + 2) :: u32) \<in> (\<lambda>i. of_nat (i + 2)) ` {..<n}" using accounts_distinct(3) [OF assms(1)] unfolding k by blast
    then obtain i where "i < n" "(of_nat (n + 2) :: u32) = of_nat (i + 2)" by blast
    then have "unat (of_nat (n + 2) :: u32) = unat (of_nat (i + 2) :: u32)" by simp
    with \<open>i < n\<close> assms(2) show False by (simp only: unat_of_nat) auto
  qed
  then have "AList.update ?k v (pendingMessages t) = pendingMessages t @ [(?k, v)]" for v
    by (intro length_update_new) auto
  moreover have "unat (TotalSent (stats t) + 1) = n + 1" using assms by (simp add: accounts_def unat_Suc_u64)
  ultimately show ?thesis using assms(1) k
    by (simp add: accounts_def TrackMessage_def GenerateNonce_def Let_def nonces_Suc)
qed

lemma mset_delete:
  assumes "distinct (map fst xs)" and "map_of xs k = Some v"
  shows "add_mset k (mset (map fst (AList.delete k xs))) = mset (map fst xs)"
  using assms
proof (induction xs)
  case (Cons x xs)
  show ?case
  proof (cases "fst x = k")
    case True
    then have "k \<notin> fst ` set xs" using Cons.prems(1) by auto
    with True show ?thesis by (cases x) (simp add: delete_idem)
  next
    case False
    with Cons show ?thesis by (cases x) auto
  qed
qed simp

lemma accounts_status:
  assumes "accounts n fs t" and "n < 4294967295"
  shows "accounts n (fs @ fates lib t (Status now i st sz nc)) (tracker_step lib t (Status now i st sz nc))"
proof (cases "map_of (pendingMessages t) i")
  case None
  then show ?thesis using assms by (simp add: HandleStatus_def)
next
  case (Some info)
  let ?t = "t\<lparr>pendingMessages := AList.delete i (pendingMessages t)\<rparr>"
  have d: "distinct (map fst (pendingMessages t))" using accounts_distinct(1) [OF assms] by simp
  have m: "mset (map fst (fs @ [(i, f)])) + mset (map fst (pendingMessages ?t)) = nonces n" for f
    using mset_delete [OF d Some, symmetric] assms(1) by (simp add: accounts_def)
  have "length fs < 4294967295" using accounts_distinct(2) [OF assms] assms(2) by simp
  then have b: "unat (TotalDelivered (stats t)) < 4294967295" "unat (TotalFailed (stats t)) < 4294967295"
    using assms(1) fate_count_le [of _ fs] by (simp_all add: accounts_def) (meson le_less_trans fate_count_le)+
  consider (ok) "IsMessageStatusSuccess lib st"
    | (bad) "\<not> IsMessageStatusSuccess lib st" "IsMessageStatusFailure lib st"
    | (mid) "\<not> IsMessageStatusSuccess lib st" "\<not> IsMessageStatusFailure lib st" by blast
  then show ?thesis
  proof cases
    case ok
    with assms(1) m [of Fate_Delivered] Some unat_Suc_u64 [OF b(1)] show ?thesis
      by (simp add: accounts_def HandleStatus_def handleSuccess_def Let_def)
  next
    case bad
    have "accounts n (fs @ [(i, Fate_Failed)]) (snd (handleFailure lib ?t info st))"
      using assms(1) m [of Fate_Failed] unat_Suc_u64 [OF b(2)]
      by (simp add: accounts_def handleFailure_def Let_def split: option.split)
    with bad Some show ?thesis by (simp add: HandleStatus_def Let_def)
  next
    case mid
    with assms(1) m [of Fate_Forgotten] Some show ?thesis
      by (simp add: accounts_def HandleStatus_def handleIntermediate_def Let_def)
  qed
qed

lemma fate_count_const: "fate_count f (map (\<lambda>(n, info). (n, g)) xs) = (if f = g then length xs else 0)"
  by (induction xs) auto

lemma fates_fst: "map fst (map (\<lambda>(n, info). (n, g)) xs) = map fst xs"
  by (induction xs) auto

lemma accounts_sweep:
  assumes "accounts n fs t" and "n < 4294967295"
  shows "accounts n (fs @ fates lib t (Sweep now age)) (tracker_step lib t (Sweep now age))"
proof -
  let ?P = "\<lambda>(k :: u32, info). now - pm_sentAt info > age"
  let ?s = "filter ?P (pendingMessages t)" and ?r = "filter (\<lambda>(n, info). \<not> now - pm_sentAt info > age) (pendingMessages t)"
  have not: "?r = filter (\<lambda>x. \<not> ?P x) (pendingMessages t)" by (rule filter_cong) auto
  have m: "mset (map fst ?s) + mset (map fst ?r) = mset (map fst (pendingMessages t))"
    unfolding not mset_map image_mset_union [symmetric] mset_filter by (simp add: multiset_partition [symmetric])
  have "length fs + length ?s \<le> n" using accounts_distinct(2) [OF assms] length_filter_le [of ?P "pendingMessages t"] by linarith
  moreover have e: "unat (TotalExpired (stats t)) = fate_count Fate_Expired fs" using assms(1) by (simp add: accounts_def)
  ultimately have sum: "unat (TotalExpired (stats t)) + length ?s < 18446744073709551616"
    using fate_count_le [of Fate_Expired fs] assms(2) by linarith
  have "unat (TotalExpired (stats t) + of_nat (length ?s)) = unat (TotalExpired (stats t)) + length ?s"
  proof -
    have l: "unat (of_nat (length ?s) :: u64) = length ?s" using sum by (simp add: unat_of_nat)
    then show ?thesis using sum by (subst unat_add_lem [THEN iffD1]) simp_all
  qed
  moreover have "mset (map fst fs) + (mset (map fst ?s) + mset (map fst ?r)) = nonces n"
    using assms(1) unfolding m by (simp add: accounts_def)
  ultimately show ?thesis using assms(1)
    by (simp add: accounts_def ms_CleanupExpired_def Let_def fate_count_const fates_fst add.assoc del: map_map mset_map)
qed

lemma accounts_step:
  assumes "accounts n fs t" and "n + (if is_track x then 1 else 0) < 4294967295"
  shows "accounts (n + (if is_track x then 1 else 0)) (fs @ fates lib t x) (tracker_step lib t x)"
proof (cases x)
  case (Track now c s sz d)
  with assms accounts_track [of n fs t now c s sz d] show ?thesis by simp
next
  case (Status now i st sz nc)
  with assms accounts_status [OF assms(1), of lib now i st sz nc] show ?thesis by simp
next
  case (Sweep now age)
  with assms accounts_sweep [OF assms(1), of lib now age] show ?thesis by simp
next
  case Reset
  with assms show ?thesis by (simp add: accounts_def ms_Clear_def fate_count_const fates_fst del: map_map mset_map)
qed

lemma accounts_run:
  assumes "accounts n fs t" and "n + length (filter is_track ops) < 4294967295" and "tracker_run lib t ops = (gs, t')"
  shows "accounts (n + length (filter is_track ops)) (fs @ gs) t'"
  using assms
proof (induction ops arbitrary: n fs t gs)
  case (Cons x ops)
  obtain hs where r: "tracker_run lib (tracker_step lib t x) ops = (hs, t')" and gs: "gs = fates lib t x @ hs"
    using Cons.prems(3) by (auto split: prod.splits)
  have "accounts (n + (if is_track x then 1 else 0)) (fs @ fates lib t x) (tracker_step lib t x)"
    by (rule accounts_step [OF Cons.prems(1)]) (use Cons.prems(2) in \<open>auto split: if_splits\<close>)
  from Cons.IH [OF this _ r] Cons.prems(2) show ?case by (auto simp: gs split: if_splits)
qed simp

lemma none_forgotten:
  "tracker_run lib t ops = (fs, t') \<Longrightarrow> list_all (final_op lib) ops \<Longrightarrow> fate_count Fate_Forgotten fs = 0"
proof (induction ops arbitrary: t fs)
  case (Cons x ops)
  then obtain hs where r: "tracker_run lib (tracker_step lib t x) ops = (hs, t')" and fs: "fs = fates lib t x @ hs"
    by (auto split: prod.splits)
  have "fate_count Fate_Forgotten (fates lib t x) = 0" using Cons.prems(2) by (cases x) (auto simp: fate_count_const)
  with Cons.IH [OF r] Cons.prems(2) show ?case by (simp add: fs)
qed simp

section \<open>Properties\<close>

text \<open>
  C40. Each tracked message has one fate: in every history with fewer than \<open>2 ^ 32 - 1\<close> tracked messages, the nonces handed out are exactly those of the
  messages that have been delivered, failed, expired or been forgotten and of those still pending, each once; the counters are the numbers of
  messages with each fate, and \<open>TotalSent\<close> counts all of them.  Forgotten, in no counter but \<open>TotalSent\<close>, are the messages with an intermediate status
  and those pending when the tracker is cleared; without such statuses and clears there are none.
\<close>

theorem tracker_accounting:
  assumes "length (filter is_track ops) < 2 ^ 32 - 1" and "tracker_run lib newMessageStatusTracker ops = (fs, t)"
  shows "unat (TotalSent (GetStats t)) = length (filter is_track ops) \<and>
    distinct (map fst fs @ map fst (pendingMessages t)) \<and>
    set (map fst fs @ map fst (pendingMessages t)) = (\<lambda>i. of_nat (i + 2)) ` {..<length (filter is_track ops)} \<and>
    unat (TotalDelivered (GetStats t)) = fate_count Fate_Delivered fs \<and> unat (TotalFailed (GetStats t)) = fate_count Fate_Failed fs \<and>
    unat (TotalExpired (GetStats t)) = fate_count Fate_Expired fs \<and>
    unat (TotalSent (GetStats t)) = length fs + PendingCount t \<and>
    (list_all (final_op lib) ops \<longrightarrow> fate_count Fate_Forgotten fs = 0)"
proof -
  have "accounts 0 [] newMessageStatusTracker"
    by (simp add: accounts_def newMessageStatusTracker_def zeroStats_def nonces_def)
  from accounts_run [OF this _ assms(2)] assms(1) have a: "accounts (length (filter is_track ops)) fs t" by simp
  with accounts_distinct [OF a] none_forgotten [OF assms(2)] assms(1) show ?thesis
    by (simp add: accounts_def GetStats_def PendingCount_def)
qed

definition demo_status :: status_lib where
  "demo_status = \<lparr>IsMessageStatusSuccess = (\<lambda>s. s = 4), IsMessageStatusFailure = (\<lambda>s. s = 5),
     IsMessageStatusRetriable = (\<lambda>s. False)\<rparr>"

theorem tracker_accounting_witness:
  "\<exists>fs t. tracker_run demo_status newMessageStatusTracker
       [Track 0 (Some 1) 7 100 True, Track 0 (Some 1) 8 100 True, Track 0 (Some 1) 9 100 True, Status 5 2 4 0 0, Status 6 3 1 0 0, Status 7 3 4 0 0] = (fs, t) \<and>
     fs = [(2, Fate_Delivered), (3, Fate_Forgotten)] \<and> PendingCount t = 1 \<and> unat (TotalDelivered (GetStats t)) = 1 \<and> unat (TotalSent (GetStats t)) = 3"
proof -
  let ?ops = "[Track 0 (Some 1) 7 100 True, Track 0 (Some 1) 8 100 True, Track 0 (Some 1) 9 100 True, Status 5 2 4 0 0, Status 6 3 1 0 0, Status 7 3 4 0 0]"
  obtain fs t where r: "tracker_run demo_status newMessageStatusTracker ?ops = (fs, t)" by (metis surj_pair)
  then have "fs = [(2, Fate_Delivered), (3, Fate_Forgotten)]"
    by (auto simp: demo_status_def TrackMessage_def GenerateNonce_def HandleStatus_def handleSuccess_def handleIntermediate_def Let_def
        newMessageStatusTracker_def)
  with tracker_accounting [OF _ r] r show ?thesis by auto
qed

end
