(* ===== verification/Seq_Num.thy ===== *)
theory Seq_Num
  imports Stream_Prelude
begin

text \<open>
  Sequence-number arithmetic of \<^verbatim>\<open>stream.go\<close> (\<^verbatim>\<open>seqLessThan\<close> and its relatives): 32-bit serial
  numbers compared through the sign of their difference.  The interface the connection code relies
  on is the locale \<open>serial_window\<close>: inside a window of fewer than \<open>2 ^ 31\<close> numbers that starts
  anywhere, the comparison is the order of the positions in the window, whether or not the window
  wraps around zero.
\<close>

section \<open>The comparisons of the source\<close>

definition seqLessThan :: "u32 \<Rightarrow> u32 \<Rightarrow> bool" where
  "seqLessThan a b \<longleftrightarrow> sint (a - b) < 0"

definition seqLessThanOrEqual :: "u32 \<Rightarrow> u32 \<Rightarrow> bool" where
  "seqLessThanOrEqual a b \<longleftrightarrow> a = b \<or> seqLessThan a b"

definition seqGreaterThan :: "u32 \<Rightarrow> u32 \<Rightarrow> bool" where
  "seqGreaterThan a b \<longleftrightarrow> sint (a - b) > 0"

definition seqGreaterThanOrEqual :: "u32 \<Rightarrow> u32 \<Rightarrow> bool" where
  "seqGreaterThanOrEqual a b \<longleftrightarrow> a = b \<or> seqGreaterThan a b"

definition seqDiff :: "u32 \<Rightarrow> u32 \<Rightarrow> u32" where
  "seqDiff a b = b - a"

section \<open>Signed comparison as distance\<close>

lemma sint32_cases:
  "sint (w :: u32) = (if uint w < 2147483648 then uint w else uint w - 4294967296)"
proof -
  define u where "u = uint w"
  have s: "sint w = (u + 2147483648) mod 4294967296 - 2147483648"
    by (simp add: u_def sint_uint signed_take_bit_eq_take_bit_shift take_bit_eq_mod)
  have u: "0 \<le> u" "u < 4294967296"
    using uint_lt2p [of w] by (simp_all add: u_def)
  have "(u + 2147483648) mod 4294967296 = u + 2147483648" if "u < 2147483648"
    using that u by (intro mod_pos_pos_trivial) auto
  moreover have "(u + 2147483648) mod 4294967296 = u - 2147483648" if "\<not> u < 2147483648"
  proof -
    have "(u - 2147483648 + 4294967296) mod 4294967296 = u - 2147483648"
      using that u by (subst mod_add_self2) (intro mod_pos_pos_trivial, auto)
    then show ?thesis by (simp add: add.commute)
  qed
  ultimately show ?thesis using s by (simp add: u_def)
qed

lemma unat_u32_less: "unat (w :: u32) < 4294967296"
  using unsigned_less [of w, where ?'a = nat] by simp

lemma uint_u32_less_iff: "uint (w :: u32) < 2147483648 \<longleftrightarrow> unat w < 2147483648"
  by (simp add: uint_nat del: of_nat_unat)

lemma uint_u32_pos_iff: "0 < uint (w :: u32) \<longleftrightarrow> 0 < unat w"
  by (simp add: uint_nat del: of_nat_unat)

lemma sint_neg_iff: "sint (w :: u32) < 0 \<longleftrightarrow> 2147483648 \<le> unat w"
  using uint_lt2p [of w] by (auto simp: sint32_cases uint_u32_less_iff not_less)

lemma sint_pos_iff: "0 < sint (w :: u32) \<longleftrightarrow> 0 < unat w \<and> unat w < 2147483648"
  using uint_lt2p [of w]
  by (auto simp: sint32_cases uint_u32_less_iff uint_u32_pos_iff not_less)

lemma unat_diff_swap:
  fixes a b :: u32
  assumes "a \<noteq> b"
  shows "unat (a - b) + unat (b - a) = 2 ^ 32"
  using assms unat_u32_less [of a] unat_u32_less [of b]
  by (auto simp: unat_sub_if_size word_size word_unat_eq_iff)

text \<open>The forward distance decides every comparison.\<close>

lemma seqGreaterThan_iff_distance:
  "seqGreaterThan a b \<longleftrightarrow> 0 < unat (seqDiff b a) \<and> unat (seqDiff b a) < 2 ^ 31"
  by (simp add: seqGreaterThan_def seqDiff_def sint_pos_iff)

lemma seqLessThan_iff_distance:
  "seqLessThan a b \<longleftrightarrow> 0 < unat (seqDiff a b) \<and> unat (seqDiff a b) \<le> 2 ^ 31"
proof (cases "a = b")
  case True
  then show ?thesis by (simp add: seqLessThan_def seqDiff_def)
next
  case False
  with unat_diff_swap [OF this] unat_u32_less [of "a - b"] show ?thesis
    by (auto simp: seqLessThan_def seqDiff_def sint_neg_iff)
qed

lemma unat_window_diff:
  assumes "i \<le> j" and "j < 2 ^ 32"
  shows "unat ((base + of_nat j) - (base + of_nat i) :: u32) = j - i"
proof -
  have "(base + of_nat j) - (base + of_nat i) = (of_nat (j - i) :: u32)"
    using assms(1) by (simp add: of_nat_diff)
  moreover have "unat (of_nat (j - i) :: u32) = j - i"
    using assms by (simp only: unat_of_nat) simp
  ultimately show ?thesis by simp
qed

lemma seqDiff_window:
  "i \<le> j \<Longrightarrow> j < 2 ^ 32 \<Longrightarrow> unat (seqDiff (base + of_nat i) (base + of_nat j)) = j - i"
  unfolding seqDiff_def by (rule unat_window_diff)

lemma seqLessThan_window:
  assumes "i < 2 ^ 31" and "j < 2 ^ 31"
  shows "seqLessThan (base + of_nat i) (base + of_nat j) \<longleftrightarrow> i < j"
proof (cases "i \<le> j")
  case True
  with assms show ?thesis
    by (auto simp: seqLessThan_iff_distance seqDiff_window)
next
  case False
  then have d: "unat (seqDiff (base + of_nat j) (base + of_nat i)) = i - j"
    using assms by (intro seqDiff_window) auto
  then have "base + of_nat i \<noteq> (base + of_nat j :: u32)"
    using False by (auto simp: seqDiff_def)
  from unat_diff_swap [OF this] d
  have "unat (seqDiff (base + of_nat i) (base + of_nat j)) = 2 ^ 32 - (i - j)"
    unfolding seqDiff_def by linarith
  with False assms show ?thesis
    by (simp add: seqLessThan_iff_distance)
qed

lemma seqGreaterThan_window:
  assumes "i < 2 ^ 31" and "j < 2 ^ 31"
  shows "seqGreaterThan (base + of_nat i) (base + of_nat j) \<longleftrightarrow> j < i"
proof (cases "j \<le> i")
  case True
  with assms show ?thesis
    by (auto simp: seqGreaterThan_iff_distance seqDiff_window)
next
  case False
  then have "seqLessThan (base + of_nat i) (base + of_nat j)"
    using assms by (simp add: seqLessThan_window)
  with False show ?thesis by (simp add: seqLessThan_def seqGreaterThan_def)
qed

lemma window_inject:
  assumes "i < 2 ^ 31" and "j < 2 ^ 31"
  shows "of_nat i = (of_nat j :: u32) \<longleftrightarrow> i = j"
  using seqLessThan_window [OF assms, of 0] seqLessThan_window [OF assms(2,1), of 0]
  by (auto simp: seqLessThan_def)

section \<open>The interface: order inside a window\<close>

locale serial_window =
  fixes lt le gt :: "u32 \<Rightarrow> u32 \<Rightarrow> bool"
    and half :: nat
  assumes lt_window: "i < half \<Longrightarrow> j < half \<Longrightarrow>
      lt (base + of_nat i) (base + of_nat j) \<longleftrightarrow> i < j"
    and gt_window: "i < half \<Longrightarrow> j < half \<Longrightarrow>
      gt (base + of_nat i) (base + of_nat j) \<longleftrightarrow> j < i"
    and le_is: "le a b \<longleftrightarrow> a = b \<or> lt a b"
    and inj_window: "i < half \<Longrightarrow> j < half \<Longrightarrow>
      of_nat i = (of_nat j :: u32) \<longleftrightarrow> i = j"
begin

lemma le_window: "i < half \<Longrightarrow> j < half \<Longrightarrow> le (base + of_nat i) (base + of_nat j) \<longleftrightarrow> i \<le> j"
  by (auto simp: le_is lt_window inj_window)

lemma not_le_window:
  "i < half \<Longrightarrow> j < half \<Longrightarrow> \<not> le (base + of_nat i) (base + of_nat j) \<longleftrightarrow>
     gt (base + of_nat i) (base + of_nat j)"
  by (auto simp: le_window gt_window)

text \<open>The numbers of a window that are not beyond position \<open>j\<close> are its first \<open>j + 1\<close> numbers.\<close>

lemma filter_le_window:
  assumes "n \<le> half" and "j < half"
  shows "filter (\<lambda>s. le s (base + of_nat j)) (map (\<lambda>i. base + of_nat i) [0..<n]) =
    map (\<lambda>i. base + of_nat i) [0..<min n (Suc j)]"
proof -
  have "filter (\<lambda>s. le s (base + of_nat j)) (map (\<lambda>i. base + of_nat i) [0..<n]) =
      map (\<lambda>i. base + of_nat i) (filter (\<lambda>i. i < Suc j) [0..<n])"
    using assms by (auto simp: filter_map o_def le_window intro!: filter_cong arg_cong [where f = "map _"])
  moreover have "filter (\<lambda>i. i < Suc j) [0..<n] = [0..<min n (Suc j)]"
    by (induction n) auto
  ultimately show ?thesis by simp
qed

end

interpretation seq: serial_window seqLessThan seqLessThanOrEqual seqGreaterThan "2 ^ 31"
  by unfold_locales
    (simp_all add: seqLessThan_window seqGreaterThan_window seqLessThanOrEqual_def window_inject)

section \<open>Properties\<close>

text \<open>
  C19. Serial order with wrap-around: for two numbers \<open>base + i\<close> and \<open>base + j\<close> of any window of
  fewer than \<open>2 ^ 31\<close> sequence numbers, each of the four comparisons of the source agrees with the
  order of the positions \<open>i\<close> and \<open>j\<close>, also when the window wraps from \<open>0xFFFFFFFF\<close> to \<open>0\<close>.
\<close>

theorem seq_compare_window:
  assumes "i < 2 ^ 31" and "j < 2 ^ 31"
  shows "(seqLessThan (base + of_nat i) (base + of_nat j) \<longleftrightarrow> i < j) \<and>
    (seqLessThanOrEqual (base + of_nat i) (base + of_nat j) \<longleftrightarrow> i \<le> j) \<and>
    (seqGreaterThan (base + of_nat i) (base + of_nat j) \<longleftrightarrow> j < i) \<and>
    (seqGreaterThanOrEqual (base + of_nat i) (base + of_nat j) \<longleftrightarrow> j \<le> i)"
  using assms seq.le_window [OF assms] seq.lt_window [OF assms] seq.gt_window [OF assms]
    seq.inj_window [OF assms]
  by (auto simp: seqGreaterThanOrEqual_def)

theorem seq_compare_window_witness:
  "seqLessThan 0xFFFFFFFE 1 \<and> seqLessThanOrEqual 0xFFFFFFFE 1 \<and>
    \<not> seqGreaterThan 0xFFFFFFFE 1 \<and> \<not> seqGreaterThanOrEqual 0xFFFFFFFE 1"
proof -
  have w: "(0xFFFFFFFE :: u32) + of_nat 3 = 1" "(0xFFFFFFFE :: u32) + of_nat 0 = 0xFFFFFFFE"
    by simp_all
  show ?thesis using seq_compare_window [of 0 3 "0xFFFFFFFE", unfolded w] by simp
qed

text \<open>
  The comparisons are exact in the forward distance \<open>seqDiff\<close>, and are strict opposites of each
  other except at distance exactly \<open>2 ^ 31\<close>, where \<open>seqLessThan\<close> holds both ways.
\<close>

theorem seq_compare_distance:
  "(seqGreaterThan a b \<longleftrightarrow> unat (seqDiff b a) \<in> {0<..<2 ^ 31}) \<and>
   (seqLessThan a b \<longleftrightarrow> unat (seqDiff a b) \<in> {0<..2 ^ 31}) \<and>
   (seqLessThan a b \<and> seqLessThan b a \<longleftrightarrow> unat (seqDiff a b) = 2 ^ 31) \<and>
   (seqLessThan a b \<or> a = b \<or> seqGreaterThan a b)"
proof (cases "a = b")
  case True
  then show ?thesis
    by (simp add: seqGreaterThan_iff_distance seqLessThan_iff_distance seqDiff_def)
next
  case False
  have "unat (a - b) + unat (b - a) = 2 ^ 32" by (rule unat_diff_swap [OF False])
  then show ?thesis
    using False unat_gt_0 [of "a - b"] unat_gt_0 [of "b - a"]
    by (auto simp: seqGreaterThan_iff_distance seqLessThan_iff_distance seqDiff_def)
qed

end
