(* ===== verification/Conn.thy ===== *)
theory Conn
  imports Packet_Crypto Profile Conn_Limits Tcb_Cache Message_Status Seq_Num
begin

text \<open>
  The state of a connection (\<^verbatim>\<open>StreamConn\<close> in \<^verbatim>\<open>stream.go\<close>), the world its handlers act on, and the
  sending primitives every handler ends in.

  A handler takes the connection and the world and returns both.  The mutex of a connection makes each
  handler atomic, so one handler is one step; \<^verbatim>\<open>time.Now\<close> is read once per handler.  The session
  pointer is never nil: every constructor rejects a nil session.  Pointers to the manager and to the
  timers are flags; \<^verbatim>\<open>recvCond\<close> and \<^verbatim>\<open>sendCond\<close> count their broadcasts.  What lies outside the
  repository is the argument \<open>env\<close>: the I2P libraries, the I2CP session, the ring buffer of
  \<^verbatim>\<open>armon/circbuf\<close>, and the order in which Go walks a map, which may differ from call to call.
\<close>

section \<open>Constants\<close>

definition DefaultMTU :: int where "DefaultMTU = 1730"
definition ECIESMTU :: int where "ECIESMTU = 1812"
definition MinMTU :: int where "MinMTU = 512"
definition DefaultWindowSize :: u32 where "DefaultWindowSize = 6"
definition MaxWindowSize :: u32 where "MaxWindowSize = 128"
definition DefaultInactivityTimeout :: duration where "DefaultInactivityTimeout = 90 * Second"
definition MinRTO :: duration where "MinRTO = 100 * Millisecond"
definition MaxRTO :: duration where "MaxRTO = 45 * Second"
definition FastRetransmitThreshold :: int where "FastRetransmitThreshold = 2"
definition MaxRetransmissions :: int where "MaxRetransmissions = 8"
definition MinDelayChoke :: u16 where "MinDelayChoke = 60001"
definition SendDelayChoke :: u16 where "SendDelayChoke = 61000"
definition MaxNACKs :: nat where "MaxNACKs = 255"

section \<open>The environment\<close>

record 'd message =
  msg_dest :: "'d option"
  msg_protocol :: u8
  msg_localPort :: u16
  msg_remotePort :: u16
  msg_data :: "byte list"
  msg_nonce :: u32

text \<open>
  An I2CP session: its destination, its signing key, and \<^verbatim>\<open>SendMessage\<close>, whose result may depend on
  everything sent before.
\<close>

record ('d, 'k) session =
  ses_Destination :: "'d option"
  ses_SigningKeyPair :: "goerror + 'k"
  ses_SendMessage :: "'d message list \<Rightarrow> 'd message \<Rightarrow> goerror option"

text \<open>The operations of \<^verbatim>\<open>circbuf.Buffer\<close> on an opaque buffer \<open>'b\<close>.\<close>

record 'b circbuf =
  cb_NewBuffer :: "int \<Rightarrow> goerror + 'b"
  cb_Write :: "'b \<Rightarrow> byte list \<Rightarrow> nat \<times> goerror option \<times> 'b"
  cb_Bytes :: "'b \<Rightarrow> byte list"
  cb_Reset :: "'b \<Rightarrow> 'b"
  cb_TotalWritten :: "'b \<Rightarrow> int"
  cb_Size :: "'b \<Rightarrow> int"

record ('d, 'c, 'k, 'b) env =
  e_lib :: "('d, 'c, 'k) i2plib"
  e_session :: "('d, 'k) session"
  e_circ :: "'b circbuf"
  e_order :: "nat \<Rightarrow> u32 list \<Rightarrow> u32 list"

text \<open>
  What handlers share: the clock, the messages handed to I2CP (all of them, and those it took), and the
  parts of the stream manager a connection reaches through its manager pointer.
\<close>

record 'd world =
  w_now :: instant
  w_attempts :: "'d message list"
  w_wire :: "'d message list"
  w_msgTracker :: messageStatusTracker
  w_tcbCache :: tcbCache
  w_limiter :: connectionLimiter
  w_connections :: "(u16 \<times> u16, conn_id) gomap"

section \<open>The connection\<close>

datatype ConnState =
    StateInit
  | StateSynSent
  | StateSynRcvd
  | StateEstablished
  | StateCloseWait
  | StateClosing
  | StateClosed

record sentPacket =
  sp_data :: "byte list"
  sentTime :: instant
  retryCount :: int

record ('d, 'b) StreamConn =
  self :: conn_id
  hasManager :: bool
  conn_dest :: "'d option"
  localPort :: u16
  remotePort :: u16
  localStreamID :: u32
  remoteStreamID :: u32
  sendSeq :: u32
  recvSeq :: u32
  ackThrough :: u32
  totalBytesSent :: u64
  totalBytesReceived :: u64
  windowSize :: u32
  cwnd :: u32
  ssthresh :: u32
  rtt :: duration
  rto :: duration
  srtt :: duration
  rttVariance :: duration
  optDelay :: u16
  choked :: bool
  chokedUntil :: "instant option"
  persistTimer :: bool
  persistStopChan :: bool
  sendingChoke :: bool
  lastBufferCheck :: int
  localMTU :: u16
  remoteMTU :: u16
  outOfOrderPackets :: "(u32, 'd Packet) gomap"
  nackList :: "u32 list"
  sentPackets :: "(u32, sentPacket) gomap"
  nackCounts :: "(u32, int) gomap"
  recvBuf :: 'b
  recvChan :: "'d Packet list"
  ctxDone :: bool
  recvCond :: nat
  sendCond :: nat
  readDeadline :: "instant option"
  writeDeadline :: "instant option"
  lastActivity :: instant
  inactivityTimeout :: duration
  conn_profile :: StreamProfile
  remoteProfile :: StreamProfile
  conn_closed :: bool
  conn_state :: ConnState

type_synonym ('d, 'b) conn_world = "('d, 'b) StreamConn \<times> 'd world"

definition setState :: "('d, 'b) StreamConn \<Rightarrow> ConnState \<Rightarrow> ('d, 'b) StreamConn" where
  "setState s newState = s\<lparr>conn_state := newState\<rparr>"

definition broadcast_recv :: "('d, 'b) StreamConn \<Rightarrow> ('d, 'b) StreamConn" where
  "broadcast_recv s = s\<lparr>recvCond := recvCond s + 1\<rparr>"

definition broadcast_send :: "('d, 'b) StreamConn \<Rightarrow> ('d, 'b) StreamConn" where
  "broadcast_send s = s\<lparr>sendCond := sendCond s + 1\<rparr>"

section \<open>Sending\<close>

text \<open>One call of \<^verbatim>\<open>session.SendMessage\<close>, protocol 6.\<close>

definition SendMessage ::
  "('d, 'c, 'k, 'b) env \<Rightarrow> 'd option \<Rightarrow> u16 \<Rightarrow> u16 \<Rightarrow> byte list \<Rightarrow> u32 \<Rightarrow> 'd world \<Rightarrow> goerror option \<times> 'd world" where
  "SendMessage env d lport rport data nonce w =
     (let m = \<lparr>msg_dest = d, msg_protocol = 6, msg_localPort = lport, msg_remotePort = rport,
               msg_data = data, msg_nonce = nonce\<rparr>;
          r = ses_SendMessage (e_session env) (w_attempts w) m
      in (r, w\<lparr>w_attempts := w_attempts w @ [m],
               w_wire := (if r = None then w_wire w @ [m] else w_wire w)\<rparr>))"

text \<open>\<^verbatim>\<open>Marshal\<close> and \<^verbatim>\<open>SignPacket\<close> never panic, so the panic branch below is never taken.\<close>

fun checked :: "'a result \<Rightarrow> goerror + 'a" where
  "checked (Ok x) = Inr x"
| "checked (Err e) = Inl e"
| "checked Panic = Inl (Errorf ''panic'' [])"

definition trackPacketForRetransmission ::
  "instant \<Rightarrow> ('d, 'b) StreamConn \<Rightarrow> 'd Packet \<Rightarrow> byte list \<Rightarrow> ('d, 'b) StreamConn" where
  "trackPacketForRetransmission now s pkt data =
     (if length (Payload pkt) = 0 then s
      else s\<lparr>sentPackets := AList.update (SequenceNum pkt)
                \<lparr>sp_data = data, sentTime = now, retryCount = 0\<rparr> (sentPackets s)\<rparr>)"

definition sendViaI2CP ::
  "('d, 'c, 'k, 'b) env \<Rightarrow> ('d, 'b) StreamConn \<Rightarrow> byte list \<Rightarrow> 'd world \<Rightarrow> goerror option \<times> 'd world" where
  "sendViaI2CP env s data w =
     (let (r, w) = SendMessage env (conn_dest s) (localPort s) (remotePort s) data 0 w
      in (map_option (Wrap ''send message'') r, w))"

definition sendViaI2CPWithTracking ::
  "('d, 'c, 'k, 'b) env \<Rightarrow> ('d, 'b) StreamConn \<Rightarrow> byte list \<Rightarrow> u32 \<Rightarrow> bool \<Rightarrow> 'd world \<Rightarrow> goerror option \<times> 'd world" where
  "sendViaI2CPWithTracking env s data seqNum isDataPkt w =
     (let (nonce, w) =
            (if hasManager s
             then (let (n, t) = TrackMessage (w_now w) (w_msgTracker w) (Some (self s)) seqNum (int (length data)) isDataPkt
                   in (n, w\<lparr>w_msgTracker := t\<rparr>))
             else (0, w));
          (r, w) = SendMessage env (conn_dest s) (localPort s) (remotePort s) data nonce w
      in (map_option (Wrap ''send message'') r, w))"

definition sendPacketLocked ::
  "('d, 'c, 'k, 'b) env \<Rightarrow> 'd Packet \<Rightarrow> ('d, 'b) conn_world \<Rightarrow> goerror option \<times> ('d, 'b) conn_world" where
  "sendPacketLocked env pkt sw =
     (let (s, w) = sw in
      case checked (Marshal (e_lib env) pkt) of
        Inl e \<Rightarrow> (Some (Wrap ''marshal packet'' e), (s, w))
      | Inr data \<Rightarrow>
          let s = trackPacketForRetransmission (w_now w) s pkt data;
              isDataPkt = (length (Payload pkt) > 0);
              (r, w) = sendViaI2CPWithTracking env s data (SequenceNum pkt) isDataPkt w
          in case r of
               Some e \<Rightarrow> (Some e, (s, w))
             | None \<Rightarrow> (None, (s\<lparr>lastActivity := w_now w\<rparr>, w)))"

text \<open>
  \<^verbatim>\<open>getNACKListSliceLocked\<close> takes the first entries of the map in Go's order, which may be another one
  at every call.
\<close>

definition getNACKListSliceLocked ::
  "('d, 'c, 'k, 'b) env \<Rightarrow> ('d, 'b) StreamConn \<Rightarrow> 'd world \<Rightarrow> nat \<Rightarrow> u32 list" where
  "getNACKListSliceLocked env s w maxNacks =
     (if length (nackList s) = 0 then []
      else
        let count = (if length (nackList s) > maxNacks then maxNacks else length (nackList s))
        in take count (e_order env (length (w_attempts w)) (nackList s)))"

definition withNACKs :: "('d, 'c, 'k, 'b) env \<Rightarrow> ('d, 'b) conn_world \<Rightarrow> 'd Packet \<Rightarrow> 'd Packet" where
  "withNACKs env sw pkt =
     (if length (nackList (fst sw)) > 0
      then pkt\<lparr>NACKs := getNACKListSliceLocked env (fst sw) (snd sw) MaxNACKs\<rparr> else pkt)"

definition controlPacket :: "('d, 'b) StreamConn \<Rightarrow> u16 \<Rightarrow> u16 \<Rightarrow> 'd Packet" where
  "controlPacket s flags delay =
     emptyPacket\<lparr>SendStreamID := localStreamID s, RecvStreamID := remoteStreamID s, SequenceNum := 0,
       AckThrough := recvSeq s - 1, Flags := flags, OptionalDelay := delay\<rparr>"

definition sendAckLocked ::
  "('d, 'c, 'k, 'b) env \<Rightarrow> ('d, 'b) conn_world \<Rightarrow> goerror option \<times> ('d, 'b) conn_world" where
  "sendAckLocked env sw = sendPacketLocked env (withNACKs env sw (controlPacket (fst sw) 0 0)) sw"

definition sendChokeSignalLocked ::
  "('d, 'c, 'k, 'b) env \<Rightarrow> ('d, 'b) conn_world \<Rightarrow> goerror option \<times> ('d, 'b) conn_world" where
  "sendChokeSignalLocked env sw =
     (let pkt = withNACKs env sw (controlPacket (fst sw) FlagDelayRequested SendDelayChoke);
          s = (fst sw)\<lparr>sendingChoke := True\<rparr>
      in sendPacketLocked env pkt (s, snd sw))"

definition sendUnchokeSignalLocked ::
  "('d, 'c, 'k, 'b) env \<Rightarrow> ('d, 'b) conn_world \<Rightarrow> goerror option \<times> ('d, 'b) conn_world" where
  "sendUnchokeSignalLocked env sw =
     (let pkt = withNACKs env sw (controlPacket (fst sw) FlagDelayRequested 0);
          s = (fst sw)\<lparr>sendingChoke := False\<rparr>
      in sendPacketLocked env pkt (s, snd sw))"

definition getNegotiatedMTULocked :: "('d, 'b) StreamConn \<Rightarrow> u16" where
  "getNegotiatedMTULocked s =
     (if remoteMTU s = 0 then localMTU s
      else if localMTU s < remoteMTU s then localMTU s else remoteMTU s)"

definition getResendDelaySeconds :: "('d, 'b) StreamConn \<Rightarrow> u8" where
  "getResendDelaySeconds s =
     (let rtoSeconds = rto s sdiv Second in
      if rtoSeconds \<le> 0 then 1
      else if rtoSeconds > 255 then 255
      else word_of_int rtoSeconds)"

section \<open>Small operations\<close>

definition SetDeadline :: "instant option \<Rightarrow> ('d, 'b) StreamConn \<Rightarrow> ('d, 'b) StreamConn" where
  "SetDeadline t s = broadcast_recv (s\<lparr>readDeadline := t, writeDeadline := t\<rparr>)"

definition SetReadDeadline :: "instant option \<Rightarrow> ('d, 'b) StreamConn \<Rightarrow> ('d, 'b) StreamConn" where
  "SetReadDeadline t s = broadcast_recv (s\<lparr>readDeadline := t\<rparr>)"

definition SetWriteDeadline :: "instant option \<Rightarrow> ('d, 'b) StreamConn \<Rightarrow> ('d, 'b) StreamConn" where
  "SetWriteDeadline t s = broadcast_send (s\<lparr>writeDeadline := t\<rparr>)"

definition SetInactivityTimeout :: "duration \<Rightarrow> ('d, 'b) StreamConn \<Rightarrow> ('d, 'b) StreamConn" where
  "SetInactivityTimeout timeout s = s\<lparr>inactivityTimeout := timeout\<rparr>"

definition checkInactivity :: "('d, 'c, 'k, 'b) env \<Rightarrow> ('d, 'b) conn_world \<Rightarrow> ('d, 'b) conn_world" where
  "checkInactivity env sw =
     (let (s, w) = sw in
      if inactivityTimeout s = 0 \<or> conn_state s \<noteq> StateEstablished \<or> conn_closed s then (s, w)
      else
        let inactiveDuration = w_now w - lastActivity s in
        if inactiveDuration < inactivityTimeout s then (s, w)
        else case sendAckLocked env (s, w) of
          (Some e, sw) \<Rightarrow> sw
        | (None, (s, w)) \<Rightarrow> (s\<lparr>lastActivity := w_now w\<rparr>, w))"

section \<open>The ring buffer\<close>

text \<open>
  The documented behaviour of \<^verbatim>\<open>armon/circbuf\<close>: a write never fails and reports its full length, the buffer
  holds the last \<^verbatim>\<open>Size\<close> bytes written since the last reset, and \<^verbatim>\<open>TotalWritten\<close> counts them all.
\<close>

definition circ_ok :: "'b circbuf \<Rightarrow> bool" where
  "circ_ok cb \<longleftrightarrow>
     (\<forall>b xs. \<exists>b'. cb_Write cb b xs = (length xs, None, b') \<and>
        cb_Bytes cb b' = drop (length (cb_Bytes cb b @ xs) - nat (cb_Size cb b)) (cb_Bytes cb b @ xs) \<and>
        cb_TotalWritten cb b' = cb_TotalWritten cb b + int (length xs) \<and> cb_Size cb b' = cb_Size cb b) \<and>
     (\<forall>b. cb_Bytes cb (cb_Reset cb b) = [] \<and> cb_TotalWritten cb (cb_Reset cb b) = 0 \<and>
        cb_Size cb (cb_Reset cb b) = cb_Size cb b)"

text \<open>A buffer as a list of bytes with its total and its size.\<close>

definition list_circ :: "(byte list \<times> int \<times> int) circbuf" where
  "list_circ = \<lparr>cb_NewBuffer = (\<lambda>n. if n \<le> 0 then Inl (Errorf ''size must be positive'' []) else Inr ([], 0, n)),
     cb_Write = (\<lambda>(bs, t, n) xs. (length xs, None,
        (drop (length (bs @ xs) - nat n) (bs @ xs), t + int (length xs), n))),
     cb_Bytes = (\<lambda>(bs, t, n). bs), cb_Reset = (\<lambda>(bs, t, n). ([], 0, n)),
     cb_TotalWritten = (\<lambda>(bs, t, n). t), cb_Size = (\<lambda>(bs, t, n). n)\<rparr>"

lemma list_circ_ok: "circ_ok list_circ"
  by (auto simp: circ_ok_def list_circ_def)

section \<open>A concrete environment and connection\<close>

definition demo_session :: "(byte, byte) session" where
  "demo_session = \<lparr>ses_Destination = Some 9, ses_SigningKeyPair = Inr 9, ses_SendMessage = (\<lambda>_ _. None)\<rparr>"

definition demo_env :: "(byte, unit, byte, byte list \<times> int \<times> int) env" where
  "demo_env = \<lparr>e_lib = byte_lib, e_session = demo_session, e_circ = list_circ, e_order = (\<lambda>n xs. xs)\<rparr>"

definition demo_world :: "byte world" where
  "demo_world = \<lparr>w_now = 0, w_attempts = [], w_wire = [], w_msgTracker = newMessageStatusTracker,
     w_tcbCache = newTCBCache DefaultTCBCacheConfig, w_limiter = newConnectionLimiter None, w_connections = []\<rparr>"

definition demo_conn :: "(byte, byte list \<times> int \<times> int) StreamConn" where
  "demo_conn = \<lparr>self = 1, hasManager = True, conn_dest = Some 5, localPort = 80, remotePort = 4000,
     localStreamID = 11, remoteStreamID = 22, sendSeq = 104, recvSeq = 500, ackThrough = 100,
     totalBytesSent = 0, totalBytesReceived = 0, windowSize = 6, cwnd = 6, ssthresh = 128,
     rtt = 8 * Second, rto = 9 * Second, srtt = 0, rttVariance = 0, optDelay = 0, choked = False,
     chokedUntil = None, persistTimer = False, persistStopChan = False, sendingChoke = False,
     lastBufferCheck = 0, localMTU = 1730, remoteMTU = 1730, outOfOrderPackets = [], nackList = [],
     sentPackets = map (\<lambda>q. (q, \<lparr>sp_data = [1], sentTime = 0, retryCount = 0\<rparr>)) [101, 102, 103],
     nackCounts = [], recvBuf = ([], 0, 65536), recvChan = [], ctxDone = False, recvCond = 0, sendCond = 0,
     readDeadline = None, writeDeadline = None, lastActivity = 0, inactivityTimeout = 90 * Second,
     conn_profile = ProfileBulk, remoteProfile = ProfileBulk, conn_closed = False, conn_state = StateEstablished\<rparr>"

lemma demo_conn_simps [simp]:
  "map fst (sentPackets demo_conn) = [101, 102, 103]" "ackThrough demo_conn = 100" "sendSeq demo_conn = 104"
  "recvSeq demo_conn = 500" "nackCounts demo_conn = []" "rto demo_conn = 9 * Second" "srtt demo_conn = 0"
  "outOfOrderPackets demo_conn = []" "nackList demo_conn = []" "recvBuf demo_conn = ([], 0, 65536)"
  "conn_closed demo_conn = False" "conn_state demo_conn = StateEstablished" "sendingChoke demo_conn = False"
  "cwnd demo_conn = 6" "localMTU demo_conn = 1730" "remoteMTU demo_conn = 1730"
  by (simp_all add: demo_conn_def)

lemma demo_env_simps [simp]:
  "e_lib demo_env = byte_lib" "e_session demo_env = demo_session" "e_circ demo_env = list_circ"
  "e_order demo_env = (\<lambda>n xs. xs)"
  by (simp_all add: demo_env_def)

end
