(* ===== verification/Congestion.thy ===== *)
theory Congestion
  imports Conn
begin

text \<open>
  The sender's reaction to acknowledgements in \<^verbatim>\<open>stream.go\<close>: round-trip estimation and time-out
  (RFC 6298), congestion window, NACKs and fast retransmission, clean-up of acknowledged packets, choking
  and the persist timer, time-out retransmission, the callbacks of the message tracker, and the
  control-block data of \<^verbatim>\<open>tcb_cache.go\<close> applied to a connection.
\<close>

section \<open>Round-trip time\<close>

definition updateRTTEstimate :: "duration \<Rightarrow> ('d, 'b) StreamConn \<Rightarrow> ('d, 'b) StreamConn" where
  "updateRTTEstimate r s =
     (let s = s\<lparr>rtt := r\<rparr> in
      if srtt s = 0 then s\<lparr>srtt := r, rttVariance := r sdiv 2\<rparr>
      else
        let diff = (if srtt s > r then srtt s - r else r - srtt s);
            s = s\<lparr>rttVariance := trunc (of_int (rttVariance s) * (1 - 1 / 4) + 1 / 4 * of_int diff)\<rparr>
        in s\<lparr>srtt := trunc (of_int (srtt s) * (1 - 1 / 8) + 1 / 8 * of_int r)\<rparr>)"

definition calculateRTO :: "('d, 'b) StreamConn \<Rightarrow> ('d, 'b) StreamConn" where
  "calculateRTO s =
     (let s = s\<lparr>rto := srtt s + 4 * rttVariance s\<rparr>;
          s = (if rto s < MinRTO then s\<lparr>rto := MinRTO\<rparr> else s)
      in if rto s > MaxRTO then s\<lparr>rto := MaxRTO\<rparr> else s)"

definition measureRTTFromAck :: "instant \<Rightarrow> u32 \<Rightarrow> ('d, 'b) StreamConn \<Rightarrow> ('d, 'b) StreamConn" where
  "measureRTTFromAck now ack s =
     (case map_of (sentPackets s) ack of
        None \<Rightarrow> s
      | Some info \<Rightarrow> calculateRTO (updateRTTEstimate (now - sentTime info) s))"

definition calculateRTOFromValues :: "duration \<Rightarrow> duration \<Rightarrow> duration" where
  "calculateRTOFromValues sr rv =
     (let k = rv * 4;
          k = (if k < Millisecond then Millisecond else k);
          r = sr + k;
          r = (if r < MinRTO then MinRTO else r)
      in if r > MaxRTO then MaxRTO else r)"

record TCBData =
  td_RTT :: duration
  td_RTTVariance :: duration
  td_WindowSize :: u32
  FromCache :: bool

definition applyTCBDataToConnection :: "('d, 'b) StreamConn \<Rightarrow> TCBData \<Rightarrow> ('d, 'b) StreamConn" where
  "applyTCBDataToConnection s data =
     (if \<not> FromCache data then s
      else
        let s = (if td_RTT data > 0 then s\<lparr>srtt := td_RTT data, rtt := td_RTT data\<rparr> else s);
            s = (if td_RTTVariance data > 0 then s\<lparr>rttVariance := td_RTTVariance data\<rparr> else s);
            s = (if td_WindowSize data > 0 \<and> td_WindowSize data > cwnd s
                 then let s = s\<lparr>cwnd := td_WindowSize data, ssthresh := td_WindowSize data * 2\<rparr>
                      in if ssthresh s > MaxWindowSize then s\<lparr>ssthresh := MaxWindowSize\<rparr> else s
                 else s)
        in if td_RTT data > 0 \<or> td_RTTVariance data > 0
           then s\<lparr>rto := calculateRTOFromValues (srtt s) (rttVariance s)\<rparr> else s)"

definition saveTCBDataFromConnection :: "('d, 'b) StreamConn \<Rightarrow> TCBData" where
  "saveTCBDataFromConnection s =
     \<lparr>td_RTT = srtt s, td_RTTVariance = rttVariance s, td_WindowSize = cwnd s, FromCache = True\<rparr>"

section \<open>Congestion window\<close>

definition updateCongestionWindow :: "('d, 'b) StreamConn \<Rightarrow> ('d, 'b) StreamConn" where
  "updateCongestionWindow s =
     (if cwnd s < ssthresh s
      then let c = min (cwnd s * 2) (ssthresh s) in s\<lparr>cwnd := c, windowSize := c\<rparr>
      else let c = min (cwnd s + 1) MaxWindowSize in s\<lparr>cwnd := c, windowSize := c\<rparr>)"

definition reduceCongestionWindowLocked :: "('d, 'b) StreamConn \<Rightarrow> ('d, 'b) StreamConn" where
  "reduceCongestionWindowLocked s =
     (let t = max (cwnd s div 2) 2 in s\<lparr>ssthresh := t, cwnd := t, windowSize := t\<rparr>)"

section \<open>Retransmission\<close>

definition retransmitPacketLocked ::
  "('d, 'c, 'k, 'b) env \<Rightarrow> u32 \<Rightarrow> ('d, 'b) conn_world \<Rightarrow> goerror option \<times> ('d, 'b) conn_world" where
  "retransmitPacketLocked env seq sw =
     (let (s, w) = sw in
      case map_of (sentPackets s) seq of
        None \<Rightarrow> (None, (s, w))
      | Some info \<Rightarrow>
          (case SendMessage env (conn_dest s) (localPort s) (remotePort s) (sp_data info) 0 w of
             (Some e, w) \<Rightarrow> (Some (Wrap ''retransmit'' e), (s, w))
           | (None, w) \<Rightarrow>
               (None, (s\<lparr>sentPackets := AList.update seq
                          (info\<lparr>retryCount := retryCount info + 1, sentTime := w_now w\<rparr>) (sentPackets s)\<rparr>, w))))"

text \<open>The loop of \<^verbatim>\<open>handleNACKsLocked\<close>; the flag is \<^verbatim>\<open>retransmitTriggered\<close>.\<close>

fun handleNACKs_loop ::
  "('d, 'c, 'k, 'b) env \<Rightarrow> u32 list \<Rightarrow> bool \<Rightarrow> ('d, 'b) conn_world \<Rightarrow> ('d, 'b) conn_world" where
  "handleNACKs_loop env [] triggered sw = sw"
| "handleNACKs_loop env (nackSeq # nacks) triggered (s, w) =
     (let count = (case map_of (nackCounts s) nackSeq of None \<Rightarrow> 0 | Some c \<Rightarrow> c) + 1;
          s = s\<lparr>nackCounts := AList.update nackSeq count (nackCounts s)\<rparr>
      in if count \<ge> FastRetransmitThreshold
         then let s = (if \<not> triggered then reduceCongestionWindowLocked s else s);
                  (r, s, w) = retransmitPacketLocked env nackSeq (s, w);
                  s = s\<lparr>nackCounts := AList.delete nackSeq (nackCounts s)\<rparr>
              in handleNACKs_loop env nacks True (s, w)
         else handleNACKs_loop env nacks triggered (s, w))"

definition handleNACKsLocked ::
  "('d, 'c, 'k, 'b) env \<Rightarrow> u32 list \<Rightarrow> ('d, 'b) conn_world \<Rightarrow> ('d, 'b) conn_world" where
  "handleNACKsLocked env nacks sw = (if nacks = [] then sw else handleNACKs_loop env nacks False sw)"

definition cleanupAckedPacketsLocked ::
  "u32 \<Rightarrow> u32 \<Rightarrow> u32 list \<Rightarrow> ('d, 'b) StreamConn \<Rightarrow> ('d, 'b) StreamConn" where
  "cleanupAckedPacketsLocked oldAck newAck currentNACKs s =
     (let sent = filter (\<lambda>(q, info). \<not> seqLessThanOrEqual q newAck) (sentPackets s);
          counts = filter (\<lambda>(q, c). q \<in> set currentNACKs \<or> \<not> seqLessThanOrEqual q newAck) (nackCounts s);
          cleaned = length (sentPackets s) - length sent;
          countsCleaned = length (nackCounts s) - length counts;
          s' = s\<lparr>sentPackets := sent, nackCounts := counts\<rparr>
      in if cleaned > 0 \<or> countsCleaned > 0 then broadcast_send s' else s')"

section \<open>Choking and the persist timer\<close>

definition startPersistTimerLocked :: "('d, 'b) StreamConn \<Rightarrow> ('d, 'b) StreamConn" where
  "startPersistTimerLocked s =
     (if persistTimer s then s else s\<lparr>persistStopChan := True, persistTimer := True\<rparr>)"

definition stopPersistTimerLocked :: "('d, 'b) StreamConn \<Rightarrow> ('d, 'b) StreamConn" where
  "stopPersistTimerLocked s =
     (let s = (if persistTimer s then s\<lparr>persistTimer := False\<rparr> else s)
      in if persistStopChan s then s\<lparr>persistStopChan := False\<rparr> else s)"

definition probePacket :: "('d, 'b) StreamConn \<Rightarrow> 'd Packet" where
  "probePacket s = emptyPacket\<lparr>SendStreamID := remoteStreamID s, RecvStreamID := localStreamID s,
     SequenceNum := sendSeq s, AckThrough := recvSeq s - 1, Payload := [0]\<rparr>"

definition sendProbePacketLocked ::
  "('d, 'c, 'k, 'b) env \<Rightarrow> ('d, 'b) conn_world \<Rightarrow> ('d, 'b) conn_world" where
  "sendProbePacketLocked env sw =
     (let (s, w) = sw in
      if conn_closed s then (s, w)
      else case checked (Marshal (e_lib env) (probePacket s)) of
        Inl e \<Rightarrow> (s, w)
      | Inr data \<Rightarrow>
          let s = s\<lparr>sendSeq := sendSeq s + 1\<rparr>;
              (r, w) = SendMessage env (conn_dest s) (localPort s) (remotePort s) data 0 w
          in (s, w))"

text \<open>What the goroutine \<^verbatim>\<open>runPersistTimer\<close> does when its timer fires.\<close>

definition persistTimerFires :: "('d, 'c, 'k, 'b) env \<Rightarrow> ('d, 'b) conn_world \<Rightarrow> ('d, 'b) conn_world" where
  "persistTimerFires env sw =
     (if \<not> choked (fst sw) \<or> conn_closed (fst sw) \<or> \<not> persistTimer (fst sw) then sw
      else sendProbePacketLocked env sw)"

definition handleOptionalDelayLocked :: "instant \<Rightarrow> 'd Packet \<Rightarrow> ('d, 'b) StreamConn \<Rightarrow> ('d, 'b) StreamConn" where
  "handleOptionalDelayLocked now pkt s =
     (if Flags pkt AND FlagDelayRequested = 0 then s
      else if OptionalDelay pkt \<ge> MinDelayChoke then
        let wasChoked = choked s;
            s = s\<lparr>choked := True, chokedUntil := Some (now + Second)\<rparr>
        in if \<not> wasChoked then startPersistTimerLocked s else s
      else
        let wasChoked = choked s;
            s = s\<lparr>choked := False, chokedUntil := None\<rparr>
        in if wasChoked then broadcast_send (stopPersistTimerLocked s) else s)"

section \<open>Acknowledgements\<close>

definition handleAckLocked ::
  "('d, 'c, 'k, 'b) env \<Rightarrow> 'd Packet \<Rightarrow> ('d, 'b) conn_world \<Rightarrow> ('d, 'b) conn_world" where
  "handleAckLocked env pkt sw =
     (let (s, w) = sw;
          s = (if Flags pkt AND FlagNoACK \<noteq> 0 then s
               else if seqGreaterThan (AckThrough pkt) (ackThrough s) then
                 let oldAck = ackThrough s;
                     s = s\<lparr>ackThrough := AckThrough pkt\<rparr>;
                     s = measureRTTFromAck (w_now w) (AckThrough pkt) s;
                     s = cleanupAckedPacketsLocked oldAck (AckThrough pkt) (NACKs pkt) s
                 in updateCongestionWindow s
               else s);
          (s, w) = handleNACKsLocked env (NACKs pkt) (s, w)
      in (handleOptionalDelayLocked (w_now w) pkt s, w))"

section \<open>Time-out retransmission\<close>

definition findTimedOutPacketsLocked :: "('d, 'c, 'k, 'b) env \<Rightarrow> ('d, 'b) conn_world \<Rightarrow> u32 list" where
  "findTimedOutPacketsLocked env sw =
     (let (s, w) = sw in
      filter (\<lambda>seq. case map_of (sentPackets s) seq of None \<Rightarrow> False
                    | Some info \<Rightarrow> w_now w - sentTime info > rto s)
        (e_order env (length (w_attempts w)) (map fst (sentPackets s))))"

definition applyExponentialBackoffLocked :: "('d, 'b) StreamConn \<Rightarrow> ('d, 'b) StreamConn" where
  "applyExponentialBackoffLocked s =
     (let s = s\<lparr>rto := rto s * 2\<rparr> in if rto s > MaxRTO then s\<lparr>rto := MaxRTO\<rparr> else s)"

fun retransmitTimedOutPacketsLocked ::
  "('d, 'c, 'k, 'b) env \<Rightarrow> u32 list \<Rightarrow> ('d, 'b) conn_world \<Rightarrow> goerror option \<times> ('d, 'b) conn_world" where
  "retransmitTimedOutPacketsLocked env [] sw = (None, sw)"
| "retransmitTimedOutPacketsLocked env (seq # seqs) sw =
     (case map_of (sentPackets (fst sw)) seq of
        None \<Rightarrow> (Some (Errorf ''panic'' []), sw)
      | Some info \<Rightarrow>
          if retryCount info \<ge> MaxRetransmissions
          then (Some (Errorf ''max retransmissions exceeded for packet'' [uint seq]), sw)
          else case retransmitPacketLocked env seq sw of
            (_, sw) \<Rightarrow> retransmitTimedOutPacketsLocked env seqs sw)"

definition checkRetransmissions ::
  "('d, 'c, 'k, 'b) env \<Rightarrow> ('d, 'b) conn_world \<Rightarrow> goerror option \<times> ('d, 'b) conn_world" where
  "checkRetransmissions env sw =
     (if rto (fst sw) = 0 then (None, sw)
      else
        let timedOutSeqs = findTimedOutPacketsLocked env sw in
        if length timedOutSeqs = 0 then (None, sw)
        else retransmitTimedOutPacketsLocked env timedOutSeqs (applyExponentialBackoffLocked (fst sw), snd sw))"

section \<open>Callbacks of the message tracker\<close>

definition handleMessageDelivered :: "u32 \<Rightarrow> ('d, 'b) StreamConn \<Rightarrow> ('d, 'b) StreamConn" where
  "handleMessageDelivered seqNum s =
     (case map_of (sentPackets s) seqNum of
        None \<Rightarrow> s
      | Some _ \<Rightarrow> s\<lparr>sentPackets := AList.delete seqNum (sentPackets s)\<rparr>)"

definition handleMessageFailed ::
  "('d, 'c, 'k, 'b) env \<Rightarrow> u32 \<Rightarrow> bool \<Rightarrow> ('d, 'b) conn_world \<Rightarrow> ('d, 'b) conn_world" where
  "handleMessageFailed env seqNum retriable sw =
     (let (s, w) = sw in
      if conn_closed s then (s, w)
      else if \<not> retriable then (s, w)
      else case map_of (sentPackets s) seqNum of
        None \<Rightarrow> (s, w)
      | Some info \<Rightarrow>
          let info = info\<lparr>retryCount := retryCount info + 1\<rparr>;
              s = s\<lparr>sentPackets := AList.update seqNum info (sentPackets s)\<rparr>
          in if retryCount info \<le> MaxRetransmissions
             then (s, snd (sendViaI2CP env s (sp_data info) w)) else (s, w))"

section \<open>What the helpers change\<close>

lemma calculateRTO_bounds: "MinRTO \<le> rto (calculateRTO s) \<and> rto (calculateRTO s) \<le> MaxRTO"
  by (simp add: calculateRTO_def Let_def MinRTO_def MaxRTO_def)

lemma calculateRTOFromValues_bounds: "MinRTO \<le> calculateRTOFromValues a b \<and> calculateRTOFromValues a b \<le> MaxRTO"
  by (simp add: calculateRTOFromValues_def Let_def MinRTO_def MaxRTO_def)

lemma backoff_bounds:
  "MinRTO \<le> rto s \<Longrightarrow> MinRTO \<le> rto (applyExponentialBackoffLocked s) \<and> rto (applyExponentialBackoffLocked s) \<le> MaxRTO"
  by (simp add: applyExponentialBackoffLocked_def Let_def MinRTO_def MaxRTO_def)

lemma SendMessage_world:
  "SendMessage env d lp rp data n w = (r, w') \<Longrightarrow> w_now w' = w_now w \<and> w_msgTracker w' = w_msgTracker w"
  by (auto simp: SendMessage_def Let_def)

text \<open>Window arithmetic on 32-bit words never wraps below the maximum of 128 packets.\<close>

definition window_ok :: "u32 \<Rightarrow> bool" where
  "window_ok c \<longleftrightarrow> 1 \<le> c \<and> c \<le> MaxWindowSize"

lemma window_ok_nat: "window_ok c \<longleftrightarrow> 1 \<le> unat c \<and> unat c \<le> 128"
  by (simp add: window_ok_def MaxWindowSize_def word_le_nat_alt)

lemma unat_double: "unat c \<le> 128 \<Longrightarrow> unat (c * 2 :: u32) = unat c * 2"
  by (subst unat_mult_lem [THEN iffD1]) simp_all

lemma unat_succ: "unat c \<le> 128 \<Longrightarrow> unat (c + 1 :: u32) = unat c + 1"
  by (rule unat_Suc_u32) simp

lemma unat_min: "unat (min a b :: u32) = min (unat a) (unat b)"
  by (simp add: min_def word_le_nat_alt)

lemma unat_max: "unat (max a b :: u32) = max (unat a) (unat b)"
  by (simp add: max_def word_le_nat_alt)

definition cc_inv :: "('d, 'b) StreamConn \<Rightarrow> bool" where
  "cc_inv s \<longleftrightarrow> window_ok (cwnd s) \<and> window_ok (ssthresh s) \<and> 2 \<le> ssthresh s \<and>
     MinRTO \<le> rto s \<and> rto s \<le> MaxRTO"

lemma cc_inv_update: "cc_inv s \<Longrightarrow> cc_inv (updateCongestionWindow s)"
  by (auto simp: cc_inv_def updateCongestionWindow_def Let_def window_ok_nat unat_min unat_double unat_succ
      MaxWindowSize_def word_le_nat_alt)

lemma reduce_nat:
  assumes "unat c \<le> 128"
  shows "unat (max (c div 2) 2 :: u32) \<le> 128" and "2 \<le> unat (max (c div 2) 2 :: u32)"
  using assms by (auto simp: unat_max unat_div)

lemma cc_inv_reduce: "cc_inv s \<Longrightarrow> cc_inv (reduceCongestionWindowLocked s)"
  using reduce_nat [of "cwnd s"]
  by (auto simp: cc_inv_def reduceCongestionWindowLocked_def Let_def window_ok_nat word_le_nat_alt)

lemma cc_inv_rto: "cc_inv s \<Longrightarrow> cc_inv (calculateRTO (updateRTTEstimate r s))"
proof -
  have "cwnd (calculateRTO (updateRTTEstimate r s)) = cwnd s"
    "ssthresh (calculateRTO (updateRTTEstimate r s)) = ssthresh s"
    by (simp_all add: calculateRTO_def updateRTTEstimate_def Let_def)
  then show "cc_inv s \<Longrightarrow> ?thesis" by (simp add: cc_inv_def calculateRTO_bounds)
qed

lemma cc_inv_cong:
  "cwnd s' = cwnd s \<Longrightarrow> ssthresh s' = ssthresh s \<Longrightarrow> rto s' = rto s \<Longrightarrow> cc_inv s' = cc_inv s"
  by (simp add: cc_inv_def)

text \<open>
  Frame lemmas: which fields a handler may change, as the record update it performs.
\<close>

lemma map_fst_update_known:
  "map_of xs k = Some v \<Longrightarrow> map fst (AList.update k v' xs) = map fst xs"
  by (metis map_of_eq_None_iff option.distinct(1) set_map update_keys)

lemma retransmit_frame:
  assumes "retransmitPacketLocked env q (s, w) = (r, s', w')"
  obtains sp where "s' = s\<lparr>sentPackets := sp\<rparr>" and "map fst sp = map fst (sentPackets s)"
    and "w_now w' = w_now w"
proof (cases "map_of (sentPackets s) q")
  case None
  with assms that [of "sentPackets s"] show ?thesis by (simp add: retransmitPacketLocked_def)
next
  case (Some info)
  obtain r1 w1 where sm: "SendMessage env (conn_dest s) (localPort s) (remotePort s) (sp_data info) 0 w = (r1, w1)"
    by (metis surj_pair)
  show ?thesis
  proof (cases r1)
    case None
    let ?sp = "AList.update q (info\<lparr>retryCount := retryCount info + 1, sentTime := w_now w1\<rparr>) (sentPackets s)"
    have "s' = s\<lparr>sentPackets := ?sp\<rparr>" "w' = w1"
      using assms Some sm None by (auto simp: retransmitPacketLocked_def)
    with map_fst_update_known [OF Some] SendMessage_world [OF sm] that show ?thesis by blast
  next
    case (Some e)
    with assms \<open>map_of (sentPackets s) q = Some info\<close> sm that [of "sentPackets s"] SendMessage_world [OF sm]
    show ?thesis by (simp add: retransmitPacketLocked_def)
  qed
qed

lemma handleNACKs_loop_frame:
  assumes "handleNACKs_loop env nacks tr (s, w) = (s', w')"
  shows "\<exists>sp nc c t v. s' = s\<lparr>sentPackets := sp, nackCounts := nc, cwnd := c, ssthresh := t, windowSize := v\<rparr> \<and>
    map fst sp = map fst (sentPackets s) \<and> w_now w' = w_now w \<and> (cc_inv s \<longrightarrow> cc_inv s')"
  using assms
proof (induction nacks arbitrary: tr s w)
  case Nil
  then show ?case
    by (intro exI [of _ "sentPackets s"] exI [of _ "nackCounts s"] exI [of _ "cwnd s"]
        exI [of _ "ssthresh s"] exI [of _ "windowSize s"]) auto
next
  case (Cons q nacks)
  define count where "count = (case map_of (nackCounts s) q of None \<Rightarrow> 0 | Some c \<Rightarrow> c) + (1 :: int)"
  define s1 where "s1 = s\<lparr>nackCounts := AList.update q count (nackCounts s)\<rparr>"
  define s2 where "s2 = (if \<not> tr then reduceCongestionWindowLocked s1 else s1)"
  have inv1: "cc_inv s1 = cc_inv s" by (rule cc_inv_cong) (simp_all add: s1_def)
  have inv2: "cc_inv s \<Longrightarrow> cc_inv s2" using inv1 cc_inv_reduce by (auto simp: s2_def)
  have "s2 = s\<lparr>nackCounts := nackCounts s2, cwnd := cwnd s2, ssthresh := ssthresh s2, windowSize := windowSize s2\<rparr>"
    by (simp add: s2_def s1_def reduceCongestionWindowLocked_def Let_def)
  then obtain nc2 c2 t2 v2 where s2: "s2 = s\<lparr>nackCounts := nc2, cwnd := c2, ssthresh := t2, windowSize := v2\<rparr>"
    by blast
  show ?case
  proof (cases "count \<ge> FastRetransmitThreshold")
    case True
    obtain r s3 w3 where rt: "retransmitPacketLocked env q (s2, w) = (r, s3, w3)" by (metis prod_cases3)
    obtain sp where s3: "s3 = s2\<lparr>sentPackets := sp\<rparr>" "map fst sp = map fst (sentPackets s2)" "w_now w3 = w_now w"
      using retransmit_frame [OF rt] .
    let ?s4 = "s3\<lparr>nackCounts := AList.delete q (nackCounts s3)\<rparr>"
    have inv4: "cc_inv s \<Longrightarrow> cc_inv ?s4" using inv2 cc_inv_cong [of ?s4 s2] by (simp add: s3)
    have "handleNACKs_loop env nacks True (?s4, w3) = (s', w')"
      using Cons.prems True rt [unfolded s2_def s1_def] by (simp add: count_def [symmetric] Let_def)
    from Cons.IH [OF this] obtain sp' nc c t v where e: "s' = ?s4\<lparr>sentPackets := sp', nackCounts := nc, cwnd := c,
        ssthresh := t, windowSize := v\<rparr>" and k: "map fst sp' = map fst (sentPackets ?s4)"
      and n: "w_now w' = w_now w3" and i: "cc_inv ?s4 \<longrightarrow> cc_inv s'" by blast
    have "s' = s\<lparr>sentPackets := sp', nackCounts := nc, cwnd := c, ssthresh := t, windowSize := v\<rparr>"
      unfolding e s3(1) s2 by simp
    moreover have "map fst sp' = map fst (sentPackets s)" using k by (simp add: s3 s2)
    moreover have "w_now w' = w_now w" using n s3(3) by simp
    ultimately show ?thesis using i inv4 by blast
  next
    case False
    then have "handleNACKs_loop env nacks tr (s1, w) = (s', w')"
      using Cons.prems by (simp add: count_def [symmetric] s1_def [symmetric] Let_def)
    from Cons.IH [OF this] obtain sp' nc c t v where e: "s' = s1\<lparr>sentPackets := sp', nackCounts := nc, cwnd := c,
        ssthresh := t, windowSize := v\<rparr>" and k: "map fst sp' = map fst (sentPackets s1)"
      and n: "w_now w' = w_now w" and i: "cc_inv s1 \<longrightarrow> cc_inv s'" by blast
    have "s' = s\<lparr>sentPackets := sp', nackCounts := nc, cwnd := c, ssthresh := t, windowSize := v\<rparr>"
      unfolding e s1_def by simp
    moreover have "map fst sp' = map fst (sentPackets s)" using k by (simp add: s1_def)
    ultimately show ?thesis using i inv1 n by blast
  qed
qed

text \<open>The fields of the receiving side, and those that identify the connection and its state.\<close>

definition rx_same :: "('d, 'b) StreamConn \<Rightarrow> ('d, 'b) StreamConn \<Rightarrow> bool" where
  "rx_same s s' \<longleftrightarrow> recvSeq s' = recvSeq s \<and> outOfOrderPackets s' = outOfOrderPackets s \<and>
     nackList s' = nackList s \<and> recvBuf s' = recvBuf s \<and> totalBytesReceived s' = totalBytesReceived s \<and>
     sendingChoke s' = sendingChoke s \<and> lastBufferCheck s' = lastBufferCheck s"

definition id_same :: "('d, 'b) StreamConn \<Rightarrow> ('d, 'b) StreamConn \<Rightarrow> bool" where
  "id_same s s' \<longleftrightarrow> self s' = self s \<and> hasManager s' = hasManager s \<and> conn_dest s' = conn_dest s \<and>
     localPort s' = localPort s \<and> remotePort s' = remotePort s \<and> localStreamID s' = localStreamID s \<and>
     remoteStreamID s' = remoteStreamID s \<and> localMTU s' = localMTU s \<and> remoteMTU s' = remoteMTU s \<and>
     conn_state s' = conn_state s \<and> conn_closed s' = conn_closed s \<and> ctxDone s' = ctxDone s \<and>
     recvChan s' = recvChan s"

definition tx_same :: "('d, 'b) StreamConn \<Rightarrow> ('d, 'b) StreamConn \<Rightarrow> bool" where
  "tx_same s s' \<longleftrightarrow> sendSeq s' = sendSeq s \<and> ackThrough s' = ackThrough s \<and> sentPackets s' = sentPackets s \<and>
     nackCounts s' = nackCounts s \<and> cwnd s' = cwnd s \<and> ssthresh s' = ssthresh s \<and> rto s' = rto s \<and>
     srtt s' = srtt s \<and> rttVariance s' = rttVariance s \<and> choked s' = choked s"

lemmas same_defs = rx_same_def id_same_def tx_same_def

definition newAck :: "'d Packet \<Rightarrow> ('d, 'b) StreamConn \<Rightarrow> bool" where
  "newAck pkt s \<longleftrightarrow> Flags pkt AND FlagNoACK = 0 \<and> seqGreaterThan (AckThrough pkt) (ackThrough s)"

definition ackStep :: "instant \<Rightarrow> 'd Packet \<Rightarrow> ('d, 'b) StreamConn \<Rightarrow> ('d, 'b) StreamConn" where
  "ackStep now pkt s =
     (if newAck pkt s
      then updateCongestionWindow (cleanupAckedPacketsLocked (ackThrough s) (AckThrough pkt) (NACKs pkt)
             (measureRTTFromAck now (AckThrough pkt) (s\<lparr>ackThrough := AckThrough pkt\<rparr>)))
      else s)"

lemma handleAckLocked_eq:
  "handleAckLocked env pkt (s, w) =
     (let (s', w') = handleNACKsLocked env (NACKs pkt) (ackStep (w_now w) pkt s, w)
      in (handleOptionalDelayLocked (w_now w') pkt s', w'))"
  by (simp add: handleAckLocked_def ackStep_def newAck_def Let_def)

lemma ackStep_facts:
  shows "map fst (sentPackets (ackStep now pkt s)) =
      (if newAck pkt s then filter (\<lambda>q. \<not> seqLessThanOrEqual q (AckThrough pkt)) (map fst (sentPackets s))
       else map fst (sentPackets s))"
    and "ackThrough (ackStep now pkt s) = (if newAck pkt s then AckThrough pkt else ackThrough s)"
    and "rx_same s (ackStep now pkt s)" and "id_same s (ackStep now pkt s)"
    and "sendSeq (ackStep now pkt s) = sendSeq s" and "choked (ackStep now pkt s) = choked s"
    and "cc_inv s \<Longrightarrow> cc_inv (ackStep now pkt s)"
proof -
  let ?m = "measureRTTFromAck now (AckThrough pkt) (s\<lparr>ackThrough := AckThrough pkt\<rparr>)"
  let ?c = "cleanupAckedPacketsLocked (ackThrough s) (AckThrough pkt) (NACKs pkt) ?m"
  have m: "sentPackets ?m = sentPackets s" "ackThrough ?m = AckThrough pkt" "rx_same s ?m" "id_same s ?m"
    "sendSeq ?m = sendSeq s" "choked ?m = choked s" "cc_inv s \<Longrightarrow> cc_inv ?m"
    using cc_inv_rto [of "s\<lparr>ackThrough := AckThrough pkt\<rparr>"] cc_inv_cong [of "s\<lparr>ackThrough := AckThrough pkt\<rparr>" s]
    by (auto simp: measureRTTFromAck_def calculateRTO_def updateRTTEstimate_def Let_def same_defs split: option.split)
  have c: "map fst (sentPackets ?c) = filter (\<lambda>q. \<not> seqLessThanOrEqual q (AckThrough pkt)) (map fst (sentPackets s))"
    "ackThrough ?c = AckThrough pkt" "rx_same s ?c" "id_same s ?c" "sendSeq ?c = sendSeq s" "choked ?c = choked s"
    using m by (simp_all add: cleanupAckedPacketsLocked_def broadcast_send_def Let_def filter_map o_def case_prod_unfold same_defs)
  have ci: "cc_inv s \<Longrightarrow> cc_inv ?c"
    using m(7) cc_inv_cong [of ?c ?m] by (simp add: cleanupAckedPacketsLocked_def broadcast_send_def Let_def)
  have u: "sentPackets (updateCongestionWindow t) = sentPackets t" "ackThrough (updateCongestionWindow t) = ackThrough t"
    "rx_same t (updateCongestionWindow t)" "id_same t (updateCongestionWindow t)"
    "sendSeq (updateCongestionWindow t) = sendSeq t" "choked (updateCongestionWindow t) = choked t"
    for t :: "('a, 'b) StreamConn"
    by (simp_all add: updateCongestionWindow_def Let_def same_defs)
  show "map fst (sentPackets (ackStep now pkt s)) =
      (if newAck pkt s then filter (\<lambda>q. \<not> seqLessThanOrEqual q (AckThrough pkt)) (map fst (sentPackets s))
       else map fst (sentPackets s))"
    "ackThrough (ackStep now pkt s) = (if newAck pkt s then AckThrough pkt else ackThrough s)"
    "sendSeq (ackStep now pkt s) = sendSeq s" "choked (ackStep now pkt s) = choked s"
    using c by (simp_all add: ackStep_def u)
  show "rx_same s (ackStep now pkt s)" "id_same s (ackStep now pkt s)"
    using c(3,4) u(3,4) [of ?c] by (auto simp: ackStep_def same_defs)
  show "cc_inv s \<Longrightarrow> cc_inv (ackStep now pkt s)"
    using cc_inv_update [OF ci] by (simp add: ackStep_def)
qed

lemma optionalDelay_facts:
  shows "rx_same s (handleOptionalDelayLocked now pkt s)" and "id_same s (handleOptionalDelayLocked now pkt s)"
    and "cc_inv (handleOptionalDelayLocked now pkt s) = cc_inv s"
    and "sentPackets (handleOptionalDelayLocked now pkt s) = sentPackets s"
    and "ackThrough (handleOptionalDelayLocked now pkt s) = ackThrough s"
    and "sendSeq (handleOptionalDelayLocked now pkt s) = sendSeq s"
  by (simp_all add: handleOptionalDelayLocked_def startPersistTimerLocked_def stopPersistTimerLocked_def
      broadcast_send_def Let_def same_defs cc_inv_def)

lemma handleNACKs_facts:
  assumes "handleNACKsLocked env nacks (s, w) = (s', w')"
  shows "rx_same s s'" and "id_same s s'" and "map fst (sentPackets s') = map fst (sentPackets s)"
    and "ackThrough s' = ackThrough s" and "sendSeq s' = sendSeq s" and "w_now w' = w_now w"
    and "cc_inv s \<Longrightarrow> cc_inv s'"
proof -
  have "\<exists>sp nc c t v. s' = s\<lparr>sentPackets := sp, nackCounts := nc, cwnd := c, ssthresh := t, windowSize := v\<rparr> \<and>
      map fst sp = map fst (sentPackets s) \<and> w_now w' = w_now w \<and> (cc_inv s \<longrightarrow> cc_inv s')"
  proof (cases "nacks = []")
    case True
    with assms show ?thesis
      by (intro exI [of _ "sentPackets s"] exI [of _ "nackCounts s"] exI [of _ "cwnd s"]
        exI [of _ "ssthresh s"] exI [of _ "windowSize s"]) (auto simp: handleNACKsLocked_def)
  next
    case False
    with assms have "handleNACKs_loop env nacks False (s, w) = (s', w')" by (simp add: handleNACKsLocked_def)
    then show ?thesis by (rule handleNACKs_loop_frame)
  qed
  then obtain sp nc c t v where e: "s' = s\<lparr>sentPackets := sp, nackCounts := nc, cwnd := c, ssthresh := t, windowSize := v\<rparr>"
    and k: "map fst sp = map fst (sentPackets s)" "w_now w' = w_now w" "cc_inv s \<longrightarrow> cc_inv s'" by blast
  show "rx_same s s'" "id_same s s'" "map fst (sentPackets s') = map fst (sentPackets s)"
    "ackThrough s' = ackThrough s" "sendSeq s' = sendSeq s" "w_now w' = w_now w"
    using k by (simp_all add: e same_defs)
  show "cc_inv s \<Longrightarrow> cc_inv s'" using k(3) by blast
qed

lemma handleAck_facts:
  assumes "handleAckLocked env pkt (s, w) = (s', w')"
  shows "rx_same s s'" and "id_same s s'" and "sendSeq s' = sendSeq s" and "w_now w' = w_now w"
    and "map fst (sentPackets s') =
      (if newAck pkt s then filter (\<lambda>q. \<not> seqLessThanOrEqual q (AckThrough pkt)) (map fst (sentPackets s))
       else map fst (sentPackets s))"
    and "ackThrough s' = (if newAck pkt s then AckThrough pkt else ackThrough s)"
    and "cc_inv s \<Longrightarrow> cc_inv s'"
proof -
  obtain s1 w1 where n: "handleNACKsLocked env (NACKs pkt) (ackStep (w_now w) pkt s, w) = (s1, w1)"
    by (metis surj_pair)
  have e: "s' = handleOptionalDelayLocked (w_now w1) pkt s1" "w' = w1"
    using assms n by (auto simp: handleAckLocked_eq)
  note a = ackStep_facts [where now = "w_now w" and pkt = pkt and s = s]
  note h = handleNACKs_facts [OF n]
  note d = optionalDelay_facts [where s = s1 and now = "w_now w1" and pkt = pkt]
  show "rx_same s s'" "id_same s s'" "sendSeq s' = sendSeq s" "w_now w' = w_now w"
    using a(3,4,5) h d by (simp_all add: e same_defs)
  show "map fst (sentPackets s') =
      (if newAck pkt s then filter (\<lambda>q. \<not> seqLessThanOrEqual q (AckThrough pkt)) (map fst (sentPackets s))
       else map fst (sentPackets s))"
    "ackThrough s' = (if newAck pkt s then AckThrough pkt else ackThrough s)"
    using a(1,2) h d by (simp_all add: e)
  show "cc_inv s \<Longrightarrow> cc_inv s'" using a(7) h(7) d(3) by (simp add: e)
qed

section \<open>Time-out retransmission\<close>

text \<open>Go visits every key of a map exactly once, in some order.\<close>

definition order_ok :: "('d, 'c, 'k, 'b) env \<Rightarrow> bool" where
  "order_ok env \<longleftrightarrow> (\<forall>n xs. mset (e_order env n xs) = mset xs)"

lemma order_ok_set: "order_ok env \<Longrightarrow> set (e_order env n xs) = set xs"
  by (metis order_ok_def set_mset_mset)

lemma order_ok_distinct: "order_ok env \<Longrightarrow> distinct (e_order env n xs) = distinct xs"
  by (metis order_ok_def mset_eq_imp_distinct_iff)

lemma order_ok_length: "order_ok env \<Longrightarrow> length (e_order env n xs) = length xs"
  by (metis order_ok_def size_mset)

lemma retransmit_entries:
  assumes "retransmitPacketLocked env q (s, w) = (r, s', w')"
  shows "q' \<noteq> q \<Longrightarrow> map_of (sentPackets s') q' = map_of (sentPackets s) q'"
    and "map_of (sentPackets s) q = Some info \<Longrightarrow>
      w_attempts w' = w_attempts w @ [\<lparr>msg_dest = conn_dest s, msg_protocol = 6, msg_localPort = localPort s,
        msg_remotePort = remotePort s, msg_data = sp_data info, msg_nonce = 0\<rparr>]"
    and "map_of (sentPackets s) q = None \<Longrightarrow> s' = s \<and> w' = w"
  using assms by (auto simp: retransmitPacketLocked_def SendMessage_def Let_def update_conv'
      split: option.splits prod.splits if_splits)

lemma retransmitTimedOut_error_iff:
  assumes "distinct seqs" and "\<forall>q\<in>set seqs. map_of (sentPackets s) q \<noteq> None"
  shows "fst (retransmitTimedOutPacketsLocked env seqs (s, w)) \<noteq> None \<longleftrightarrow>
    (\<exists>q\<in>set seqs. \<exists>info. map_of (sentPackets s) q = Some info \<and> MaxRetransmissions \<le> retryCount info)"
  using assms
proof (induction seqs arbitrary: s w)
  case (Cons q seqs)
  then obtain info where info: "map_of (sentPackets s) q = Some info" by auto
  obtain r s1 w1 where rt: "retransmitPacketLocked env q (s, w) = (r, s1, w1)" by (metis prod_cases3)
  have same: "map_of (sentPackets s1) q' = map_of (sentPackets s) q'" if "q' \<in> set seqs" for q'
    using retransmit_entries(1) [OF rt, of q'] that Cons.prems(1) by fastforce
  show ?case
  proof (cases "MaxRetransmissions \<le> retryCount info")
    case True
    with info show ?thesis by auto
  next
    case False
    have "fst (retransmitTimedOutPacketsLocked env (q # seqs) (s, w)) =
        fst (retransmitTimedOutPacketsLocked env seqs (s1, w1))"
      using info False rt by simp
    moreover have "\<forall>q\<in>set seqs. map_of (sentPackets s1) q \<noteq> None" using Cons.prems(2) same by auto
    ultimately show ?thesis using Cons.IH [of s1 w1] Cons.prems(1) same info False by auto
  qed
qed simp

lemma retransmitTimedOut_frame:
  assumes "retransmitTimedOutPacketsLocked env seqs (s, w) = (r, s', w')"
  shows "\<exists>sp. s' = s\<lparr>sentPackets := sp\<rparr> \<and> map fst sp = map fst (sentPackets s) \<and> w_now w' = w_now w"
  using assms
proof (induction seqs arbitrary: s w)
  case Nil
  then show ?case by (auto intro: exI [of _ "sentPackets s"])
next
  case (Cons q seqs)
  obtain r1 s1 w1 where rt: "retransmitPacketLocked env q (s, w) = (r1, s1, w1)" by (metis prod_cases3)
  obtain sp where s1: "s1 = s\<lparr>sentPackets := sp\<rparr>" "map fst sp = map fst (sentPackets s)" "w_now w1 = w_now w"
    using retransmit_frame [OF rt] .
  show ?case
  proof (cases "s' = s \<and> w' = w")
    case True
    then show ?thesis by (auto intro: exI [of _ "sentPackets s"])
  next
    case False
    then have "retransmitTimedOutPacketsLocked env seqs (s1, w1) = (r, s', w')"
      using Cons.prems rt by (auto split: option.splits if_splits)
    from Cons.IH [OF this] s1 show ?thesis by auto
  qed
qed

lemma backoff_fields [simp]:
  "sentPackets (applyExponentialBackoffLocked s) = sentPackets s"
  "rto (applyExponentialBackoffLocked s) = min (rto s * 2) MaxRTO"
  by (simp_all add: applyExponentialBackoffLocked_def Let_def min_def)

definition timed_out :: "('d, 'b) conn_world \<Rightarrow> sentPacket \<Rightarrow> bool" where
  "timed_out sw info \<longleftrightarrow> w_now (snd sw) - sentTime info > rto (fst sw)"

lemma findTimedOut_set:
  assumes "order_ok env"
  shows "set (findTimedOutPacketsLocked env (s, w)) =
    {q. \<exists>info. map_of (sentPackets s) q = Some info \<and> timed_out (s, w) info}"
  using order_ok_set [OF assms]
  by (auto simp: findTimedOutPacketsLocked_def timed_out_def dest: map_of_SomeD split: option.splits)
    (force dest: map_of_SomeD)

section \<open>Weighted averages\<close>

lemma weighted_between:
  fixes x y :: int and a :: rat
  assumes "0 \<le> a" and "a \<le> 1"
  shows "min x y \<le> trunc (of_int x * (1 - a) + a * of_int y) \<and>
    trunc (of_int x * (1 - a) + a * of_int y) \<le> max x y"
proof (rule trunc_between)
  have l: "of_int (min x y) \<le> (of_int x :: rat)" "of_int (min x y) \<le> (of_int y :: rat)"
    and u: "(of_int x :: rat) \<le> of_int (max x y)" "(of_int y :: rat) \<le> of_int (max x y)"
    by (simp_all only: of_int_le_iff min.cobounded1 min.cobounded2 max.cobounded1 max.cobounded2)
  have "of_int (min x y) = of_int (min x y) * (1 - a) + a * of_int (min x y)" by (simp add: algebra_simps)
  also have "\<dots> \<le> of_int x * (1 - a) + a * of_int y"
    using assms l by (intro add_mono mult_right_mono mult_left_mono) auto
  finally show "of_int (min x y) \<le> of_int x * (1 - a) + a * of_int y" .
  have "of_int x * (1 - a) + a * of_int y \<le> of_int (max x y) * (1 - a) + a * of_int (max x y)"
    using assms u by (intro add_mono mult_right_mono mult_left_mono) auto
  then show "of_int x * (1 - a) + a * of_int y \<le> of_int (max x y)" by (simp add: algebra_simps)
qed

section \<open>Properties\<close>

text \<open>
  A plain acknowledgement frees exactly what it covers: when the unacknowledged packets are a run
  of consecutive sequence numbers (which may wrap around zero) and an ACK for the number at position \<open>j\<close>
  of the run moves \<open>ackThrough\<close>, the packets up to position \<open>j\<close> are no longer held for retransmission and all
  later ones still are, whatever NACKs the packet carries.
\<close>

theorem ack_frees_prefix:
  assumes "map fst (sentPackets s) = map (\<lambda>i. base + of_nat i) [0..<n]" and "n \<le> 2 ^ 31" and "j < 2 ^ 31"
    and "AckThrough pkt = base + of_nat j" and "newAck pkt s"
  shows "map fst (sentPackets (fst (handleAckLocked env pkt (s, w)))) =
    map (\<lambda>i. base + of_nat i) [min n (Suc j)..<n]"
proof -
  obtain s' w' where h: "handleAckLocked env pkt (s, w) = (s', w')" by (metis surj_pair)
  have "map fst (sentPackets s') =
      filter (\<lambda>q. \<not> seqLessThanOrEqual q (base + of_nat j)) (map (\<lambda>i. base + of_nat i) [0..<n])"
    using handleAck_facts(5) [OF h] assms by simp
  also have "\<dots> = map (\<lambda>i. base + of_nat i) (filter (\<lambda>i. j < i) [0..<n])"
    unfolding filter_map using assms(2,3)
    by (intro arg_cong [where f = "map _"] filter_cong) (auto simp: o_def seq.le_window)
  also have "filter (\<lambda>i. j < i) [0..<n] = [min n (Suc j)..<n]"
    by (induction n) auto
  finally show ?thesis by (simp add: h)
qed

definition demo_ack :: "u32 \<Rightarrow> u32 list \<Rightarrow> byte Packet" where
  "demo_ack a nacks = emptyPacket\<lparr>SendStreamID := 22, RecvStreamID := 11, AckThrough := a, NACKs := nacks\<rparr>"

lemma demo_ack_new: "newAck (demo_ack 102 nacks) demo_conn"
  by (simp add: newAck_def demo_ack_def emptyPacket_def seqGreaterThan_def)

theorem ack_frees_prefix_witness:
  "map fst (sentPackets (fst (handleAckLocked demo_env (demo_ack 102 []) (demo_conn, demo_world)))) = [103]"
proof -
  have r: "map (\<lambda>i. 101 + of_nat i) [0..<3] = [101, 102, 103 :: u32]" "[min 3 (Suc 1)..<3] = [2]"
    by (simp_all add: upt_rec)
  show ?thesis
    using ack_frees_prefix [of demo_conn 101 3 1 "demo_ack 102 []" demo_env demo_world] demo_ack_new
    by (simp only: r) (simp add: demo_ack_def)
qed

text \<open>
  Round-trip estimate and time-out: a sample moves the smoothed round-trip time to a value between the
  old one and the sample, and the time-out computed from it always lies between \<open>MinRTO\<close> and \<open>MaxRTO\<close>, as it
  does after a back-off and when it comes from the control-block cache.
\<close>

theorem rtt_rto_bounds:
  assumes "srtt s \<noteq> 0"
  shows "srtt (updateRTTEstimate r s) \<in> {min (srtt s) r..max (srtt s) r} \<and>
    rttVariance (updateRTTEstimate r s) \<in> {min (rttVariance s) \<bar>srtt s - r\<bar>..max (rttVariance s) \<bar>srtt s - r\<bar>} \<and>
    rto (calculateRTO t) \<in> {MinRTO..MaxRTO} \<and> calculateRTOFromValues a b \<in> {MinRTO..MaxRTO} \<and>
    (MinRTO \<le> rto t \<longrightarrow> rto (applyExponentialBackoffLocked t) \<in> {MinRTO..MaxRTO})"
  using assms weighted_between [of "1 / 8" "srtt s" r] weighted_between [of "1 / 4" "rttVariance s" "\<bar>srtt s - r\<bar>"]
    calculateRTO_bounds [of t] calculateRTOFromValues_bounds [of a b] backoff_bounds [of t]
  by (auto simp: updateRTTEstimate_def Let_def abs_if)

theorem rtt_rto_bounds_witness:
  "srtt (updateRTTEstimate 100 (demo_conn\<lparr>srtt := 200\<rparr>)) \<in> {100..200}"
  using rtt_rto_bounds [of "demo_conn\<lparr>srtt := 200\<rparr>" 100 demo_conn 0 0] by simp

text \<open>
  C15. Retransmission gives up exactly at the limit: with Go visiting every tracked packet, a time-out check
  reports an error, which closes the connection, exactly when some timed-out packet has already been
  retransmitted \<open>MaxRetransmissions\<close> times; and whenever a packet has timed out, the time-out is doubled
  up to \<open>MaxRTO\<close>.
\<close>

theorem checkRetransmissions_limit:
  assumes "order_ok env" and "distinct (map fst (sentPackets s))" and "rto s \<noteq> 0"
  shows "(fst (checkRetransmissions env (s, w)) \<noteq> None \<longleftrightarrow>
      (\<exists>q info. map_of (sentPackets s) q = Some info \<and> timed_out (s, w) info \<and>
         MaxRetransmissions \<le> retryCount info)) \<and>
    ((\<exists>q info. map_of (sentPackets s) q = Some info \<and> timed_out (s, w) info) \<longrightarrow>
      rto (fst (snd (checkRetransmissions env (s, w)))) = min (rto s * 2) MaxRTO)"
proof -
  let ?t = "findTimedOutPacketsLocked env (s, w)"
  have d: "distinct ?t"
    using order_ok_distinct [OF assms(1)] assms(2) by (simp add: findTimedOutPacketsLocked_def)
  have k: "\<forall>q\<in>set ?t. map_of (sentPackets (applyExponentialBackoffLocked s)) q \<noteq> None"
    using findTimedOut_set [OF assms(1)] by auto
  show ?thesis
  proof (cases "?t = []")
    case True
    with findTimedOut_set [OF assms(1), of s w] show ?thesis
      by (auto simp: checkRetransmissions_def)
  next
    case False
    then have e: "checkRetransmissions env (s, w) =
        retransmitTimedOutPacketsLocked env ?t (applyExponentialBackoffLocked s, w)"
      using assms(3) by (simp add: checkRetransmissions_def Let_def)
    obtain r s' w' where res: "checkRetransmissions env (s, w) = (r, s', w')" by (metis prod_cases3)
    from retransmitTimedOut_frame [OF this [unfolded e]] have "rto s' = min (rto s * 2) MaxRTO" by auto
    with res retransmitTimedOut_error_iff [OF d k, of env w] findTimedOut_set [OF assms(1), of s w] e
    show ?thesis by auto blast
  qed
qed

lemma demo_order_ok: "order_ok demo_env"
  by (simp add: order_ok_def)

theorem checkRetransmissions_limit_witness:
  "fst (checkRetransmissions demo_env (demo_conn, demo_world\<lparr>w_now := Hour\<rparr>)) = None"
proof -
  have r: "(q, info) \<in> set (sentPackets demo_conn) \<Longrightarrow> retryCount info = 0" for q info
    by (auto simp: demo_conn_def)
  show ?thesis
    using checkRetransmissions_limit [OF demo_order_ok, of demo_conn "demo_world\<lparr>w_now := Hour\<rparr>"]
    by (auto simp: MaxRetransmissions_def dest: r)
qed

text \<open>
  Fast retransmission needs two NACKs: the first NACK of a packet sends nothing and leaves the window
  alone; the second hands the stored packet to I2CP again, halves the window, and forgets the count.
\<close>

theorem second_NACK_retransmits:
  assumes "map_of (nackCounts s) q = None" and "map_of (sentPackets s) q = Some info"
    and "handleNACKsLocked env [q] (s, w) = (s1, w1)" and "handleNACKsLocked env [q] (s1, w2) = (s3, w3)"
  shows "w1 = w \<and> cwnd s1 = cwnd s \<and> cwnd s3 = max (cwnd s div 2) 2 \<and> ssthresh s3 = cwnd s3 \<and>
    map_of (nackCounts s3) q = None \<and>
    w_attempts w3 = w_attempts w2 @ [\<lparr>msg_dest = conn_dest s, msg_protocol = 6, msg_localPort = localPort s,
        msg_remotePort = remotePort s, msg_data = sp_data info, msg_nonce = 0\<rparr>]"
proof -
  have s1: "s1 = s\<lparr>nackCounts := AList.update q 1 (nackCounts s)\<rparr>" "w1 = w"
    using assms(1,3) by (auto simp: handleNACKsLocked_def FastRetransmitThreshold_def)
  let ?s2 = "reduceCongestionWindowLocked (s1\<lparr>nackCounts := AList.update q 2 (nackCounts s1)\<rparr>)"
  have s2: "sentPackets ?s2 = sentPackets s" "conn_dest ?s2 = conn_dest s" "localPort ?s2 = localPort s"
    "remotePort ?s2 = remotePort s" "cwnd ?s2 = max (cwnd s div 2) 2" "ssthresh ?s2 = max (cwnd s div 2) 2"
    by (simp_all add: reduceCongestionWindowLocked_def Let_def s1)
  obtain r s2' w2' where rt: "retransmitPacketLocked env q (?s2, w2) = (r, s2', w2')" by (metis prod_cases3)
  have c1: "map_of (nackCounts s1) q = Some 1" by (simp add: s1 update_conv')
  have e: "s3 = s2'\<lparr>nackCounts := AList.delete q (nackCounts s2')\<rparr>" "w3 = w2'"
    using assms(4) rt c1 by (auto simp: handleNACKsLocked_def FastRetransmitThreshold_def)
  obtain sp where "s2' = ?s2\<lparr>sentPackets := sp\<rparr>" using retransmit_frame [OF rt] .
  then show ?thesis
    using retransmit_entries(2) [OF rt, of info] assms(2) s2 s1 e by (simp add: delete_conv')
qed

lemma demo_sent_102: "map_of (sentPackets demo_conn) 102 = Some \<lparr>sp_data = [1], sentTime = 0, retryCount = 0\<rparr>"
  by (simp add: demo_conn_def)

theorem second_NACK_retransmits_witness:
  "\<exists>s1 w1 s3 w3. handleNACKsLocked demo_env [102] (demo_conn, demo_world) = (s1, w1) \<and>
     handleNACKsLocked demo_env [102] (s1, w1) = (s3, w3) \<and> cwnd s3 = 3 \<and> length (w_attempts w3) = 1"
proof -
  obtain s1 w1 where a: "handleNACKsLocked demo_env [102] (demo_conn, demo_world) = (s1, w1)" by (metis surj_pair)
  obtain s3 w3 where b: "handleNACKsLocked demo_env [102] (s1, w1) = (s3, w3)" by (metis surj_pair)
  have "map_of (nackCounts demo_conn) 102 = None" by simp
  from second_NACK_retransmits [OF this demo_sent_102 a b] a b show ?thesis
    by (auto simp: demo_world_def)
qed

end
