(* ===== verification/Receiver.thy ===== *)
theory Receiver
  imports Congestion
begin

text \<open>
  The receiving side of a connection in \<^verbatim>\<open>stream.go\<close>: in-sequence, duplicate and out-of-order data packets,
  the NACK list, choke signals from the fill level of the ring buffer, and \<^verbatim>\<open>Read\<close>.

  \<^verbatim>\<open>deliverBufferedPacketsLocked\<close> loops until the next expected packet is not buffered; the model gives the
  loop one round per buffered packet, which is enough because every round removes one.  The 0.8 and 0.3
  thresholds compare a quotient by the buffer size 65536, which is exact in \<^verbatim>\<open>float64\<close>, and no byte count lies
  between the threshold and its nearest \<^verbatim>\<open>float64\<close>, so rational comparison decides the same way.
\<close>

section \<open>The NACK list\<close>

definition removeFromNACKListLocked :: "u32 \<Rightarrow> ('d, 'b) StreamConn \<Rightarrow> ('d, 'b) StreamConn" where
  "removeFromNACKListLocked seq s =
     (if seq \<in> set (nackList s) then s\<lparr>nackList := filter (\<lambda>q. q \<noteq> seq) (nackList s)\<rparr> else s)"

definition shouldAddToNACKListLocked :: "u32 \<Rightarrow> ('d, 'b) StreamConn \<Rightarrow> bool" where
  "shouldAddToNACKListLocked seq s =
     (if map_of (outOfOrderPackets s) seq \<noteq> None then False else seq \<notin> set (nackList s))"

definition calculateSequenceGapLocked :: "u32 \<Rightarrow> ('d, 'b) StreamConn \<Rightarrow> u32" where
  "calculateSequenceGapLocked receivedSeq s =
     (let gap = receivedSeq - recvSeq s; maxIterations = of_nat MaxNACKs
      in if gap > maxIterations then maxIterations else gap)"

fun addMissing_loop :: "u32 list \<Rightarrow> ('d, 'b) StreamConn \<Rightarrow> ('d, 'b) StreamConn" where
  "addMissing_loop [] s = s"
| "addMissing_loop (i # is) s =
     (let seq = recvSeq s + i in
      if length (nackList s) \<ge> MaxNACKs then s
      else if shouldAddToNACKListLocked seq s
      then addMissing_loop is (s\<lparr>nackList := nackList s @ [seq]\<rparr>)
      else addMissing_loop is s)"

definition addMissingSequencesToNACKListLocked :: "u32 \<Rightarrow> ('d, 'b) StreamConn \<Rightarrow> ('d, 'b) StreamConn" where
  "addMissingSequencesToNACKListLocked gap s = addMissing_loop (map of_nat [0..<unat gap]) s"

definition updateNACKListLocked :: "u32 \<Rightarrow> ('d, 'b) StreamConn \<Rightarrow> ('d, 'b) StreamConn" where
  "updateNACKListLocked receivedSeq s =
     addMissingSequencesToNACKListLocked (calculateSequenceGapLocked receivedSeq s) s"

section \<open>Choke signals\<close>

definition calculateBufferUsage :: "('d, 'c, 'k, 'b) env \<Rightarrow> ('d, 'b) StreamConn \<Rightarrow> int \<Rightarrow> rat" where
  "calculateBufferUsage env s used = of_int used / of_int (cb_Size (e_circ env) (recvBuf s))"

definition updateChokeStateForUsage ::
  "('d, 'c, 'k, 'b) env \<Rightarrow> rat \<Rightarrow> ('d, 'b) conn_world \<Rightarrow> ('d, 'b) conn_world" where
  "updateChokeStateForUsage env usage sw =
     (if usage > 4 / 5 \<and> \<not> sendingChoke (fst sw) then snd (sendChokeSignalLocked env sw)
      else if usage < 3 / 10 \<and> sendingChoke (fst sw) then snd (sendUnchokeSignalLocked env sw)
      else sw)"

definition manageChokeStateLocked ::
  "('d, 'c, 'k, 'b) env \<Rightarrow> ('d, 'b) conn_world \<Rightarrow> ('d, 'b) conn_world" where
  "manageChokeStateLocked env sw =
     (let (s, w) = sw;
          used = cb_TotalWritten (e_circ env) (recvBuf s)
      in if used = lastBufferCheck s then (s, w)
         else
           let s = s\<lparr>lastBufferCheck := used\<rparr>;
               usage = calculateBufferUsage env s used
           in updateChokeStateForUsage env usage (s, w))"

section \<open>Data packets\<close>

fun deliver_loop :: "('d, 'c, 'k, 'b) env \<Rightarrow> nat \<Rightarrow> ('d, 'b) StreamConn \<Rightarrow> ('d, 'b) StreamConn" where
  "deliver_loop env 0 s = s"
| "deliver_loop env (Suc fuel) s =
     (case map_of (outOfOrderPackets s) (recvSeq s) of
        None \<Rightarrow> s
      | Some pkt \<Rightarrow>
          (case cb_Write (e_circ env) (recvBuf s) (Payload pkt) of
             (n, Some e, b) \<Rightarrow> s\<lparr>recvBuf := b\<rparr>
           | (n, None, b) \<Rightarrow>
               let s = s\<lparr>recvBuf := b, recvSeq := recvSeq s + 1,
                         totalBytesReceived := totalBytesReceived s + of_nat n,
                         outOfOrderPackets := AList.delete (SequenceNum pkt) (outOfOrderPackets s)\<rparr>
               in deliver_loop env fuel (removeFromNACKListLocked (SequenceNum pkt) s)))"

definition deliverBufferedPacketsLocked ::
  "('d, 'c, 'k, 'b) env \<Rightarrow> ('d, 'b) StreamConn \<Rightarrow> ('d, 'b) StreamConn" where
  "deliverBufferedPacketsLocked env s = deliver_loop env (length (outOfOrderPackets s)) s"

definition handleBufferFullLocked ::
  "('d, 'c, 'k, 'b) env \<Rightarrow> 'd Packet \<Rightarrow> u32 \<Rightarrow> ('d, 'b) conn_world \<Rightarrow> ('d, 'b) conn_world" where
  "handleBufferFullLocked env pkt seq sw =
     (let s = (fst sw)\<lparr>outOfOrderPackets := AList.update seq pkt (outOfOrderPackets (fst sw))\<rparr>;
          sw = (s, snd sw);
          sw = (if \<not> sendingChoke s then snd (sendChokeSignalLocked env sw) else sw)
      in snd (sendAckLocked env sw))"

definition processInSequencePacketLocked ::
  "('d, 'c, 'k, 'b) env \<Rightarrow> 'd Packet \<Rightarrow> u32 \<Rightarrow> ('d, 'b) conn_world \<Rightarrow> ('d, 'b) conn_world" where
  "processInSequencePacketLocked env pkt seq sw =
     (let (s, w) = sw in
      case cb_Write (e_circ env) (recvBuf s) (Payload pkt) of
        (n, Some e, b) \<Rightarrow> handleBufferFullLocked env pkt seq (s\<lparr>recvBuf := b\<rparr>, w)
      | (n, None, b) \<Rightarrow>
          let s = s\<lparr>recvBuf := b, recvSeq := recvSeq s + 1,
                    totalBytesReceived := totalBytesReceived s + of_nat n\<rparr>;
              s = removeFromNACKListLocked seq s;
              s = deliverBufferedPacketsLocked env s;
              s = (if Flags pkt AND FlagNoACK = 0 \<and> seqGreaterThan (AckThrough pkt) (ackThrough s)
                   then s\<lparr>ackThrough := AckThrough pkt\<rparr> else s);
              (s, w) = manageChokeStateLocked env (s, w);
              s = broadcast_recv s
          in if \<not> sendingChoke s \<or> length (nackList s) > 0 then snd (sendAckLocked env (s, w)) else (s, w))"

definition handleOutOfOrderPacketLocked ::
  "('d, 'c, 'k, 'b) env \<Rightarrow> 'd Packet \<Rightarrow> u32 \<Rightarrow> ('d, 'b) conn_world \<Rightarrow> ('d, 'b) conn_world" where
  "handleOutOfOrderPacketLocked env pkt seq sw =
     (let (s, w) = sw;
          s = s\<lparr>outOfOrderPackets := AList.update seq pkt (outOfOrderPackets s)\<rparr>;
          s = removeFromNACKListLocked seq s;
          s = updateNACKListLocked seq s
      in snd (sendAckLocked env (s, w)))"

definition handleDataLocked ::
  "('d, 'c, 'k, 'b) env \<Rightarrow> 'd Packet \<Rightarrow> ('d, 'b) conn_world \<Rightarrow> ('d, 'b) conn_world" where
  "handleDataLocked env pkt sw =
     (let seq = SequenceNum pkt in
      if seq = recvSeq (fst sw) then processInSequencePacketLocked env pkt seq sw
      else if seqLessThan seq (recvSeq (fst sw)) then sw
      else handleOutOfOrderPacketLocked env pkt seq sw)"

section \<open>Read\<close>

definition deadlineExceeded :: "instant option \<Rightarrow> instant \<Rightarrow> bool" where
  "deadlineExceeded deadline now = (case deadline of None \<Rightarrow> False | Some t \<Rightarrow> now > t)"

definition validateReadStateLocked :: "('d, 'c, 'k, 'b) env \<Rightarrow> ('d, 'b) StreamConn \<Rightarrow> goerror option" where
  "validateReadStateLocked env s =
     (if conn_closed s \<and> cb_TotalWritten (e_circ env) (recvBuf s) = 0 then Some EOF else None)"

definition checkReadDeadlineLocked :: "('d, 'b) conn_world \<Rightarrow> goerror option" where
  "checkReadDeadlineLocked sw =
     (if deadlineExceeded (readDeadline (fst sw)) (w_now (snd sw)) then Some TimeoutError else None)"

text \<open>
  \<^verbatim>\<open>waitForReadDataLocked\<close>: each \<^verbatim>\<open>recvCond.Wait\<close> releases the lock, and what the other goroutines do to the
  connection until the wake-up is the next function of the list; when the list is used up the reader is
  still blocked (\<open>None\<close>).  \<^verbatim>\<open>setupReadTimer\<close> returns no timer when the deadline is not in the future.
\<close>

fun waitForReadDataLocked ::
  "('d, 'c, 'k, 'b) env \<Rightarrow> (('d, 'b) conn_world \<Rightarrow> ('d, 'b) conn_world) list \<Rightarrow> ('d, 'b) conn_world \<Rightarrow>
     (goerror option \<times> ('d, 'b) conn_world) option" where
  "waitForReadDataLocked env waits sw =
     (if \<not> (cb_TotalWritten (e_circ env) (recvBuf (fst sw)) = 0 \<and> \<not> conn_closed (fst sw)) then Some (None, sw)
      else if checkReadDeadlineLocked sw \<noteq> None then Some (checkReadDeadlineLocked sw, sw)
      else if (case readDeadline (fst sw) of None \<Rightarrow> False | Some t \<Rightarrow> t - w_now (snd sw) \<le> 0)
      then Some (Some TimeoutError, sw)
      else case waits of
        [] \<Rightarrow> None
      | f # fs \<Rightarrow>
          let sw = f sw in
          if checkReadDeadlineLocked sw \<noteq> None then Some (checkReadDeadlineLocked sw, sw)
          else waitForReadDataLocked env fs sw)"

text \<open>\<^verbatim>\<open>consumeBufferDataLocked\<close> for a caller's buffer of \<open>len\<close> bytes: the bytes copied into it.\<close>

definition consumeBufferDataLocked ::
  "('d, 'c, 'k, 'b) env \<Rightarrow> nat \<Rightarrow> ('d, 'b) StreamConn \<Rightarrow> byte list \<times> goerror option \<times> ('d, 'b) StreamConn" where
  "consumeBufferDataLocked env len s =
     (let data = cb_Bytes (e_circ env) (recvBuf s);
          n = min len (length data);
          s = s\<lparr>recvBuf := cb_Reset (e_circ env) (recvBuf s)\<rparr>
      in if n < length data
         then case cb_Write (e_circ env) (recvBuf s) (drop n data) of
             (_, Some e, b) \<Rightarrow> (take n data, Some (Wrap ''write remaining data'' e), s\<lparr>recvBuf := b\<rparr>)
           | (_, None, b) \<Rightarrow> (take n data, None, s\<lparr>recvBuf := b\<rparr>)
         else (take n data, None, s))"

definition handlePostReadActionsLocked ::
  "('d, 'c, 'k, 'b) env \<Rightarrow> ('d, 'b) conn_world \<Rightarrow> ('d, 'b) conn_world" where
  "handlePostReadActionsLocked env sw =
     (let (s, w) = sw;
          s = (if length (outOfOrderPackets s) > 0 then deliverBufferedPacketsLocked env s else s)
      in if sendingChoke s
         then let usage = of_int (cb_TotalWritten (e_circ env) (recvBuf s)) / of_int (cb_Size (e_circ env) (recvBuf s))
              in if usage < (3 / 10 :: rat) then snd (sendUnchokeSignalLocked env (s, w)) else (s, w)
         else (s, w))"

definition conn_Read ::
  "('d, 'c, 'k, 'b) env \<Rightarrow> (('d, 'b) conn_world \<Rightarrow> ('d, 'b) conn_world) list \<Rightarrow> nat \<Rightarrow> ('d, 'b) conn_world \<Rightarrow>
     (byte list \<times> goerror option \<times> ('d, 'b) conn_world) option" where
  "conn_Read env waits len sw =
     (case validateReadStateLocked env (fst sw) of
        Some e \<Rightarrow> Some ([], Some e, sw)
      | None \<Rightarrow>
     (case waitForReadDataLocked env waits sw of
        None \<Rightarrow> None
      | Some (Some e, sw) \<Rightarrow> Some ([], Some e, sw)
      | Some (None, sw) \<Rightarrow>
     (case validateReadStateLocked env (fst sw) of
        Some e \<Rightarrow> Some ([], Some e, sw)
      | None \<Rightarrow>
     (case consumeBufferDataLocked env len (fst sw) of
        (data, Some e, s) \<Rightarrow> Some (data, Some e, (s, snd sw))
      | (data, None, s) \<Rightarrow> Some (data, None, handlePostReadActionsLocked env (s, snd sw))))))"

section \<open>Frames of the control packets\<close>

text \<open>The part of the state that data packets and reads are about.\<close>

definition core :: "('d, 'b) StreamConn \<Rightarrow> u32 \<times> (u32, 'd Packet) gomap \<times> u32 list \<times> 'b" where
  "core s = (recvSeq s, outOfOrderPackets s, nackList s, recvBuf s)"

lemma sendVia_now: "sendViaI2CPWithTracking env s data q d w = (r, w') \<Longrightarrow> w_now w' = w_now w"
  by (auto simp: sendViaI2CPWithTracking_def SendMessage_def Let_def split: if_splits prod.splits)

lemma sendPacket_control:
  assumes "Payload pkt = []" and "sendPacketLocked env pkt (s, w) = (r, s', w')"
  obtains t where "s' = s\<lparr>lastActivity := t\<rparr>" and "w_now w' = w_now w"
proof (cases "checked (Marshal (e_lib env) pkt)")
  case (Inl e)
  with assms that [of "lastActivity s"] show ?thesis by (simp add: sendPacketLocked_def)
next
  case (Inr data)
  obtain r1 w1 where sv: "sendViaI2CPWithTracking env s data (SequenceNum pkt) False w = (r1, w1)"
    by (metis surj_pair)
  show ?thesis
  proof (cases r1)
    case None
    with assms Inr sv sendVia_now [OF sv] that [of "w_now w1"] show ?thesis
      by (simp add: sendPacketLocked_def trackPacketForRetransmission_def)
  next
    case (Some e)
    with assms Inr sv sendVia_now [OF sv] that [of "lastActivity s"] show ?thesis
      by (simp add: sendPacketLocked_def trackPacketForRetransmission_def)
  qed
qed

lemma withNACKs_payload [simp]: "Payload (withNACKs env sw pkt) = Payload pkt"
  by (simp add: withNACKs_def)

lemma controlPacket_payload [simp]: "Payload (controlPacket s f d) = []"
  by (simp add: controlPacket_def emptyPacket_def)

lemma sendAck_frame:
  assumes "sendAckLocked env (s, w) = (r, s', w')"
  obtains t where "s' = s\<lparr>lastActivity := t\<rparr>" and "w_now w' = w_now w"
  using assms sendPacket_control [of "withNACKs env (s, w) (controlPacket s 0 0)" env s w r s' w']
  by (auto simp: sendAckLocked_def)

lemma sendChoke_frame:
  assumes "sendChokeSignalLocked env (s, w) = (r, s', w')"
  obtains t where "s' = s\<lparr>sendingChoke := True, lastActivity := t\<rparr>" and "w_now w' = w_now w"
  using assms sendPacket_control [of "withNACKs env (s, w) (controlPacket s FlagDelayRequested SendDelayChoke)"
      env "s\<lparr>sendingChoke := True\<rparr>" w r s' w']
  by (auto simp: sendChokeSignalLocked_def)

lemma sendUnchoke_frame:
  assumes "sendUnchokeSignalLocked env (s, w) = (r, s', w')"
  obtains t where "s' = s\<lparr>sendingChoke := False, lastActivity := t\<rparr>" and "w_now w' = w_now w"
  using assms sendPacket_control [of "withNACKs env (s, w) (controlPacket s FlagDelayRequested 0)"
      env "s\<lparr>sendingChoke := False\<rparr>" w r s' w']
  by (auto simp: sendUnchokeSignalLocked_def)

text \<open>Control packets leave the received data, the sender's state and the connection's identity alone.\<close>

definition ctl_same :: "('d, 'b) StreamConn \<Rightarrow> ('d, 'b) StreamConn \<Rightarrow> bool" where
  "ctl_same s s' \<longleftrightarrow> core s' = core s \<and> totalBytesReceived s' = totalBytesReceived s \<and> tx_same s s' \<and> id_same s s'"

lemma ctl_same_refl [simp]: "ctl_same s s"
  by (simp add: ctl_same_def same_defs)

lemma ctl_same_trans [trans]: "ctl_same s t \<Longrightarrow> ctl_same t u \<Longrightarrow> ctl_same s u"
  by (simp add: ctl_same_def same_defs)

lemma ctl_same_fields [simp]:
  "ctl_same s (s\<lparr>lastActivity := t\<rparr>)" "ctl_same s (s\<lparr>sendingChoke := c\<rparr>)" "ctl_same s (s\<lparr>lastBufferCheck := n\<rparr>)"
  "ctl_same s (broadcast_recv s)" "ctl_same s (s\<lparr>sendingChoke := c, lastActivity := t\<rparr>)"
  by (simp_all add: ctl_same_def same_defs core_def broadcast_recv_def)

lemma control_sends_same:
  "ctl_same (fst sw) (fst (snd (sendAckLocked env sw)))"
  "ctl_same (fst sw) (fst (snd (sendChokeSignalLocked env sw)))"
  "ctl_same (fst sw) (fst (snd (sendUnchokeSignalLocked env sw)))"
proof -
  obtain s w where sw: "sw = (s, w)" by fastforce
  show "ctl_same (fst sw) (fst (snd (sendAckLocked env sw)))"
    by (cases "sendAckLocked env sw") (metis sw ctl_same_fields(1) fst_conv prod.collapse sendAck_frame snd_conv)
  show "ctl_same (fst sw) (fst (snd (sendChokeSignalLocked env sw)))"
    by (cases "sendChokeSignalLocked env sw") (metis sw ctl_same_fields(5) fst_conv prod.collapse sendChoke_frame snd_conv)
  show "ctl_same (fst sw) (fst (snd (sendUnchokeSignalLocked env sw)))"
    by (cases "sendUnchokeSignalLocked env sw") (metis sw ctl_same_fields(5) fst_conv prod.collapse sendUnchoke_frame snd_conv)
qed

lemma manageChoke_same: "ctl_same (fst sw) (fst (manageChokeStateLocked env sw))"
proof -
  obtain s w where sw: "sw = (s, w)" by fastforce
  have "ctl_same (fst x) (fst (updateChokeStateForUsage env u x))" for u x
    by (simp add: updateChokeStateForUsage_def control_sends_same)
  from this [of "(s\<lparr>lastBufferCheck := n\<rparr>, w)" for n] have
    "ctl_same s (fst (updateChokeStateForUsage env u (s\<lparr>lastBufferCheck := n\<rparr>, w)))" for u n
    using ctl_same_trans [OF ctl_same_fields(3)] by (metis fst_conv)
  then show ?thesis by (simp add: manageChokeStateLocked_def sw Let_def)
qed

section \<open>The stream invariant\<close>

text \<open>
  A peer's stream: packet \<open>i\<close> has sequence number \<open>base + i\<close> and payload \<open>pl i\<close>, for \<open>i < N\<close> with
  \<open>N \<le> 2 ^ 31\<close>.  The invariant of the receiver relates its state to the number \<open>k\<close> of packets delivered in
  order and to the bytes \<open>u\<close> put into the ring buffer since it was last emptied.
\<close>

definition lastn :: "nat \<Rightarrow> 'a list \<Rightarrow> 'a list" where
  "lastn n xs = drop (length xs - n) xs"

lemma lastn_lastn_append: "lastn n (lastn n u @ v) = lastn n (u @ v)"
proof (cases "length u \<le> n")
  case False
  then have "length v + (length u - n) = length u + length v - n" by simp
  with False show ?thesis by (simp add: lastn_def)
qed (simp add: lastn_def)

lemma lastn_all: "length u \<le> n \<Longrightarrow> lastn n u = u"
  by (simp add: lastn_def)

definition seq_at :: "u32 \<Rightarrow> nat \<Rightarrow> u32" where
  "seq_at base i = base + of_nat i"

lemma seq_at_inj: "i < 2 ^ 31 \<Longrightarrow> j < 2 ^ 31 \<Longrightarrow> seq_at base i = seq_at base j \<longleftrightarrow> i = j"
  by (simp add: seq_at_def seq.inj_window)

lemma seq_at_Suc: "seq_at base i + 1 = seq_at base (Suc i)"
  by (simp add: seq_at_def)

definition stream_packet :: "u32 \<Rightarrow> (nat \<Rightarrow> byte list) \<Rightarrow> nat \<Rightarrow> nat \<Rightarrow> 'd Packet \<Rightarrow> bool" where
  "stream_packet base pl N i p \<longleftrightarrow> i < N \<and> SequenceNum p = seq_at base i \<and> Payload p = pl i"

definition rx_inv :: "('d, 'c, 'k, 'b) env \<Rightarrow> u32 \<Rightarrow> (nat \<Rightarrow> byte list) \<Rightarrow> nat \<Rightarrow> int \<Rightarrow> nat \<Rightarrow> byte list \<Rightarrow>
    ('d, 'b) StreamConn \<Rightarrow> bool" where
  "rx_inv env base pl N sz k u s \<longleftrightarrow>
     k \<le> N \<and> recvSeq s = seq_at base k \<and> distinct (map fst (outOfOrderPackets s)) \<and>
     (\<forall>(q, p)\<in>set (outOfOrderPackets s). SequenceNum p = q \<and> (\<exists>i. k \<le> i \<and> stream_packet base pl N i p)) \<and>
     cb_Size (e_circ env) (recvBuf s) = sz \<and> cb_Bytes (e_circ env) (recvBuf s) = lastn (nat sz) u \<and>
     cb_TotalWritten (e_circ env) (recvBuf s) = int (length u) \<and>
     distinct (nackList s) \<and> length (nackList s) \<le> MaxNACKs \<and>
     (\<forall>q\<in>set (nackList s). q \<notin> fst ` set (outOfOrderPackets s) \<and> (\<exists>i. k \<le> i \<and> i < N \<and> q = seq_at base i))"

definition buffered :: "('d, 'b) StreamConn \<Rightarrow> u32 set" where
  "buffered s = fst ` set (outOfOrderPackets s)"

lemma rx_inv_core: "core s' = core s \<Longrightarrow> rx_inv env base pl N sz k u s' = rx_inv env base pl N sz k u s"
  by (simp add: rx_inv_def core_def)

lemma circ_write:
  assumes "circ_ok cb"
  obtains b' where "cb_Write cb b xs = (length xs, None, b')"
    and "cb_Size cb b' = cb_Size cb b" and "cb_TotalWritten cb b' = cb_TotalWritten cb b + int (length xs)"
    and "\<And>u. cb_Bytes cb b = lastn (nat (cb_Size cb b)) u \<Longrightarrow> cb_Bytes cb b' = lastn (nat (cb_Size cb b)) (u @ xs)"
proof -
  from assms obtain b' where w: "cb_Write cb b xs = (length xs, None, b')"
    and b: "cb_Bytes cb b' = lastn (nat (cb_Size cb b)) (cb_Bytes cb b @ xs)"
    and t: "cb_TotalWritten cb b' = cb_TotalWritten cb b + int (length xs)" "cb_Size cb b' = cb_Size cb b"
    unfolding circ_ok_def lastn_def by blast
  show ?thesis by (rule that [OF w t(2) t(1)]) (simp add: b lastn_lastn_append)
qed

text \<open>Writing the next payload and forgetting its number keeps the invariant.\<close>

lemma rx_inv_advance:
  assumes inv: "rx_inv env base pl N sz k u s" and "k < N" and "N \<le> 2 ^ 31"
    and b: "cb_Size (e_circ env) b = sz" "cb_Bytes (e_circ env) b = lastn (nat sz) (u @ pl k)"
      "cb_TotalWritten (e_circ env) b = int (length (u @ pl k))"
  shows "rx_inv env base pl N sz (Suc k) (u @ pl k)
    (removeFromNACKListLocked (seq_at base k) (s\<lparr>recvBuf := b, recvSeq := recvSeq s + 1, totalBytesReceived := t,
       outOfOrderPackets := AList.delete (seq_at base k) (outOfOrderPackets s)\<rparr>))"
proof -
  define s1 where "s1 = removeFromNACKListLocked (seq_at base k) (s\<lparr>recvBuf := b, recvSeq := recvSeq s + 1,
    totalBytesReceived := t, outOfOrderPackets := AList.delete (seq_at base k) (outOfOrderPackets s)\<rparr>)"
  have later: "Suc k \<le> i" if "k \<le> i" "i < N" "seq_at base i \<noteq> seq_at base k" for i
    using that by (cases "i = k") auto
  have r: "recvSeq s1 = seq_at base (Suc k)"
    "outOfOrderPackets s1 = AList.delete (seq_at base k) (outOfOrderPackets s)" "recvBuf s1 = b"
    "nackList s1 = filter (\<lambda>q. q \<noteq> seq_at base k) (nackList s)"
    using inv by (auto simp: s1_def removeFromNACKListLocked_def rx_inv_def seq_at_Suc filter_id_conv intro!: filter_True [symmetric])
  have p: "SequenceNum p = q \<and> (\<exists>i. Suc k \<le> i \<and> stream_packet base pl N i p)"
    if "(q, p) \<in> set (outOfOrderPackets s1)" for q p
  proof -
    from that have m: "(q, p) \<in> set (outOfOrderPackets s)" "q \<noteq> seq_at base k"
      unfolding r by (auto simp: AList.delete_eq)
    with inv obtain i where "SequenceNum p = q" "k \<le> i" "stream_packet base pl N i p"
      by (auto simp: rx_inv_def)
    with m(2) later [of i] show ?thesis by (auto simp: stream_packet_def)
  qed
  have nl: "q \<notin> fst ` set (outOfOrderPackets s1) \<and> (\<exists>i. Suc k \<le> i \<and> i < N \<and> q = seq_at base i)"
    if "q \<in> set (nackList s1)" for q
  proof -
    from that inv obtain i where "k \<le> i" "i < N" "q = seq_at base i" "q \<noteq> seq_at base k"
      "q \<notin> fst ` set (outOfOrderPackets s)" by (auto simp: rx_inv_def r)
    with later [of i] show ?thesis using dom_delete_subset [of "seq_at base k" "outOfOrderPackets s"]
      by (auto simp: r)
  qed
  have "length (nackList s1) \<le> MaxNACKs" "distinct (nackList s1)"
    using inv by (auto simp: r rx_inv_def intro: order_trans [OF length_filter_le])
  moreover have "distinct (map fst (outOfOrderPackets s1))"
    using inv by (simp add: r rx_inv_def distinct_delete)
  ultimately show ?thesis
    unfolding s1_def [symmetric] rx_inv_def using p nl r(1,3) b \<open>k < N\<close> by auto
qed

lemma rx_inv_write:
  assumes "circ_ok (e_circ env)" and "rx_inv env base pl N sz k u s"
  obtains b where "cb_Write (e_circ env) (recvBuf s) xs = (length xs, None, b)"
    and "cb_Size (e_circ env) b = sz" and "cb_Bytes (e_circ env) b = lastn (nat sz) (u @ xs)"
    and "cb_TotalWritten (e_circ env) b = int (length (u @ xs))"
proof -
  from circ_write [OF assms(1)] obtain b where
    w: "cb_Write (e_circ env) (recvBuf s) xs = (length xs, None, b)"
    and b: "cb_Size (e_circ env) b = cb_Size (e_circ env) (recvBuf s)"
    and t: "cb_TotalWritten (e_circ env) b = cb_TotalWritten (e_circ env) (recvBuf s) + int (length xs)"
    and y: "\<And>u. cb_Bytes (e_circ env) (recvBuf s) = lastn (nat (cb_Size (e_circ env) (recvBuf s))) u \<Longrightarrow>
      cb_Bytes (e_circ env) b = lastn (nat (cb_Size (e_circ env) (recvBuf s))) (u @ xs)" by blast
  have "cb_Size (e_circ env) (recvBuf s) = sz" "cb_Bytes (e_circ env) (recvBuf s) = lastn (nat sz) u"
    "cb_TotalWritten (e_circ env) (recvBuf s) = int (length u)"
    using assms(2) by (simp_all add: rx_inv_def)
  with that [OF w] b t y [of u] show ?thesis by simp
qed

lemma rx_inv_next:
  assumes "rx_inv env base pl N sz k u s" and "N \<le> 2 ^ 31" and "map_of (outOfOrderPackets s) (recvSeq s) = Some pkt"
  shows "k < N" and "SequenceNum pkt = seq_at base k" and "Payload pkt = pl k"
proof -
  have "(seq_at base k, pkt) \<in> set (outOfOrderPackets s)"
    using map_of_SomeD [OF assms(3)] assms(1) by (simp add: rx_inv_def)
  with assms(1) obtain i where p: "SequenceNum pkt = seq_at base k" "k \<le> i" "stream_packet base pl N i pkt"
    by (auto simp: rx_inv_def)
  then have i: "i < N" "seq_at base i = seq_at base k" by (auto simp: stream_packet_def)
  with p(2) assms(2) have "i < 2 ^ 31" "k < 2 ^ 31" by linarith+
  with i(2) have "i = k" using seq_at_inj by blast
  with p show "k < N" "SequenceNum pkt = seq_at base k" "Payload pkt = pl k"
    by (auto simp: stream_packet_def)
qed

lemma keys_delete: "fst ` set (AList.delete k xs) = fst ` set xs - {k}"
  using arg_cong [OF delete_keys [of k xs], of set] by simp

lemma deliver_loop_inv:
  assumes "circ_ok (e_circ env)" and "N \<le> 2 ^ 31" and "rx_inv env base pl N sz k u s"
    and "length (outOfOrderPackets s) \<le> fuel"
  shows "\<exists>k'. k \<le> k' \<and> rx_inv env base pl N sz k' (u @ concat (map pl [k..<k'])) (deliver_loop env fuel s) \<and>
    seq_at base k' \<notin> buffered (deliver_loop env fuel s) \<and>
    (\<forall>i. k \<le> i \<and> i < k' \<longrightarrow> seq_at base i \<in> buffered s) \<and>
    buffered (deliver_loop env fuel s) = buffered s - seq_at base ` {k..<k'}"
  using assms(3,4)
proof (induction fuel arbitrary: k u s)
  case 0
  then show ?case by (intro exI [of _ k]) (auto simp: buffered_def)
next
  case (Suc fuel)
  show ?case
  proof (cases "map_of (outOfOrderPackets s) (recvSeq s)")
    case None
    then have "seq_at base k \<notin> buffered s"
      using Suc.prems(1) by (simp add: buffered_def map_of_eq_None_iff rx_inv_def)
    with None Suc.prems(1) show ?thesis by (intro exI [of _ k]) auto
  next
    case (Some pkt)
    note nxt = rx_inv_next [OF Suc.prems(1) assms(2) Some]
    obtain b where w: "cb_Write (e_circ env) (recvBuf s) (Payload pkt) = (length (Payload pkt), None, b)"
      and b: "cb_Size (e_circ env) b = sz" "cb_Bytes (e_circ env) b = lastn (nat sz) (u @ pl k)"
        "cb_TotalWritten (e_circ env) b = int (length (u @ pl k))"
      using rx_inv_write [OF assms(1) Suc.prems(1), of "Payload pkt"] nxt(3) by auto
    define s1 where "s1 = removeFromNACKListLocked (seq_at base k) (s\<lparr>recvBuf := b, recvSeq := recvSeq s + 1,
       totalBytesReceived := totalBytesReceived s + of_nat (length (Payload pkt)),
       outOfOrderPackets := AList.delete (seq_at base k) (outOfOrderPackets s)\<rparr>)"
    have step: "deliver_loop env (Suc fuel) s = deliver_loop env fuel s1"
      using Some w nxt(2) by (simp add: s1_def Let_def)
    have inv1: "rx_inv env base pl N sz (Suc k) (u @ pl k) s1"
      unfolding s1_def by (rule rx_inv_advance [OF Suc.prems(1) nxt(1) assms(2) b])
    have o1: "outOfOrderPackets s1 = AList.delete (seq_at base k) (outOfOrderPackets s)"
      by (simp add: s1_def removeFromNACKListLocked_def)
    have rs: "recvSeq s = seq_at base k" "distinct (map fst (outOfOrderPackets s))"
      using Suc.prems(1) by (simp_all add: rx_inv_def)
    have "length (outOfOrderPackets s1) \<le> fuel"
      using length_delete [OF rs(2) Some [unfolded rs(1)]] Suc.prems(2) by (simp add: o1)
    from Suc.IH [OF inv1 this] obtain k' where k': "Suc k \<le> k'"
      "rx_inv env base pl N sz k' ((u @ pl k) @ concat (map pl [Suc k..<k'])) (deliver_loop env fuel s1)"
      "seq_at base k' \<notin> buffered (deliver_loop env fuel s1)"
      "\<forall>i. Suc k \<le> i \<and> i < k' \<longrightarrow> seq_at base i \<in> buffered s1"
      "buffered (deliver_loop env fuel s1) = buffered s1 - seq_at base ` {Suc k..<k'}" by blast
    have "buffered s1 = buffered s - {seq_at base k}" by (simp add: buffered_def o1 keys_delete)
    moreover have "seq_at base k \<in> buffered s"
      using imageI [OF map_of_SomeD [OF Some], of fst] by (simp add: buffered_def rs(1))
    ultimately have b1: "buffered s1 = buffered s - {seq_at base k}" "seq_at base k \<in> buffered s" .
    have "[k..<k'] = k # [Suc k..<k']" using k'(1) by (simp add: upt_conv_Cons)
    moreover have "{k..<k'} = insert k {Suc k..<k'}" using k'(1) by auto
    moreover have "\<forall>i. k \<le> i \<and> i < k' \<longrightarrow> seq_at base i \<in> buffered s"
      using k'(4) b1 by (metis Diff_iff le_antisym not_less_eq_eq)
    ultimately show ?thesis using k' b1 step
      by (intro exI [of _ k']) (auto simp: Suc_leD)
  qed
qed

lemma deliver_loop_other:
  shows "tx_same s (deliver_loop env fuel s)" and "id_same s (deliver_loop env fuel s)"
proof (induction fuel arbitrary: s)
  case 0
  { case 1 then show ?case by (simp add: same_defs) }
  { case 2 then show ?case by (simp add: same_defs) }
next
  case (Suc fuel)
  { case 1 then show ?case using Suc(1)
      by (auto simp: same_defs removeFromNACKListLocked_def Let_def split: option.splits prod.splits) }
  { case 2 then show ?case using Suc(2)
      by (auto simp: same_defs removeFromNACKListLocked_def Let_def split: option.splits prod.splits) }
qed

lemma addMissing_loop_inv:
  assumes "rx_inv env base pl N sz k u s" and "\<forall>i\<in>set is. \<exists>j. i = of_nat j \<and> k + j < N"
  shows "rx_inv env base pl N sz k u (addMissing_loop is s) \<and>
    (\<exists>nl. addMissing_loop is s = s\<lparr>nackList := nl\<rparr>)"
  using assms
proof (induction "is" arbitrary: s)
  case Nil
  have "addMissing_loop [] s = s\<lparr>nackList := nackList s\<rparr>" by simp
  with Nil show ?case by (metis addMissing_loop.simps(1))
next
  case (Cons i "is")
  obtain j where j: "i = of_nat j" "k + j < N" using Cons.prems(2) by auto
  let ?q = "recvSeq s + i"
  have q: "?q = seq_at base (k + j)" using Cons.prems(1) j by (simp add: rx_inv_def seq_at_def add.assoc)
  consider (full) "length (nackList s) \<ge> MaxNACKs" | (add) "length (nackList s) < MaxNACKs" "shouldAddToNACKListLocked ?q s"
    | (skip) "length (nackList s) < MaxNACKs" "\<not> shouldAddToNACKListLocked ?q s" by linarith
  then show ?case
  proof cases
    case full
    then have "addMissing_loop (i # is) s = s" by simp
    moreover have "s = s\<lparr>nackList := nackList s\<rparr>" by simp
    ultimately show ?thesis using Cons.prems(1) by metis
  next
    case add
    let ?s = "s\<lparr>nackList := nackList s @ [?q]\<rparr>"
    have "?q \<notin> set (nackList s)" "?q \<notin> fst ` set (outOfOrderPackets s)"
      using add(2) by (auto simp: shouldAddToNACKListLocked_def map_of_eq_None_iff split: if_splits)
    moreover have "\<exists>i. k \<le> i \<and> i < N \<and> ?q = seq_at base i" using q j(2) by (intro exI [of _ "k + j"]) auto
    ultimately have "rx_inv env base pl N sz k u ?s" using Cons.prems(1) add(1) by (auto simp: rx_inv_def)
    from Cons.IH [OF this] Cons.prems(2) add show ?thesis by (auto simp: Let_def)
  next
    case skip
    with Cons.IH [OF Cons.prems(1)] Cons.prems(2) show ?thesis by (auto simp: Let_def)
  qed
qed

lemma gap_bound:
  assumes "recvSeq s = seq_at base k" and "k < j" and "j < 2 ^ 31"
  shows "unat (calculateSequenceGapLocked (seq_at base j) s) \<le> j - k"
proof -
  have g: "seq_at base j - seq_at base k = of_nat (j - k)"
    using assms(2) by (simp add: seq_at_def of_nat_diff)
  have "unat (of_nat (j - k) :: u32) = j - k" using assms(3) by (simp add: unat_of_nat)
  then show ?thesis using assms(1)
    by (auto simp: calculateSequenceGapLocked_def Let_def g word_less_nat_alt)
qed

definition rx_stable :: "('d, 'c, 'k, 'b) env \<Rightarrow> u32 \<Rightarrow> (nat \<Rightarrow> byte list) \<Rightarrow> nat \<Rightarrow> int \<Rightarrow> nat \<Rightarrow> byte list \<Rightarrow>
    ('d, 'b) StreamConn \<Rightarrow> bool" where
  "rx_stable env base pl N sz k u s \<longleftrightarrow> rx_inv env base pl N sz k u s \<and> seq_at base k \<notin> buffered s"

definition received :: "u32 \<Rightarrow> nat \<Rightarrow> nat \<Rightarrow> ('d, 'b) StreamConn \<Rightarrow> nat set" where
  "received base N k s = {i. i < k \<or> i < N \<and> seq_at base i \<in> buffered s}"

lemma rx_stable_core:
  "core s' = core s \<Longrightarrow> rx_stable env base pl N sz k u s' = rx_stable env base pl N sz k u s \<and>
     received base N k s' = received base N k s"
proof -
  assume c: "core s' = core s"
  then have "buffered s' = buffered s" by (simp add: buffered_def core_def)
  with rx_inv_core [OF c, of env base pl N sz k u] show ?thesis by (simp add: rx_stable_def received_def)
qed

lemma rx_inv_ooo:
  assumes inv: "rx_inv env base pl N sz k u s" and p: "stream_packet base pl N j pkt" and "k < j"
  shows "rx_inv env base pl N sz k u (removeFromNACKListLocked (seq_at base j)
    (s\<lparr>outOfOrderPackets := AList.update (seq_at base j) pkt (outOfOrderPackets s)\<rparr>))"
proof -
  define s1 where "s1 = removeFromNACKListLocked (seq_at base j)
    (s\<lparr>outOfOrderPackets := AList.update (seq_at base j) pkt (outOfOrderPackets s)\<rparr>)"
  have r: "recvSeq s1 = recvSeq s" "recvBuf s1 = recvBuf s"
    "outOfOrderPackets s1 = AList.update (seq_at base j) pkt (outOfOrderPackets s)"
    "nackList s1 = filter (\<lambda>q. q \<noteq> seq_at base j) (nackList s)"
    by (auto simp: s1_def removeFromNACKListLocked_def intro!: filter_True [symmetric])
  have sub: "(q, p') \<in> set (AList.update (seq_at base j) pkt (outOfOrderPackets s)) \<Longrightarrow>
      (q, p') \<in> set (outOfOrderPackets s) \<or> (q, p') = (seq_at base j, pkt)" for q p'
    by (metis (no_types, lifting) UnE Un_commute dom_update in_set_conv_decomp map_of_is_SomeI inv
        distinct_update map_of_eq_Some_iff update_conv' fun_upd_apply option.inject rx_inv_def)
  have pk: "SequenceNum p' = q \<and> (\<exists>i. k \<le> i \<and> stream_packet base pl N i p')"
    if "(q, p') \<in> set (outOfOrderPackets s1)" for q p'
    using sub [OF that [unfolded r]]
  proof
    assume "(q, p') \<in> set (outOfOrderPackets s)"
    with inv show ?thesis by (auto simp: rx_inv_def)
  next
    assume "(q, p') = (seq_at base j, pkt)"
    with p \<open>k < j\<close> less_imp_le show ?thesis by (auto simp: stream_packet_def)
  qed
  have nl: "q \<notin> fst ` set (outOfOrderPackets s1) \<and> (\<exists>i. k \<le> i \<and> i < N \<and> q = seq_at base i)"
    if "q \<in> set (nackList s1)" for q
    using that inv unfolding r by (auto simp: rx_inv_def dom_update)
  have "distinct (map fst (outOfOrderPackets s1))" "length (nackList s1) \<le> MaxNACKs" "distinct (nackList s1)"
    using inv by (auto simp: r rx_inv_def distinct_update intro: order_trans [OF length_filter_le])
  with pk nl inv show ?thesis unfolding s1_def [symmetric] rx_inv_def r(1,2) by auto
qed

text \<open>What processing an in-sequence packet does to the received data.\<close>

lemma core_control_sends [simp]:
  "core (fst (snd (sendAckLocked env sw))) = core (fst sw)"
  "core (fst (manageChokeStateLocked env sw)) = core (fst sw)"
  "core (broadcast_recv s) = core s" "core (s\<lparr>ackThrough := a\<rparr>) = core s"
  using control_sends_same(1) [of sw env] manageChoke_same [of sw env]
  by (simp_all add: ctl_same_def core_def broadcast_recv_def)

lemma inSequence_core:
  assumes "cb_Write (e_circ env) (recvBuf s) (Payload pkt) = (n, None, b)"
  shows "core (fst (processInSequencePacketLocked env pkt q (s, w))) =
    core (deliverBufferedPacketsLocked env (removeFromNACKListLocked q
      (s\<lparr>recvBuf := b, recvSeq := recvSeq s + 1, totalBytesReceived := totalBytesReceived s + of_nat n\<rparr>)))"
proof -
  let ?s1 = "deliverBufferedPacketsLocked env (removeFromNACKListLocked q
      (s\<lparr>recvBuf := b, recvSeq := recvSeq s + 1, totalBytesReceived := totalBytesReceived s + of_nat n\<rparr>))"
  define s2 where "s2 = (if Flags pkt AND FlagNoACK = 0 \<and> seqGreaterThan (AckThrough pkt) (ackThrough ?s1)
    then ?s1\<lparr>ackThrough := AckThrough pkt\<rparr> else ?s1)"
  obtain s3 w3 where m: "manageChokeStateLocked env (s2, w) = (s3, w3)" by (metis surj_pair)
  have c: "core s2 = core ?s1" by (simp add: s2_def)
  have "core s3 = core s2" using core_control_sends(2) [of env "(s2, w)"] by (simp add: m)
  moreover have "processInSequencePacketLocked env pkt q (s, w) =
      (if \<not> sendingChoke (broadcast_recv s3) \<or> length (nackList (broadcast_recv s3)) > 0
       then snd (sendAckLocked env (broadcast_recv s3, w3)) else (broadcast_recv s3, w3))"
    using assms m unfolding s2_def by (simp add: processInSequencePacketLocked_def Let_def)
  ultimately show ?thesis using c by simp
qed

lemma handleData_step:
  assumes circ: "circ_ok (e_circ env)" and N: "N < 2 ^ 31" and st: "rx_stable env base pl N sz k u s"
    and p: "stream_packet base pl N j pkt"
  shows "\<exists>k'. k \<le> k' \<and> rx_stable env base pl N sz k' (u @ concat (map pl [k..<k'])) (fst (handleDataLocked env pkt (s, w))) \<and>
    received base N k' (fst (handleDataLocked env pkt (s, w))) = insert j (received base N k s)"
proof -
  have inv: "rx_inv env base pl N sz k u s" and new: "seq_at base k \<notin> buffered s"
    using st by (simp_all add: rx_stable_def)
  have k: "k \<le> N" "recvSeq s = seq_at base k" using inv by (simp_all add: rx_inv_def)
  have sq: "SequenceNum pkt = seq_at base j" "j < N" "Payload pkt = pl j" using p by (simp_all add: stream_packet_def)
  have lt: "seqLessThan (seq_at base j) (seq_at base k) \<longleftrightarrow> j < k"
    unfolding seq_at_def by (rule seq.lt_window) (use k(1) sq(2) N in simp_all)
  have eq: "seq_at base j = seq_at base i \<longleftrightarrow> j = i" if "i \<le> N" for i
    using that sq(2) N by (simp add: seq_at_inj)
  consider (now) "j = k" | (old) "j < k" | (later) "k < j" by linarith
  then show ?thesis
  proof cases
    case now
    obtain b where w: "cb_Write (e_circ env) (recvBuf s) (Payload pkt) = (length (Payload pkt), None, b)"
      and b: "cb_Size (e_circ env) b = sz" "cb_Bytes (e_circ env) b = lastn (nat sz) (u @ pl k)"
        "cb_TotalWritten (e_circ env) b = int (length (u @ pl k))"
      using rx_inv_write [OF circ inv, of "Payload pkt"] sq(3) now by auto
    define s1 where "s1 = removeFromNACKListLocked (seq_at base k) (s\<lparr>recvBuf := b, recvSeq := recvSeq s + 1,
        totalBytesReceived := totalBytesReceived s + of_nat (length (Payload pkt))\<rparr>)"
    have "AList.delete (seq_at base k) (outOfOrderPackets s) = outOfOrderPackets s"
      using new by (simp add: buffered_def)
    then have inv1: "rx_inv env base pl N sz (Suc k) (u @ pl k) s1"
      using rx_inv_advance [OF inv _ less_imp_le [OF N] b] sq(2) now by (simp add: s1_def)
    have b1: "buffered s1 = buffered s" by (simp add: s1_def buffered_def removeFromNACKListLocked_def)
    from deliver_loop_inv [OF circ less_imp_le [OF N] inv1 order_refl] obtain k' where k': "Suc k \<le> k'"
      "rx_inv env base pl N sz k' ((u @ pl k) @ concat (map pl [Suc k..<k'])) (deliverBufferedPacketsLocked env s1)"
      "seq_at base k' \<notin> buffered (deliverBufferedPacketsLocked env s1)"
      "\<forall>i. Suc k \<le> i \<and> i < k' \<longrightarrow> seq_at base i \<in> buffered s"
      "buffered (deliverBufferedPacketsLocked env s1) = buffered s - seq_at base ` {Suc k..<k'}"
      unfolding deliverBufferedPacketsLocked_def b1 by blast
    have c: "core (fst (handleDataLocked env pkt (s, w))) = core (deliverBufferedPacketsLocked env s1)"
      using inSequence_core [OF w] now k(2) sq(1) by (simp add: handleDataLocked_def s1_def)
    have "[k..<k'] = k # [Suc k..<k']" using k'(1) by (simp add: upt_conv_Cons)
    then have "rx_stable env base pl N sz k' (u @ concat (map pl [k..<k'])) (deliverBufferedPacketsLocked env s1)"
      using k'(2,3) by (simp add: rx_stable_def)
    moreover have "received base N k' (deliverBufferedPacketsLocked env s1) = insert j (received base N k s)"
    proof -
      have "i < N" if "i < k'" for i using that k'(2) by (auto simp: rx_inv_def)
      moreover have "seq_at base x = seq_at base y \<Longrightarrow> x < N \<Longrightarrow> y < N \<Longrightarrow> x = y" for x y
        using seq_at_inj [of x y base] N by simp
      ultimately show ?thesis using k'(1,4,5) now unfolding received_def
        by (auto simp: not_less less_Suc_eq_le) fastforce
    qed
    ultimately show ?thesis using rx_stable_core [OF c] k'(1) Suc_leD by blast
  next
    case old
    then have "handleDataLocked env pkt (s, w) = (s, w)"
      using lt eq [OF k(1)] by (simp add: handleDataLocked_def k(2) sq(1))
    with old st show ?thesis by (intro exI [of _ k]) (auto simp: received_def)
  next
    case later
    define s1 where "s1 = removeFromNACKListLocked (seq_at base j)
      (s\<lparr>outOfOrderPackets := AList.update (seq_at base j) pkt (outOfOrderPackets s)\<rparr>)"
    define s2 where "s2 = updateNACKListLocked (seq_at base j) s1"
    have inv1: "rx_inv env base pl N sz k u s1" unfolding s1_def by (rule rx_inv_ooo [OF inv p later])
    have r1: "recvSeq s1 = seq_at base k" using inv1 by (simp add: rx_inv_def)
    have "\<forall>i\<in>set (map of_nat [0..<unat (calculateSequenceGapLocked (seq_at base j) s1)]). \<exists>m. i = of_nat m \<and> k + m < N"
      using gap_bound [OF r1 later] sq(2) N by fastforce
    from addMissing_loop_inv [OF inv1 this] obtain nl where inv2: "rx_inv env base pl N sz k u s2"
      and s2: "s2 = s1\<lparr>nackList := nl\<rparr>"
      unfolding s2_def updateNACKListLocked_def addMissingSequencesToNACKListLocked_def by blast
    have b2: "buffered s2 = insert (seq_at base j) (buffered s)"
      by (simp add: s2 s1_def buffered_def removeFromNACKListLocked_def dom_update)
    have c: "core (fst (handleDataLocked env pkt (s, w))) = core s2"
      using later lt eq [OF k(1)] by (simp add: handleDataLocked_def k(2) sq(1) handleOutOfOrderPacketLocked_def s2_def s1_def Let_def)
    have "rx_stable env base pl N sz k u s2" using inv2 new b2 eq [OF k(1)] later by (auto simp: rx_stable_def)
    moreover have "received base N k s2 = insert j (received base N k s)"
      using b2 eq [THEN iffD1, OF _ sym] sq(2) by (auto simp: received_def dest: less_imp_le)
    ultimately show ?thesis using rx_stable_core [OF c, of env base pl N sz k u] by (intro exI [of _ k]) simp
  qed
qed

section \<open>Whole runs\<close>

definition arrive_all :: "('d, 'c, 'k, 'b) env \<Rightarrow> 'd Packet list \<Rightarrow> ('d, 'b) conn_world \<Rightarrow> ('d, 'b) conn_world" where
  "arrive_all env ps sw = foldl (\<lambda>sw p. handleDataLocked env p sw) sw ps"

lemma arrive_all_inv:
  assumes "circ_ok (e_circ env)" and "N < 2 ^ 31" and "rx_stable env base pl N sz k u s"
    and "list_all2 (stream_packet base pl N) js ps"
  shows "\<exists>k'. k \<le> k' \<and> rx_stable env base pl N sz k' (u @ concat (map pl [k..<k'])) (fst (arrive_all env ps (s, w))) \<and>
    received base N k' (fst (arrive_all env ps (s, w))) = set js \<union> received base N k s"
  using assms(4,3)
proof (induction js ps arbitrary: k u s w rule: list_all2_induct)
  case Nil
  then show ?case by (intro exI [of _ k]) (simp add: arrive_all_def)
next
  case (Cons j js p ps)
  obtain s1 w1 where h: "handleDataLocked env p (s, w) = (s1, w1)" by (metis surj_pair)
  from handleData_step [OF assms(1,2) Cons.prems Cons.hyps(1), of w, unfolded h fst_conv]
  obtain k1 where k1: "k \<le> k1" "rx_stable env base pl N sz k1 (u @ concat (map pl [k..<k1])) s1"
    "received base N k1 s1 = insert j (received base N k s)" by blast
  from Cons.IH [OF k1(2), of w1] obtain k' where k': "k1 \<le> k'"
    "rx_stable env base pl N sz k' ((u @ concat (map pl [k..<k1])) @ concat (map pl [k1..<k'])) (fst (arrive_all env ps (s1, w1)))"
    "received base N k' (fst (arrive_all env ps (s1, w1))) = set js \<union> received base N k1 s1" by blast
  have "[k..<k'] = [k..<k1] @ [k1..<k']" using k1(1) k'(1) by (metis le_iff_add upt_add_eq_append)
  moreover have "arrive_all env (p # ps) (s, w) = arrive_all env ps (s1, w1)" by (simp add: arrive_all_def h)
  ultimately show ?case using k1 k' by (intro exI [of _ k']) auto
qed

lemma first_missing:
  assumes "rx_stable env base pl N sz k u s"
  shows "(LEAST i. i \<notin> received base N k s) = k"
proof (rule Least_equality)
  show "k \<notin> received base N k s" using assms by (auto simp: received_def rx_stable_def)
  show "k \<le> i" if "i \<notin> received base N k s" for i using that by (auto simp: received_def)
qed

section \<open>Reads\<close>

lemma rx_inv_consume:
  assumes "circ_ok (e_circ env)" and "rx_inv env base pl N sz k u s" and "int (length u) \<le> sz"
    and "consumeBufferDataLocked env len s = (data, e, s')"
  shows "data = take len u \<and> e = None \<and> rx_inv env base pl N sz k (drop len u) s' \<and>
    (\<exists>b. s' = s\<lparr>recvBuf := b\<rparr>)"
proof -
  let ?c = "e_circ env"
  let ?r = "s\<lparr>recvBuf := cb_Reset ?c (recvBuf s)\<rparr>"
  have u: "cb_Bytes ?c (recvBuf s) = u" using assms(2,3) by (simp add: rx_inv_def lastn_all nat_le_iff)
  have "cb_Bytes ?c (cb_Reset ?c (recvBuf s)) = [] \<and> cb_TotalWritten ?c (cb_Reset ?c (recvBuf s)) = 0 \<and>
      cb_Size ?c (cb_Reset ?c (recvBuf s)) = cb_Size ?c (recvBuf s)"
    using assms(1) unfolding circ_ok_def by blast
  then have inv: "rx_inv env base pl N sz k [] ?r" using assms(2) by (simp add: rx_inv_def lastn_def)
  have val: "consumeBufferDataLocked env len s = (if len < length u
      then (take len u, None, ?r\<lparr>recvBuf := snd (snd (cb_Write ?c (recvBuf ?r) (drop len u)))\<rparr>)
      else (take len u, None, ?r))" if "fst (snd (cb_Write ?c (recvBuf ?r) (drop len u))) = None"
    using that unfolding consumeBufferDataLocked_def u by (auto simp: Let_def min_def split: prod.splits)
  from rx_inv_write [OF assms(1) inv, of "drop len u"] obtain b where
    b: "cb_Write ?c (recvBuf ?r) (drop len u) = (length (drop len u), None, b)" "cb_Size ?c b = sz"
    "cb_Bytes ?c b = lastn (nat sz) ([] @ drop len u)" "cb_TotalWritten ?c b = int (length ([] @ drop len u))" .
  have "rx_inv env base pl N sz k (drop len u) (?r\<lparr>recvBuf := b\<rparr>)" using inv b(2-4) by (simp add: rx_inv_def)
  with assms(4) val [unfolded b(1)] inv show ?thesis
    by (cases "len < length u") auto
qed

lemma deliver_none: "map_of (outOfOrderPackets s) (recvSeq s) = None \<Longrightarrow> deliver_loop env fuel s = s"
  by (cases fuel) auto

lemma postRead_core:
  assumes "map_of (outOfOrderPackets s) (recvSeq s) = None"
  shows "core (fst (handlePostReadActionsLocked env (s, w))) = core s"
  using control_sends_same(3) [of "(s, w)" env]
  by (simp add: deliver_none [OF assms] handlePostReadActionsLocked_def deliverBufferedPacketsLocked_def Let_def ctl_same_def)

lemma read_step:
  assumes "circ_ok (e_circ env)" and st: "rx_stable env base pl N sz k u s" and "int (length u) \<le> sz"
    and "conn_Read env [] len (s, w) = Some (data, None, s', w')"
  shows "data = take len u \<and> rx_stable env base pl N sz k (drop len u) s' \<and> received base N k s' = received base N k s"
proof -
  have inv: "rx_inv env base pl N sz k u s" and nb: "seq_at base k \<notin> buffered s"
    using st by (simp_all add: rx_stable_def)
  have none: "map_of (outOfOrderPackets s) (recvSeq s) = None"
    using inv nb by (simp add: map_of_eq_None_iff buffered_def rx_inv_def)
  obtain d e s1 where c: "consumeBufferDataLocked env len s = (d, e, s1)" by (metis prod_cases3)
  from rx_inv_consume [OF assms(1) inv assms(3) c] obtain b where d: "d = take len u" "e = None"
    and inv1: "rx_inv env base pl N sz k (drop len u) s1" and s1: "s1 = s\<lparr>recvBuf := b\<rparr>" by blast
  have "data = d \<and> (s', w') = handlePostReadActionsLocked env (s1, w)"
    using assms(4) c d(2) by (auto simp: conn_Read_def split: option.splits if_splits)
  moreover have "core (fst (handlePostReadActionsLocked env (s1, w))) = core s1"
    by (rule postRead_core) (simp add: s1 none)
  ultimately have core: "core s' = core s1" and data: "data = d" by (metis fst_conv)+
  have "rx_stable env base pl N sz k (drop len u) s1" "received base N k s1 = received base N k s"
    using inv1 nb by (simp_all add: rx_stable_def s1 buffered_def received_def)
  with rx_stable_core [OF core, of env base pl N sz k "drop len u"] data d(1) show ?thesis by simp
qed

text \<open>
  Arrivals and reads in any order.  \<open>out\<close> is what the reader has got so far, \<open>js\<close> lists the packets that
  have arrived.  A read happens only while no unread byte has been overwritten: the bytes written since the
  buffer was last emptied fit into it.
\<close>

inductive rx_reach :: "('d, 'c, 'k, 'b) env \<Rightarrow> u32 \<Rightarrow> (nat \<Rightarrow> byte list) \<Rightarrow> nat \<Rightarrow> ('d, 'b) conn_world \<Rightarrow>
    byte list \<Rightarrow> nat list \<Rightarrow> ('d, 'b) conn_world \<Rightarrow> bool"
  for env base pl N start where
  rx_start: "rx_reach env base pl N start [] [] start"
| rx_arrive: "rx_reach env base pl N start out (js @ [j]) (handleDataLocked env p (s, w))"
    if "rx_reach env base pl N start out js (s, w)" and "stream_packet base pl N j p"
| rx_read: "rx_reach env base pl N start (out @ data) js (s', w')"
    if "rx_reach env base pl N start out js (s, w)" and "conn_Read env [] len (s, w) = Some (data, None, s', w')"
      and "cb_TotalWritten (e_circ env) (recvBuf s) \<le> cb_Size (e_circ env) (recvBuf s)"

lemma rx_reach_inv:
  assumes "rx_reach env base pl N start out js sw" and "circ_ok (e_circ env)" and "N < 2 ^ 31"
    and "rx_stable env base pl N sz 0 [] (fst start)" and "received base N 0 (fst start) = {}"
  shows "\<exists>k u. rx_stable env base pl N sz k u (fst sw) \<and> out @ u = concat (map pl [0..<k]) \<and>
    received base N k (fst sw) = set js"
  using assms(1)
proof (induction rule: rx_reach.induct)
  case rx_start
  show ?case using assms(4,5) by (intro exI [of _ 0] exI [of _ "[]"]) auto
next
  case (rx_arrive out js s w j p)
  then obtain k u where k: "rx_stable env base pl N sz k u s" "out @ u = concat (map pl [0..<k])"
    "received base N k s = set js" by auto
  from handleData_step [OF assms(2,3) k(1) rx_arrive.hyps(2), of w] obtain k' where k': "k \<le> k'"
    "rx_stable env base pl N sz k' (u @ concat (map pl [k..<k'])) (fst (handleDataLocked env p (s, w)))"
    "received base N k' (fst (handleDataLocked env p (s, w))) = insert j (received base N k s)" by blast
  have "[0..<k'] = [0..<k] @ [k..<k']" using k'(1) by (metis le0 le_iff_add upt_add_eq_append)
  with k k' show ?case
    by (intro exI [of _ k'] exI [of _ "u @ concat (map pl [k..<k'])"]) (simp flip: append_assoc)
next
  case (rx_read out js s w len data s' w')
  then obtain k u where k: "rx_stable env base pl N sz k u s" "out @ u = concat (map pl [0..<k])"
    "received base N k s = set js" by auto
  have "int (length u) \<le> sz" using k(1) rx_read.hyps(3) by (simp add: rx_stable_def rx_inv_def)
  from read_step [OF assms(2) k(1) this rx_read.hyps(2)] k show ?case
    by (intro exI [of _ k] exI [of _ "drop len u"]) simp
qed

lemma arrive_all_delivers:
  assumes "circ_ok (e_circ env)" and "N < 2 ^ 31" and "list_all2 (stream_packet base pl N) js ps"
    and "recvSeq s = base" and "outOfOrderPackets s = []" and "nackList s = []"
    and "cb_Bytes (e_circ env) (recvBuf s) = []" and "cb_TotalWritten (e_circ env) (recvBuf s) = 0"
    and "s' = fst (arrive_all env ps (s, w))" and "k = (LEAST i. i \<notin> set js)"
  shows "cb_Bytes (e_circ env) (recvBuf s') =
      lastn (nat (cb_Size (e_circ env) (recvBuf s))) (concat (map pl [0..<k])) \<and>
    recvSeq s' = base + of_nat k \<and> length (nackList s') \<le> MaxNACKs \<and>
    (\<forall>q\<in>set (nackList s'). \<exists>i. i < N \<and> i \<notin> set js \<and> q = base + of_nat i)"
proof -
  let ?sz = "cb_Size (e_circ env) (recvBuf s)"
  have i: "rx_stable env base pl N ?sz 0 [] s"
    using assms by (simp add: rx_stable_def rx_inv_def buffered_def seq_at_def lastn_def)
  have r0: "received base N 0 s = {}" using assms(5) by (simp add: received_def buffered_def)
  from arrive_all_inv [OF assms(1,2) i assms(3), of w] obtain m where
    m: "rx_stable env base pl N ?sz m (concat (map pl [0..<m])) s'" "received base N m s' = set js"
    unfolding assms(9) r0 by auto
  have km: "k = m" using first_missing [OF m(1)] m(2) assms(10) by simp
  have inv: "rx_inv env base pl N ?sz m (concat (map pl [0..<m])) s'" using m(1) by (simp add: rx_stable_def)
  have "\<exists>i. i < N \<and> i \<notin> set js \<and> q = base + of_nat i" if q: "q \<in> set (nackList s')" for q
  proof -
    from q inv obtain i where i: "m \<le> i" "i < N" "q = seq_at base i" "q \<notin> buffered s'"
      by (auto simp: rx_inv_def buffered_def)
    then have "i \<notin> received base N m s'" by (auto simp: received_def)
    with i m(2) show ?thesis by (auto simp: seq_at_def)
  qed
  with inv km show ?thesis by (simp add: rx_inv_def seq_at_def)
qed

section \<open>A concrete stream\<close>

definition demo_data :: "nat \<Rightarrow> byte Packet" where
  "demo_data i = emptyPacket\<lparr>SequenceNum := 500 + of_nat i, Payload := [of_nat i]\<rparr>"

lemma demo_data_stream: "i < N \<Longrightarrow> stream_packet 500 (\<lambda>i. [of_nat i]) N i (demo_data i)"
  by (simp add: stream_packet_def demo_data_def seq_at_def)

lemma demo_rx_simps [simp]:
  "cb_Bytes list_circ (xs, t, n) = xs" "cb_TotalWritten list_circ (xs, t, n) = t" "cb_Size list_circ (xs, t, n) = n"
  by (simp_all add: list_circ_def)

section \<open>Properties\<close>

text \<open>
  C6. Reliable in-order delivery: whatever order a peer's data packets reach \<^verbatim>\<open>handleDataLocked\<close> in, with whatever
  duplicates, gaps and wrap-around of the sequence numbers, the receiver has put exactly the payloads of
  the packets before the first missing one into its ring buffer, in order and once each (the buffer holds
  the last \<^verbatim>\<open>Size\<close> of those bytes), it expects the first missing packet next, and every number on its
  NACK list, which has at most 255, is one of a packet that has not arrived.
\<close>

theorem in_order_delivery:
  assumes "circ_ok (e_circ env)" and "N < 2 ^ 31" and "list_all2 (stream_packet base pl N) js ps"
    and "recvSeq s = base" and "outOfOrderPackets s = []" and "nackList s = []"
    and "cb_Bytes (e_circ env) (recvBuf s) = []" and "cb_TotalWritten (e_circ env) (recvBuf s) = 0"
    and "s' = fst (arrive_all env ps (s, w))" and "k = (LEAST i. i \<notin> set js)"
  shows "cb_Bytes (e_circ env) (recvBuf s') =
      lastn (nat (cb_Size (e_circ env) (recvBuf s))) (concat (map pl [0..<k])) \<and>
    recvSeq s' = base + of_nat k \<and> length (nackList s') \<le> MaxNACKs \<and>
    (\<forall>q\<in>set (nackList s'). \<exists>i. i < N \<and> i \<notin> set js \<and> q = base + of_nat i)"
  by (rule arrive_all_delivers [OF assms])

theorem in_order_delivery_witness:
  "cb_Bytes list_circ (recvBuf (fst (arrive_all demo_env [demo_data 2, demo_data 0, demo_data 0] (demo_conn, demo_world)))) = [0]"
proof -
  have "list_all2 (stream_packet 500 (\<lambda>i. [of_nat i]) 3) [2, 0, 0] [demo_data 2, demo_data 0, demo_data 0]"
    by (simp add: demo_data_stream)
  moreover have "(LEAST i. i \<notin> set [2, 0, 0 :: nat]) = 1"
    by (rule Least_equality) (auto simp: Suc_le_eq)
  ultimately show ?thesis
    using in_order_delivery [of demo_env 3 500 "\<lambda>i. [of_nat i]" "[2, 0, 0]" "[demo_data 2, demo_data 0, demo_data 0]"
        demo_conn _ demo_world 1] by (simp add: list_circ_ok lastn_def)
qed

text \<open>
  What a reader gets is the stream: in every interleaving of arrivals and reads, as long as unread
  bytes fit into the ring buffer, the bytes returned by the reads so far followed by the bytes in the buffer
  are exactly the payloads of all packets before the first missing one.
\<close>

theorem reads_return_stream:
  assumes "circ_ok (e_circ env)" and "N < 2 ^ 31" and "recvSeq s = base" and "outOfOrderPackets s = []"
    and "nackList s = []" and "cb_Bytes (e_circ env) (recvBuf s) = []"
    and "cb_TotalWritten (e_circ env) (recvBuf s) = 0"
    and "rx_reach env base pl N (s, w) out js (s', w')"
    and "cb_TotalWritten (e_circ env) (recvBuf s') \<le> cb_Size (e_circ env) (recvBuf s')"
  shows "out @ cb_Bytes (e_circ env) (recvBuf s') = concat (map pl [0..<(LEAST i. i \<notin> set js)])"
proof -
  let ?sz = "cb_Size (e_circ env) (recvBuf s)"
  have i: "rx_stable env base pl N ?sz 0 [] s"
    using assms by (simp add: rx_stable_def rx_inv_def buffered_def seq_at_def lastn_def)
  have r0: "received base N 0 s = {}" using assms(4) by (simp add: received_def buffered_def)
  from rx_reach_inv [OF assms(8,1,2), of ?sz] i r0 obtain k u where
    k: "rx_stable env base pl N ?sz k u s'" "out @ u = concat (map pl [0..<k])" "received base N k s' = set js" by auto
  from k(1) assms(9) have "cb_Bytes (e_circ env) (recvBuf s') = u"
    by (simp add: rx_stable_def rx_inv_def lastn_all nat_le_iff)
  with k first_missing [OF k(1)] show ?thesis by simp
qed

theorem reads_return_stream_witness:
  "\<exists>s w. rx_reach demo_env 500 (\<lambda>i. [of_nat i]) 3 (demo_conn, demo_world) [0] [0] (s, w) \<and>
     cb_Bytes list_circ (recvBuf s) = []"
proof -
  obtain s w where h: "handleDataLocked demo_env (demo_data 0) (demo_conn, demo_world) = (s, w)" by (metis surj_pair)
  have "rx_reach demo_env 500 (\<lambda>i. [of_nat i]) 3 (demo_conn, demo_world) [] ([] @ [0])
      (handleDataLocked demo_env (demo_data 0) (demo_conn, demo_world))"
    by (intro rx_arrive rx_start demo_data_stream) simp
  then have a: "rx_reach demo_env 500 (\<lambda>i. [of_nat i]) 3 (demo_conn, demo_world) [] [0] (s, w)" by (simp add: h)
  have "core s = core (deliverBufferedPacketsLocked demo_env (removeFromNACKListLocked 500
      (demo_conn\<lparr>recvBuf := ([0], 1, 65536), recvSeq := 501, totalBytesReceived := totalBytesReceived demo_conn + 1\<rparr>)))"
    using inSequence_core [of demo_env demo_conn "demo_data 0" 1 "([0], 1, 65536)" 500 demo_world] h
    by (simp add: handleDataLocked_def demo_data_def list_circ_def)
  then have b: "recvBuf s = ([0], 1, 65536)" "outOfOrderPackets s = []"
    by (simp_all add: core_def deliverBufferedPacketsLocked_def removeFromNACKListLocked_def)
  obtain s' w' where r: "handlePostReadActionsLocked demo_env (s\<lparr>recvBuf := ([], 0, 65536)\<rparr>, w) = (s', w')" by (metis surj_pair)
  have "conn_Read demo_env [] 4 (s, w) = Some ([0], None, s', w')"
    using b r by (simp add: conn_Read_def validateReadStateLocked_def consumeBufferDataLocked_def)
       (simp add: list_circ_def)
  from rx_read [OF a this] b have rr: "rx_reach demo_env 500 (\<lambda>i. [of_nat i]) 3 (demo_conn, demo_world) [0] [0] (s', w')"
    by simp
  have c: "core s' = core (s\<lparr>recvBuf := ([], 0, 65536)\<rparr>)"
    using postRead_core [of "s\<lparr>recvBuf := ([], 0, 65536)\<rparr>" demo_env w] r b by simp
  have l: "(LEAST i. i \<notin> set [0 :: nat]) = 1" by (rule Least_equality) (auto simp: Suc_le_eq)
  have "[0] @ cb_Bytes (e_circ demo_env) (recvBuf s') = concat (map (\<lambda>i. [of_nat i]) [0..<(LEAST i. i \<notin> set [0])])"
    by (rule reads_return_stream [OF _ _ _ _ _ _ _ rr]) (use c in \<open>simp_all add: list_circ_ok core_def\<close>)
  with rr l show ?thesis by auto
qed

end
