(* ===== verification/Sender.thy ===== *)
theory Sender
  imports Receiver "HOL-Library.Sublist"
begin

text \<open>
  The sending side of a connection in \<^verbatim>\<open>stream.go\<close>: \<^verbatim>\<open>Write\<close> with its checks, its waits for the end of a choke
  and for space in the congestion window, and the cutting of the data into packets.

  A wait on \<^verbatim>\<open>sendCond\<close> releases the lock.  As for \<^verbatim>\<open>Read\<close>, what the other goroutines (receive loop, timers,
  other callers) do until the wake-up is the next function of a list of arbitrary functions; when the list
  is used up the writer is still blocked and the result is \<open>None\<close>.  The timers that
  \<^verbatim>\<open>createChokeTimer\<close> and \<^verbatim>\<open>setupWindowWaitTimer\<close> start only cause wake-ups; when they do is in \<open>Timers\<close>.  \<^verbatim>\<open>sendCond\<close>
  is never nil: every constructor sets it, so \<^verbatim>\<open>waitForChokeFallback\<close>, also there, is for tests only.
  \<^verbatim>\<open>writeChunksLocked\<close> loops forever when the MTU is zero, so it is a partial function, and \<open>None\<close> also stands
  for that.
\<close>

section \<open>Checks and waits\<close>

type_synonym ('d, 'b) interference = "('d, 'b) conn_world \<Rightarrow> ('d, 'b) conn_world"

fun ConnState_String :: "ConnState \<Rightarrow> string" where
  "ConnState_String StateInit = ''INIT''"
| "ConnState_String StateSynSent = ''SYN_SENT''"
| "ConnState_String StateSynRcvd = ''SYN_RCVD''"
| "ConnState_String StateEstablished = ''ESTABLISHED''"
| "ConnState_String StateCloseWait = ''CLOSE_WAIT''"
| "ConnState_String StateClosing = ''CLOSING''"
| "ConnState_String StateClosed = ''CLOSED''"

definition checkWriteDeadlineLocked :: "('d, 'b) conn_world \<Rightarrow> goerror option" where
  "checkWriteDeadlineLocked sw =
     (if deadlineExceeded (writeDeadline (fst sw)) (w_now (snd sw)) then Some TimeoutError else None)"

definition validateWriteStateLocked :: "('d, 'b) conn_world \<Rightarrow> goerror option" where
  "validateWriteStateLocked sw =
     (if conn_closed (fst sw) then Some (Errorf ''connection closed'' [])
      else if conn_state (fst sw) \<noteq> StateEstablished
      then Some (Errorf (''connection not established (state: '' @ ConnState_String (conn_state (fst sw)) @ '')'') [])
      else if deadlineExceeded (writeDeadline (fst sw)) (w_now (snd sw)) then Some TimeoutError
      else None)"

text \<open>Whether the choke loop waits (again): \<^verbatim>\<open>s.choked && time.Now().Before(s.chokedUntil) && !s.closed\<close>.\<close>

definition chokeBlocks :: "('d, 'b) conn_world \<Rightarrow> bool" where
  "chokeBlocks sw \<longleftrightarrow> choked (fst sw) \<and>
     (case chokedUntil (fst sw) of None \<Rightarrow> False | Some t \<Rightarrow> w_now (snd sw) < t) \<and> \<not> conn_closed (fst sw)"

fun waitForChokeCondVar ::
  "('d, 'b) interference list \<Rightarrow> ('d, 'b) conn_world \<Rightarrow>
     (goerror option \<times> ('d, 'b) interference list \<times> ('d, 'b) conn_world) option" where
  "waitForChokeCondVar waits sw =
     (if \<not> chokeBlocks sw then Some (None, waits, sw)
      else if checkWriteDeadlineLocked sw \<noteq> None then Some (checkWriteDeadlineLocked sw, waits, sw)
      else case waits of
        [] \<Rightarrow> None
      | f # fs \<Rightarrow>
          let sw = f sw in
          if checkWriteDeadlineLocked sw \<noteq> None then Some (checkWriteDeadlineLocked sw, fs, sw)
          else if validateWriteStateLocked sw \<noteq> None then Some (validateWriteStateLocked sw, fs, sw)
          else waitForChokeCondVar fs sw)"

definition handleChokeWaitLocked ::
  "('d, 'b) interference list \<Rightarrow> ('d, 'b) conn_world \<Rightarrow>
     (goerror option \<times> ('d, 'b) interference list \<times> ('d, 'b) conn_world) option" where
  "handleChokeWaitLocked waits sw =
     (if \<not> chokeBlocks sw then Some (None, waits, sw) else waitForChokeCondVar waits sw)"

definition windowFull_send :: "('d, 'b) StreamConn \<Rightarrow> bool" where
  "windowFull_send s \<longleftrightarrow> (of_nat (length (sentPackets s)) :: u32) \<ge> cwnd s \<and> \<not> conn_closed s"

fun waitForWindowSpace ::
  "('d, 'b) interference list \<Rightarrow> ('d, 'b) conn_world \<Rightarrow>
     (goerror option \<times> ('d, 'b) interference list \<times> ('d, 'b) conn_world) option" where
  "waitForWindowSpace waits sw =
     (if \<not> windowFull_send (fst sw) then Some (None, waits, sw)
      else if checkWriteDeadlineLocked sw \<noteq> None then Some (checkWriteDeadlineLocked sw, waits, sw)
      else case waits of
        [] \<Rightarrow> None
      | f # fs \<Rightarrow>
          let sw = f sw in
          if checkWriteDeadlineLocked sw \<noteq> None then Some (checkWriteDeadlineLocked sw, fs, sw)
          else if validateWriteStateLocked sw \<noteq> None then Some (validateWriteStateLocked sw, fs, sw)
          else waitForWindowSpace fs sw)"

declare waitForChokeCondVar.simps [simp del] waitForWindowSpace.simps [simp del]

section \<open>Sending\<close>

definition dataPacket :: "('d, 'b) StreamConn \<Rightarrow> byte list \<Rightarrow> 'd Packet" where
  "dataPacket s chunk =
     emptyPacket\<lparr>SendStreamID := localStreamID s, RecvStreamID := remoteStreamID s, SequenceNum := sendSeq s,
       AckThrough := recvSeq s - 1, Flags := 0, ResendDelay := getResendDelaySeconds s, Payload := chunk\<rparr>"

definition sendDataChunk ::
  "('d, 'c, 'k, 'b) env \<Rightarrow> byte list \<Rightarrow> ('d, 'b) conn_world \<Rightarrow> goerror option \<times> ('d, 'b) conn_world" where
  "sendDataChunk env chunk sw =
     (case sendPacketLocked env (dataPacket (fst sw) chunk) sw of
        (Some e, sw) \<Rightarrow> (Some (Wrap ''send packet'' e), sw)
      | (None, (s, w)) \<Rightarrow>
          (None, (s\<lparr>sendSeq := sendSeq s + 1, totalBytesSent := totalBytesSent s + of_nat (length chunk)\<rparr>, w)))"

partial_function (option) writeChunksLocked ::
  "('d, 'c, 'k, 'b) env \<Rightarrow> ('d, 'b) interference list \<Rightarrow> byte list \<Rightarrow> nat \<Rightarrow> nat \<Rightarrow> ('d, 'b) conn_world \<Rightarrow>
     (nat \<times> goerror option \<times> ('d, 'b) conn_world) option" where
  "writeChunksLocked env waits data totalLen mtu sw =
     (if length data = 0 then Some (totalLen, None, sw)
      else case waitForWindowSpace waits sw of
        None \<Rightarrow> None
      | Some (Some e, waits, sw) \<Rightarrow> Some (totalLen - length data, Some e, sw)
      | Some (None, waits, sw) \<Rightarrow>
          let chunk = (if length data > mtu then take mtu data else data) in
          (case sendDataChunk env chunk sw of
             (Some e, sw) \<Rightarrow> Some (totalLen - length data, Some e, sw)
           | (None, sw) \<Rightarrow> writeChunksLocked env waits (drop (length chunk) data) totalLen mtu sw))"

definition writeDataLocked ::
  "('d, 'c, 'k, 'b) env \<Rightarrow> ('d, 'b) interference list \<Rightarrow> byte list \<Rightarrow> ('d, 'b) conn_world \<Rightarrow>
     (nat \<times> goerror option \<times> ('d, 'b) conn_world) option" where
  "writeDataLocked env waits data sw =
     (let totalLen = length data; mtu = unat (getNegotiatedMTULocked (fst sw)) in
      case writeChunksLocked env waits data totalLen mtu sw of
        None \<Rightarrow> None
      | Some (written, Some e, sw) \<Rightarrow> Some (written, Some e, sw)
      | Some (written, None, sw) \<Rightarrow> Some (totalLen, None, sw))"

definition conn_Write ::
  "('d, 'c, 'k, 'b) env \<Rightarrow> ('d, 'b) interference list \<Rightarrow> byte list \<Rightarrow> ('d, 'b) conn_world \<Rightarrow>
     (nat \<times> goerror option \<times> ('d, 'b) conn_world) option" where
  "conn_Write env waits data sw =
     (case validateWriteStateLocked sw of
        Some e \<Rightarrow> Some (0, Some e, sw)
      | None \<Rightarrow>
     (case handleChokeWaitLocked waits sw of
        None \<Rightarrow> None
      | Some (Some e, waits, sw) \<Rightarrow> Some (0, Some e, sw)
      | Some (None, waits, sw) \<Rightarrow> writeDataLocked env waits data sw))"

section \<open>What one packet does\<close>

lemma dataPacket_fields [simp]:
  "SequenceNum (dataPacket s c) = sendSeq s" "Payload (dataPacket s c) = c" "Flags (dataPacket s c) = 0"
  "NACKs (dataPacket s c) = []"
  by (simp_all add: dataPacket_def emptyPacket_def)

lemma dataPacket_marshal: "checked (Marshal lib (dataPacket s c)) = Inr (wire_format lib (dataPacket s c))"
  by (subst Marshal_marshalable) (simp_all add: marshalable_def hasFlag_def)

text \<open>A sent chunk is one message; the connection tracks it and moves on to the next sequence number.\<close>

lemma sendDataChunk_sent:
  assumes "sendDataChunk env c (s, w) = (None, s', w')"
  obtains m i where "w_wire w' = w_wire w @ [m]" and "msg_data m = wire_format (e_lib env) (dataPacket s c)"
    and "s' = s\<lparr>sentPackets := (if c = [] then sentPackets s else AList.update (sendSeq s) i (sentPackets s)),
      lastActivity := w_now w, sendSeq := sendSeq s + 1, totalBytesSent := totalBytesSent s + of_nat (length c)\<rparr>"
    and "w_now w' = w_now w"
proof -
  define d where "d = wire_format (e_lib env) (dataPacket s c)"
  define s1 where "s1 = trackPacketForRetransmission (w_now w) s (dataPacket s c) d"
  obtain r w1 where sv: "sendViaI2CPWithTracking env s1 d (sendSeq s) (0 < length c) w = (r, w1)" by (metis surj_pair)
  have r: "r = None" "w' = w1"
    "s' = s1\<lparr>lastActivity := w_now w1, sendSeq := sendSeq s1 + 1, totalBytesSent := totalBytesSent s1 + of_nat (length c)\<rparr>"
    using assms sv by (auto simp: sendDataChunk_def sendPacketLocked_def dataPacket_marshal Let_def s1_def [symmetric] d_def [symmetric]
        split: option.splits prod.splits)
  obtain m where "w_wire w1 = w_wire w @ [m]" "msg_data m = d"
    using sv r(1) by (auto simp: sendViaI2CPWithTracking_def SendMessage_def Let_def split: if_splits prod.splits)
  then show thesis
    using that [of m "\<lparr>sp_data = d, sentTime = w_now w, retryCount = 0\<rparr>"] r sendVia_now [OF sv]
    by (simp add: d_def s1_def trackPacketForRetransmission_def)
qed

lemma sendDataChunk_failed:
  assumes "sendDataChunk env c (s, w) = (Some e, s', w')"
  shows "w_wire w' = w_wire w" and "sendSeq s' = sendSeq s"
  using assms
  by (auto simp: sendDataChunk_def sendPacketLocked_def dataPacket_marshal Let_def sendViaI2CPWithTracking_def
      SendMessage_def trackPacketForRetransmission_def split: option.splits prod.splits if_splits)

lemma sendDataChunk_accepted:
  assumes "\<And>h m. ses_SendMessage (e_session env) h m = None"
  shows "\<exists>sw'. sendDataChunk env c sw = (None, sw')"
  using assms
  by (cases sw) (auto simp: sendDataChunk_def sendPacketLocked_def dataPacket_marshal Let_def sendViaI2CPWithTracking_def
      SendMessage_def split: prod.splits)

lemma length_update_le: "length (AList.update k v xs) \<le> Suc (length xs)"
  by (induction xs) auto

lemma length_update_ge: "length xs \<le> length (AList.update k v xs)"
  by (induction xs) auto

section \<open>Waiting\<close>

lemma validate_ok: "validateWriteStateLocked sw = None \<longleftrightarrow>
    \<not> conn_closed (fst sw) \<and> conn_state (fst sw) = StateEstablished \<and> checkWriteDeadlineLocked sw = None"
  by (simp add: validateWriteStateLocked_def checkWriteDeadlineLocked_def)

text \<open>Both waits are the same loop with different conditions.\<close>

fun wait_loop ::
  "(('d, 'b) conn_world \<Rightarrow> bool) \<Rightarrow> ('d, 'b) interference list \<Rightarrow> ('d, 'b) conn_world \<Rightarrow>
     (goerror option \<times> ('d, 'b) interference list \<times> ('d, 'b) conn_world) option" where
  "wait_loop blocks waits sw =
     (if \<not> blocks sw then Some (None, waits, sw)
      else if checkWriteDeadlineLocked sw \<noteq> None then Some (checkWriteDeadlineLocked sw, waits, sw)
      else case waits of
        [] \<Rightarrow> None
      | f # fs \<Rightarrow>
          let sw = f sw in
          if checkWriteDeadlineLocked sw \<noteq> None then Some (checkWriteDeadlineLocked sw, fs, sw)
          else if validateWriteStateLocked sw \<noteq> None then Some (validateWriteStateLocked sw, fs, sw)
          else wait_loop blocks fs sw)"

declare wait_loop.simps [simp del]

lemma waits_are_loops:
  "waitForWindowSpace waits sw = wait_loop (\<lambda>sw. windowFull_send (fst sw)) waits sw"
  "waitForChokeCondVar waits sw = wait_loop chokeBlocks waits sw"
  by (induction waits arbitrary: sw; subst waitForWindowSpace.simps waitForChokeCondVar.simps;
      subst wait_loop.simps; simp add: Let_def)+

lemma handleChokeWait_loop: "handleChokeWaitLocked waits sw = wait_loop chokeBlocks waits sw"
  unfolding handleChokeWaitLocked_def waits_are_loops wait_loop.simps [of chokeBlocks waits sw] by simp

lemma wait_loop_cases:
  assumes "wait_loop blocks waits sw = Some (r, waits', sw')"
  obtains (free) "\<not> blocks sw" "r = None" "waits' = waits" "sw' = sw"
    | (late) "r \<noteq> None" "waits' = waits" "sw' = sw"
    | (woken) f where "waits = f # waits'" "sw' = f sw" "r \<noteq> None"
    | (again) f fs where "waits = f # fs" "validateWriteStateLocked (f sw) = None"
        "wait_loop blocks fs (f sw) = Some (r, waits', sw')"
  using assms unfolding wait_loop.simps [of blocks waits sw]
  by (auto simp: Let_def simp del: not_None_eq split: if_splits list.splits)

lemma wait_loop_free:
  assumes "wait_loop blocks waits sw = Some (None, waits', sw')" and "validateWriteStateLocked sw = None"
  shows "\<not> blocks sw' \<and> validateWriteStateLocked sw' = None"
  using assms
proof (induction waits arbitrary: sw)
  case Nil
  then show ?case by (cases rule: wait_loop_cases) auto
next
  case (Cons f fs)
  from Cons.prems(1) show ?case
    by (cases rule: wait_loop_cases) (use Cons.prems(2) Cons.IH [of "f sw"] in auto)
qed

text \<open>A relation that every interference respects is respected by a wait.\<close>

lemma wait_loop_rely:
  assumes "wait_loop blocks waits sw = Some (r, waits', sw')" and "\<And>f sw. f \<in> set waits \<Longrightarrow> R sw (f sw)"
    and "reflp R" and "transp R"
  shows "R sw sw' \<and> set waits' \<subseteq> set waits"
  using assms(1,2)
proof (induction waits arbitrary: sw)
  case Nil
  from Nil.prems(1) show ?case
    by (cases rule: wait_loop_cases) (use assms(3) in \<open>auto dest: reflpD\<close>)
next
  case (Cons f fs)
  have f: "R sw (f sw)" using Cons.prems(2) by simp
  from Cons.prems(1) show ?case
  proof (cases rule: wait_loop_cases)
    case (again f' fs')
    then have "R (f sw) sw' \<and> set waits' \<subseteq> set fs" using Cons.IH [of "f sw"] Cons.prems(2) by auto
    with f transpD [OF assms(4)] show ?thesis by auto
  qed (use f assms(3) in \<open>auto dest: reflpD\<close>)
qed

section \<open>A write as a run of data packets\<close>

text \<open>
  What the writer relies on: while it waits nobody else numbers packets of this connection, the negotiated
  MTU stays, and messages handed to I2CP stay handed over.
\<close>

definition writer_rely :: "('d, 'b) conn_world \<Rightarrow> ('d, 'b) conn_world \<Rightarrow> bool" where
  "writer_rely a b \<longleftrightarrow> sendSeq (fst b) = sendSeq (fst a) \<and> localMTU (fst b) = localMTU (fst a) \<and>
     remoteMTU (fst b) = remoteMTU (fst a) \<and> prefix (w_wire (snd a)) (w_wire (snd b))"

lemma writer_rely_order: "reflp writer_rely" "transp writer_rely"
  by (auto simp: writer_rely_def reflp_def transp_def)

definition data_run :: "u32 \<Rightarrow> nat \<Rightarrow> 'd Packet list \<Rightarrow> bool" where
  "data_run q mtu ps \<longleftrightarrow> map SequenceNum ps = map (\<lambda>i. q + of_nat i) [0..<length ps] \<and>
     (\<forall>p\<in>set ps. Flags p = 0 \<and> NACKs p = [] \<and> Payload p \<noteq> [] \<and> length (Payload p) \<le> mtu)"

definition on_wire :: "('d, 'c, 'k, 'b) env \<Rightarrow> 'd Packet list \<Rightarrow> 'd message list \<Rightarrow> bool" where
  "on_wire env ps new \<longleftrightarrow> (\<exists>ms. subseq ms new \<and> list_all2 (\<lambda>p m. msg_data m = wire_format (e_lib env) p) ps ms)"

lemma data_run_Nil [simp]: "data_run q mtu []" by (simp add: data_run_def)

lemma data_run_Cons [simp]: "data_run q mtu (p # ps) \<longleftrightarrow> SequenceNum p = q \<and> Flags p = 0 \<and> NACKs p = [] \<and>
    Payload p \<noteq> [] \<and> length (Payload p) \<le> mtu \<and> data_run (q + 1) mtu ps"
proof -
  have "map (\<lambda>i. q + of_nat i) [0..<length (p # ps)] = q # map (\<lambda>i. q + 1 + of_nat i) [0..<length ps]"
    by (simp add: upt_conv_Cons map_Suc_upt [symmetric] comp_def add.assoc del: upt_Suc)
  then show ?thesis by (auto simp: data_run_def)
qed

lemma on_wire_Nil [simp]: "on_wire env [] new" by (auto simp: on_wire_def intro: exI [of _ "[]"])

lemma on_wire_Cons:
  assumes "on_wire env ps new" and "msg_data m = wire_format (e_lib env) p"
  shows "on_wire env (p # ps) (before @ m # new)"
proof -
  from assms(1) obtain ms where "subseq ms new" "list_all2 (\<lambda>p m. msg_data m = wire_format (e_lib env) p) ps ms"
    by (auto simp: on_wire_def)
  with assms(2) show ?thesis
    unfolding on_wire_def by (intro exI [of _ "m # ms"]) (simp add: list_emb_append2)
qed

lemma on_wire_later: "on_wire env ps new \<Longrightarrow> on_wire env ps (v @ new)"
  by (auto simp: on_wire_def intro: subseq_order.order_trans)

lemma writeChunks_sends:
  assumes "0 < mtu" and "writeChunksLocked env waits data totalLen mtu (s, w) = Some (n, r, s', w')"
    and "\<And>f sw. f \<in> set waits \<Longrightarrow> writer_rely sw (f sw)" and "length data \<le> totalLen"
  shows "\<exists>ps new. totalLen - length data \<le> n \<and> n \<le> totalLen \<and> (r = None \<longrightarrow> n = totalLen) \<and>
    w_wire w' = w_wire w @ new \<and> on_wire env ps new \<and> data_run (sendSeq s) mtu ps \<and>
    concat (map Payload ps) = take (n - (totalLen - length data)) data \<and> sendSeq s' = sendSeq s + of_nat (length ps)"
  using assms(2-)
proof (induction "length data" arbitrary: data waits s w rule: less_induct)
  case less
  show ?case
  proof (cases "data = []")
    case True
    with less.prems(1) show ?thesis by (intro exI [of _ "[]"]) (simp add: writeChunksLocked.simps)
  next
    case False
    from False less.prems(1) obtain e ws s1 w1 where ww: "waitForWindowSpace waits (s, w) = Some (e, ws, s1, w1)"
      by (subst (asm) writeChunksLocked.simps) (auto split: option.splits)
    have "writer_rely (s, w) (s1, w1)" and ws: "set ws \<subseteq> set waits"
      using wait_loop_rely [OF ww [unfolded waits_are_loops], of writer_rely] less.prems(2) writer_rely_order by auto
    then obtain v where v: "w_wire w1 = w_wire w @ v" and q: "sendSeq s1 = sendSeq s"
      by (auto simp: writer_rely_def prefix_def)
    define c where "c = (if mtu < length data then take mtu data else data)"
    have c: "c \<noteq> []" "length c \<le> mtu" "c @ drop (length c) data = data" "length c \<le> length data"
      using False assms(1) by (auto simp: c_def min_def)
    obtain e2 s2 w2 where sd: "sendDataChunk env c (s1, w1) = (e2, s2, w2)" by (metis surj_pair)
    have step: "Some (n, r, s', w') = (case e of Some e \<Rightarrow> Some (totalLen - length data, Some e, s1, w1)
      | None \<Rightarrow> (case e2 of Some e \<Rightarrow> Some (totalLen - length data, Some e, s2, w2)
         | None \<Rightarrow> writeChunksLocked env ws (drop (length c) data) totalLen mtu (s2, w2)))"
      using less.prems(1) False ww sd
      by (subst (asm) writeChunksLocked.simps) (auto simp: c_def [symmetric] split: option.splits)
    have stop: ?thesis if "n = totalLen - length data" "r \<noteq> None" "sendSeq s' = sendSeq s" "w_wire w' = w_wire w @ v"
      by (rule exI [of _ "[]"], rule exI [of _ v]) (use that in auto)
    show ?thesis
    proof (cases "e = None \<and> e2 = None")
      case False
      with step v q sendDataChunk_failed [of env c s1 w1 _ s2 w2] sd show ?thesis
        by (intro stop) (auto split: option.splits)
    next
      case True
      with step have rec: "writeChunksLocked env ws (drop (length c) data) totalLen mtu (s2, w2) = Some (n, r, s', w')" by simp
      from sd True obtain m i where m: "w_wire w2 = w_wire w1 @ [m]" "msg_data m = wire_format (e_lib env) (dataPacket s1 c)"
        "sendSeq s2 = sendSeq s1 + 1" by (auto elim!: sendDataChunk_sent)
      have "length (drop (length c) data) < length data" using c(1,4) by (cases c) auto
      moreover have "length (drop (length c) data) \<le> totalLen" using less.prems(3) by simp
      ultimately obtain ps new where
        ih: "totalLen - (length data - length c) \<le> n" "n \<le> totalLen" "r = None \<longrightarrow> n = totalLen"
          "w_wire w' = w_wire w2 @ new" "on_wire env ps new" "data_run (sendSeq s2) mtu ps"
          "concat (map Payload ps) = take (n - (totalLen - (length data - length c))) (drop (length c) data)"
          "sendSeq s' = sendSeq s2 + of_nat (length ps)"
        using less.hyps [OF _ rec] less.prems(2) ws unfolding length_drop by (meson subsetD)
      have n: "n - (totalLen - length data) = length c + (n - (totalLen - (length data - length c)))"
        using ih(1) c(4) less.prems(3) by linarith
      have "take (n - (totalLen - length data)) data = c @ concat (map Payload ps)"
        unfolding n ih(7) by (subst (2) c(3) [symmetric]) (simp only: take_add take_append, simp)
      then show ?thesis
        using ih m q v c(1,2) on_wire_Cons [OF ih(5) m(2), of v] less.prems(3) c(4)
        by (intro exI [of _ "dataPacket s1 c # ps"] exI [of _ "v @ m # new"]) auto
    qed
  qed
qed

text \<open>One round of the write loop, when it sends.\<close>

lemma writeChunks_step:
  assumes "data \<noteq> []" and "waitForWindowSpace waits sw = Some (None, ws, sw1)"
    and "sendDataChunk env (take mtu data) sw1 = (None, sw2)"
  shows "writeChunksLocked env waits data totalLen mtu sw = writeChunksLocked env ws (drop mtu data) totalLen mtu sw2"
proof -
  let ?c = "if mtu < length data then take mtu data else data"
  have "?c = take mtu data" "drop (length (take mtu data)) data = drop mtu data" by (auto simp: min_def)
  with assms show ?thesis unfolding writeChunksLocked.simps [of env waits] Let_def by (simp only:) simp
qed

lemma writeChunks_round:
  assumes "writeChunksLocked env waits data totalLen mtu sw = Some (n, None, sw')" and "data \<noteq> []"
  obtains ws sw1 sw2 where "waitForWindowSpace waits sw = Some (None, ws, sw1)"
    and "sendDataChunk env (take mtu data) sw1 = (None, sw2)"
    and "writeChunksLocked env ws (drop mtu data) totalLen mtu sw2 = Some (n, None, sw')"
proof -
  let ?c = "if mtu < length data then take mtu data else data"
  have c: "?c = take mtu data" "drop (length ?c) data = drop mtu data" by (auto simp: min_def)
  have d: "drop (min (length data) mtu) data = drop mtu data" by (simp add: min_def)
  show thesis
    using assms that unfolding writeChunksLocked.simps [of env waits] Let_def c
    by (auto simp: d split: option.splits prod.splits)
qed

lemma writeChunks_total:
  assumes "writeChunksLocked env waits data totalLen mtu sw = Some (n, r, sw')" and "r = None"
  shows "n = totalLen"
proof -
  have "fst (snd y) = None \<longrightarrow> fst y = totalLen" if "writeChunksLocked env waits data totalLen mtu sw = Some y" for y
    by (rule writeChunksLocked.raw_induct
        [of "\<lambda>env waits data totalLen mtu sw y. fst (snd y) = None \<longrightarrow> fst y = totalLen", OF _ that])
      (auto simp: Let_def split: if_splits option.splits prod.splits)
  from this [OF assms(1)] assms(2) show ?thesis by simp
qed

lemma writeChunks_window:
  assumes "0 < mtu" and "writeChunksLocked env waits data totalLen mtu sw = Some (n, None, s', w')"
    and "data \<noteq> []" and "validateWriteStateLocked sw = None" and "length (sentPackets s') < 2 ^ 32"
  shows "length (sentPackets s') \<le> unat (cwnd s')"
  using assms(2-4)
proof (induction "length data" arbitrary: data waits sw rule: less_induct)
  case less
  from less.prems(1,2) obtain ws s1 w1 s2 w2 where ww: "waitForWindowSpace waits sw = Some (None, ws, s1, w1)"
    and sd: "sendDataChunk env (take mtu data) (s1, w1) = (None, s2, w2)"
    and rec: "writeChunksLocked env ws (drop mtu data) totalLen mtu (s2, w2) = Some (n, None, s', w')"
    by (rule writeChunks_round) auto
  have free: "\<not> windowFull_send s1" "validateWriteStateLocked (s1, w1) = None"
    using wait_loop_free [OF ww [unfolded waits_are_loops] less.prems(3)] by auto
  from sd obtain m i where s2: "w_now w2 = w_now w1" "s2 = s1\<lparr>sentPackets := (if take mtu data = [] then sentPackets s1
      else AList.update (sendSeq s1) i (sentPackets s1)), lastActivity := w_now w1, sendSeq := sendSeq s1 + 1,
      totalBytesSent := totalBytesSent s1 + of_nat (length (take mtu data))\<rparr>"
    by (rule sendDataChunk_sent)
  show ?case
  proof (cases "drop mtu data = []")
    case True
    with rec have "s' = s2" by (simp add: writeChunksLocked.simps)
    moreover have "length (sentPackets s2) \<le> Suc (length (sentPackets s1))" using s2(2) length_update_le by auto
    moreover have "(of_nat (length (sentPackets s1)) :: u32) < cwnd s1"
      using free by (simp add: windowFull_send_def validate_ok not_le)
    moreover have "length (sentPackets s1) \<le> length (sentPackets s2)" using s2(2) by (simp add: length_update_ge)
    ultimately show ?thesis using assms(5) s2(2)
      by (simp add: word_less_nat_alt unat_of_nat take_bit_nat_eq_self)
  next
    case False
    have "validateWriteStateLocked (s2, w2) = None"
      using free(2) s2 by (simp add: validate_ok checkWriteDeadlineLocked_def)
    with less.hyps [OF _ rec False] assms(1) less.prems(2) show ?thesis by simp
  qed
qed

lemma writeChunks_completes:
  assumes "0 < mtu" and "\<And>h m. ses_SendMessage (e_session env) h m = None"
    and "validateWriteStateLocked sw = None" and "I sw" and "length data \<le> mtu * length waits"
    and "\<And>f sw. f \<in> set waits \<Longrightarrow> validateWriteStateLocked sw = None \<Longrightarrow> I sw \<Longrightarrow>
      validateWriteStateLocked (f sw) = None \<and> I (f sw) \<and> \<not> windowFull_send (fst (f sw))"
    and "\<And>c sw sw'. c \<noteq> [] \<Longrightarrow> validateWriteStateLocked sw = None \<Longrightarrow> I sw \<Longrightarrow> \<not> windowFull_send (fst sw) \<Longrightarrow>
      sendDataChunk env c sw = (None, sw') \<Longrightarrow> I sw'"
  shows "\<exists>sw'. writeChunksLocked env waits data totalLen mtu sw = Some (totalLen, None, sw')"
  using assms(3-6)
proof (induction "length data" arbitrary: data waits sw rule: less_induct)
  case less
  show ?case
  proof (cases "data = []")
    case True
    then show ?thesis by (simp add: writeChunksLocked.simps)
  next
    case False
    obtain ws sw1 where ww: "waitForWindowSpace waits sw = Some (None, ws, sw1)" "validateWriteStateLocked sw1 = None"
      "I sw1" "set ws \<subseteq> set waits" "length data - mtu \<le> mtu * length ws" "\<not> windowFull_send (fst sw1)"
    proof (cases "windowFull_send (fst sw)")
      case False
      with that [of waits sw] less.prems(1,2,3) show ?thesis by (simp add: waitForWindowSpace.simps)
    next
      case True
      from less.prems(3) False obtain f fs where w: "waits = f # fs" by (cases waits) auto
      with less.prems(1,2,4) have f: "validateWriteStateLocked (f sw) = None" "I (f sw)" "\<not> windowFull_send (fst (f sw))" by auto
      then have "waitForWindowSpace fs (f sw) = Some (None, fs, f sw)" by (simp add: waitForWindowSpace.simps)
      then have "waitForWindowSpace waits sw = Some (None, fs, f sw)"
        using True w f(1) less.prems(1) unfolding waitForWindowSpace.simps [of waits sw] validate_ok by simp
      with that [of fs "f sw"] f w less.prems(3) show ?thesis by (simp add: subset_insertI)
    qed
    obtain s1 w1 where sw1: "sw1 = (s1, w1)" by (cases sw1)
    obtain sw2 where sd: "sendDataChunk env (take mtu data) sw1 = (None, sw2)"
      using sendDataChunk_accepted [OF assms(2)] by blast
    obtain s2 w2 where sw2: "sw2 = (s2, w2)" by (cases sw2)
    have "take mtu data \<noteq> []" using False assms(1) by simp
    then have i: "I sw2" using assms(7) [OF _ ww(2,3,6) sd] by blast
    from sd have "validateWriteStateLocked sw2 = None"
      unfolding sw1 sw2 using ww(2) by (auto simp: sw1 validate_ok checkWriteDeadlineLocked_def elim!: sendDataChunk_sent)
    moreover have "length (drop mtu data) < length data" using False assms(1) by simp
    ultimately obtain sw' where "writeChunksLocked env ws (drop mtu data) totalLen mtu sw2 = Some (totalLen, None, sw')"
      using less.hyps [of "drop mtu data" sw2 ws] ww(4,5) i less.prems(4) by (auto simp: subset_iff)
    with ww(1) sd False show ?thesis by (simp add: writeChunks_step)
  qed
qed

text \<open>The packets in flight are the ones after the last acknowledged number, and no more than the largest window.\<close>

definition in_flight :: "('d, 'b) StreamConn \<Rightarrow> bool" where
  "in_flight s \<longleftrightarrow> map fst (sentPackets s) = map (\<lambda>i. ackThrough s + of_nat (Suc i)) [0..<length (sentPackets s)] \<and>
     sendSeq s = ackThrough s + of_nat (Suc (length (sentPackets s))) \<and> length (sentPackets s) \<le> 128"

text \<open>The peer's acknowledgement of everything sent so far is processed.\<close>

definition peerAcks :: "('d, 'c, 'k, 'b) env \<Rightarrow> ('d, 'b) interference" where
  "peerAcks env sw = handleAckLocked env (emptyPacket\<lparr>AckThrough := sendSeq (fst sw) - 1\<rparr>) sw"

lemma ackStep_deadline: "writeDeadline (ackStep now pkt s) = writeDeadline s"
proof -
  have "writeDeadline (measureRTTFromAck now a t) = writeDeadline t" "writeDeadline (updateCongestionWindow t) = writeDeadline t"
    "writeDeadline (cleanupAckedPacketsLocked o1 o2 ns t) = writeDeadline t" for a o1 o2 ns and t :: "('a, 'b) StreamConn"
    by (simp_all add: measureRTTFromAck_def calculateRTO_def updateRTTEstimate_def updateCongestionWindow_def
        cleanupAckedPacketsLocked_def broadcast_send_def Let_def split: option.split)
  then show ?thesis by (simp add: ackStep_def)
qed

lemma peerAcks_room:
  assumes "in_flight s" and "cc_inv s"
  obtains s' where "peerAcks env (s, w) = (s', w)" and "sentPackets s' = []" and "in_flight s'" and "cc_inv s'" and "id_same s s'"
    and "writeDeadline s' = writeDeadline s"
proof -
  let ?n = "length (sentPackets s)" and ?pkt = "emptyPacket\<lparr>AckThrough := sendSeq s - 1\<rparr> :: 'a Packet"
  let ?s = "ackStep (w_now w) ?pkt s"
  have p: "peerAcks env (s, w) = (?s, w)"
    by (simp add: peerAcks_def handleAckLocked_eq handleNACKsLocked_def emptyPacket_def handleOptionalDelayLocked_def Let_def)
  have seq: "sendSeq s - 1 = ackThrough s + of_nat ?n" and n: "?n < 2 ^ 31" using assms(1) by (auto simp: in_flight_def)
  have new: "newAck ?pkt s \<longleftrightarrow> 0 < ?n"
    using seq.gt_window [of ?n 0 "ackThrough s"] n by (simp add: newAck_def seq emptyPacket_def)
  have "\<forall>q\<in>set (map fst (sentPackets s)). seqLessThanOrEqual q (sendSeq s - 1)"
  proof
    fix q
    assume "q \<in> set (map fst (sentPackets s))"
    then obtain i where "i < ?n" "q = ackThrough s + of_nat (Suc i)" using assms(1) unfolding in_flight_def by auto
    then show "seqLessThanOrEqual q (sendSeq s - 1)" using seq.le_window [of "Suc i" ?n "ackThrough s"] n by (simp add: seq)
  qed
  then have "map fst (sentPackets ?s) = []"
    using ackStep_facts(1) [of "w_now w" ?pkt s] new by (auto simp: filter_empty_conv)
  then have e: "sentPackets ?s = []" by simp
  have "ackThrough ?s = sendSeq s - 1" using ackStep_facts(2) [of "w_now w" ?pkt s] new seq by auto
  then have "in_flight ?s" using e ackStep_facts(5) [of "w_now w" ?pkt s] by (simp add: in_flight_def)
  with that [OF p e] ackStep_facts(4,7) [of s "w_now w" ?pkt] assms(2) ackStep_deadline show thesis by blast
qed

lemma in_flight_send:
  assumes "in_flight s" and "cc_inv s" and "\<not> windowFull_send s" and "\<not> conn_closed s" and "c \<noteq> []"
    and "sendDataChunk env c (s, w) = (None, s', w')"
  shows "in_flight s' \<and> cc_inv s'"
proof -
  let ?n = "length (sentPackets s)"
  from assms(6) obtain i where s': "s' = s\<lparr>sentPackets := AList.update (sendSeq s) i (sentPackets s),
      lastActivity := w_now w, sendSeq := sendSeq s + 1, totalBytesSent := totalBytesSent s + of_nat (length c)\<rparr>"
    using assms(5) by (auto elim!: sendDataChunk_sent)
  have "(of_nat ?n :: u32) < cwnd s" "cwnd s \<le> 128"
    using assms(2,3,4) by (auto simp: windowFull_send_def cc_inv_def window_ok_def MaxWindowSize_def)
  then have "unat (of_nat ?n :: u32) < 128" by (simp add: word_less_nat_alt word_le_nat_alt)
  then have n: "?n < 128" using assms(1) by (simp add: in_flight_def unat_of_nat)
  have "sendSeq s \<notin> set (map fst (sentPackets s))"
  proof
    assume "sendSeq s \<in> set (map fst (sentPackets s))"
    then obtain j where "j < ?n" "(of_nat (Suc ?n) :: u32) = of_nat (Suc j)" using assms(1) unfolding in_flight_def by auto
    then show False using seq.inj_window [of "Suc ?n" "Suc j"] n by simp
  qed
  then have "AList.update (sendSeq s) i (sentPackets s) = sentPackets s @ [(sendSeq s, i)]" by (intro length_update_new) auto
  then show ?thesis using assms(1,2) n by (simp add: s' in_flight_def cc_inv_def)
qed

text \<open>How \<^verbatim>\<open>Write\<close> ends: before it sends anything, or with the result of the loop.\<close>

lemma conn_Write_cases:
  assumes "conn_Write env waits data sw = Some (n, r, sw')"
  obtains (refused) "n = 0" "r \<noteq> None" "sw' = sw"
    | (stopped) ws where "wait_loop chokeBlocks waits sw = Some (r, ws, sw')" "n = 0" "r \<noteq> None"
    | (sent) ws sw1 where "validateWriteStateLocked sw = None" "wait_loop chokeBlocks waits sw = Some (None, ws, sw1)"
        "writeChunksLocked env ws data (length data) (unat (getNegotiatedMTULocked (fst sw1))) sw1 = Some (n, r, sw')"
proof (cases "validateWriteStateLocked sw")
  case (Some e)
  with assms have "(n, r, sw') = (0, Some e, sw)" by (auto simp: conn_Write_def)
  with refused show thesis by auto
next
  case None
  with assms obtain e ws s1 w1 where ww: "wait_loop chokeBlocks waits sw = Some (e, ws, s1, w1)"
    by (auto simp: conn_Write_def handleChokeWait_loop split: option.splits)
  show thesis
  proof (cases e)
    case (Some x)
    with assms ww None stopped show thesis by (auto simp: conn_Write_def handleChokeWait_loop)
  next
    case eN: None
    have wd: "writeDataLocked env ws data (s1, w1) = Some (n, r, sw')"
      using assms ww None eN by (simp add: conn_Write_def handleChokeWait_loop)
    have "writeChunksLocked env ws data (length data) (unat (getNegotiatedMTULocked s1)) (s1, w1) = Some (n, r, sw')"
      using wd writeChunks_total [of env ws data "length data" _ "(s1, w1)"]
      by (auto simp: writeDataLocked_def Let_def split: option.splits)
    with sent None ww eN show thesis by simp
  qed
qed

lemma Write_run:
  assumes "conn_Write env waits data (s, w) = Some (n, r, s', w')" and "0 < getNegotiatedMTULocked s"
    and "\<And>f sw. f \<in> set waits \<Longrightarrow> writer_rely sw (f sw)"
  shows "n \<le> length data \<and> (r = None \<longrightarrow> n = length data) \<and>
    (\<exists>ps new. w_wire w' = w_wire w @ new \<and> on_wire env ps new \<and>
      data_run (sendSeq s) (unat (getNegotiatedMTULocked s)) ps \<and> concat (map Payload ps) = take n data \<and>
      sendSeq s' = sendSeq s + of_nat (length ps))"
  using assms(1)
proof (cases rule: conn_Write_cases)
  case refused
  then show ?thesis by (intro conjI exI [of _ "[]"]) auto
next
  case (stopped ws)
  from wait_loop_rely [OF stopped(1), of writer_rely] assms(3) writer_rely_order
  obtain new where "w_wire w' = w_wire w @ new" "sendSeq s' = sendSeq s" by (auto simp: writer_rely_def prefix_def)
  with stopped show ?thesis by (intro conjI exI [of _ "[]"] exI [of _ new]) auto
next
  case (sent ws sw1)
  obtain s1 w1 where sw1: "sw1 = (s1, w1)" by (cases sw1)
  from wait_loop_rely [OF sent(2), of writer_rely] assms(3) writer_rely_order have
    rel: "writer_rely (s, w) (s1, w1)" and ws: "set ws \<subseteq> set waits" by (auto simp: sw1)
  have mtu: "getNegotiatedMTULocked s1 = getNegotiatedMTULocked s" and q: "sendSeq s1 = sendSeq s"
    using rel by (simp_all add: writer_rely_def getNegotiatedMTULocked_def)
  obtain v where v: "w_wire w1 = w_wire w @ v" using rel by (auto simp: writer_rely_def prefix_def)
  have "0 < unat (getNegotiatedMTULocked s)" using assms(2) by (simp add: word_less_nat_alt)
  moreover have "writer_rely sw (f sw)" if "f \<in> set ws" for f sw using that ws assms(3) by blast
  ultimately obtain ps new where
    "n \<le> length data" "r = None \<longrightarrow> n = length data" "w_wire w' = w_wire w1 @ new" "on_wire env ps new"
    "data_run (sendSeq s) (unat (getNegotiatedMTULocked s)) ps" "concat (map Payload ps) = take n data"
    "sendSeq s' = sendSeq s + of_nat (length ps)"
    using writeChunks_sends [OF _ sent(3) [unfolded sw1 fst_conv mtu]] unfolding q by auto
  with v on_wire_later show ?thesis by (intro conjI exI [of _ ps] exI [of _ "v @ new"]) auto
qed

section \<open>A concrete write\<close>

text \<open>A wake-up after the peer has acknowledged everything.\<close>

definition demo_relief :: "('d, 'b) interference" where
  "demo_relief sw = ((fst sw)\<lparr>sentPackets := [], cwnd := 6\<rparr>, snd sw)"

lemma demo_relief_facts:
  "writer_rely sw (demo_relief sw)" "getNegotiatedMTULocked (fst (demo_relief sw)) = getNegotiatedMTULocked (fst sw)"
  "validateWriteStateLocked sw = None \<Longrightarrow>
     validateWriteStateLocked (demo_relief sw) = None \<and> \<not> windowFull_send (fst (demo_relief sw))"
  by (simp_all add: writer_rely_def demo_relief_def getNegotiatedMTULocked_def validate_ok checkWriteDeadlineLocked_def
      windowFull_send_def)

lemma demo_writer:
  "validateWriteStateLocked (demo_conn, demo_world) = None" "\<not> chokeBlocks (demo_conn, demo_world)"
  "getNegotiatedMTULocked demo_conn = 1730"
  by (simp_all add: validate_ok checkWriteDeadlineLocked_def deadlineExceeded_def chokeBlocks_def demo_conn_def
      getNegotiatedMTULocked_def)

lemma demo_write: "\<exists>s w. conn_Write demo_env [demo_relief] [7, 8] (demo_conn, demo_world) = Some (Suc (Suc 0), None, s, w) \<and>
    length (sentPackets s) \<le> 4"
proof -
  obtain s w where h: "sendDataChunk demo_env [7, 8] (demo_conn, demo_world) = (None, s, w)"
    using sendDataChunk_accepted [of demo_env "[7, 8]" "(demo_conn, demo_world)"] by (auto simp: demo_session_def)
  have len: "length (sentPackets demo_conn) = 3" by (simp add: demo_conn_def)
  then have "waitForWindowSpace [demo_relief] (demo_conn, demo_world) = Some (None, [demo_relief], demo_conn, demo_world)"
    by (simp add: waitForWindowSpace.simps windowFull_send_def)
  then have "writeChunksLocked demo_env [demo_relief] [7, 8] (Suc (Suc 0)) 1730 (demo_conn, demo_world) = Some (Suc (Suc 0), None, s, w)"
    using h by (subst writeChunks_step) (simp_all add: writeChunksLocked.simps)
  moreover have "length (sentPackets s) \<le> 4"
    using h length_update_le [of _ _ "sentPackets demo_conn"] len by (auto elim!: sendDataChunk_sent)
  moreover have "unat (getNegotiatedMTULocked demo_conn) = 1730" by (simp add: demo_writer)
  ultimately show ?thesis using demo_writer
    by (simp add: conn_Write_def handleChokeWaitLocked_def writeDataLocked_def Let_def)
qed

section \<open>Properties\<close>

text \<open>
  C7. A write sends its data and nothing else: let the MTU be positive, and let the other goroutines, while it waits, number no packets themselves (no
  second \<^verbatim>\<open>Write\<close>, no probe of the persist timer) and leave the MTU as it is.  Then, when \<^verbatim>\<open>Write\<close> returns having written \<open>n\<close> bytes, with or without an error, the
  messages it handed to I2CP, in this order, are packets with consecutive sequence numbers from the next one on, each
  with a payload of at least one and at most MTU bytes, and their payloads together are exactly the first \<open>n\<close> bytes; without an error \<open>n\<close>
  is all of them.
\<close>

theorem Write_sends_prefix:
  assumes "conn_Write env waits data (s, w) = Some (n, r, s', w')" and "0 < getNegotiatedMTULocked s"
    and "\<And>f sw. f \<in> set waits \<Longrightarrow> writer_rely sw (f sw)"
  shows "n \<le> length data \<and> (r = None \<longrightarrow> n = length data) \<and>
    (\<exists>ps new. w_wire w' = w_wire w @ new \<and> on_wire env ps new \<and>
      data_run (sendSeq s) (unat (getNegotiatedMTULocked s)) ps \<and> concat (map Payload ps) = take n data \<and>
      sendSeq s' = sendSeq s + of_nat (length ps))"
  by (rule Write_run [OF assms(1,2)]) (rule assms(3))

theorem Write_sends_prefix_witness:
  "\<exists>s w ps new. conn_Write demo_env [demo_relief] [7, 8] (demo_conn, demo_world) = Some (2, None, s, w) \<and>
     w_wire w = new \<and> on_wire demo_env ps new \<and> concat (map Payload ps) = [7, 8] \<and> data_run 104 1730 ps"
proof -
  obtain s w where h: "conn_Write demo_env [demo_relief] [7, 8] (demo_conn, demo_world) = Some (2, None, s, w)"
    using demo_write by (auto simp: numeral_2_eq_2)
  have "2 \<le> length [7, 8 :: byte] \<and> (None = (None :: goerror option) \<longrightarrow> 2 = length [7, 8 :: byte]) \<and>
    (\<exists>ps new. w_wire w = w_wire demo_world @ new \<and> on_wire demo_env ps new \<and>
      data_run (sendSeq demo_conn) (unat (getNegotiatedMTULocked demo_conn)) ps \<and> concat (map Payload ps) = take 2 [7, 8] \<and>
      sendSeq s = sendSeq demo_conn + of_nat (length ps))"
    by (rule Write_sends_prefix [OF h]) (auto simp: demo_writer demo_relief_facts)
  with h show ?thesis by (auto simp: demo_writer demo_world_def)
qed

text \<open>
  C25. The window is respected: whatever happens while the writer waits, when \<^verbatim>\<open>Write\<close> has sent its last packet
  the number of packets in flight is at most the congestion window.
\<close>

theorem Write_respects_window:
  assumes "conn_Write env waits data (s, w) = Some (n, None, s', w')" and "data \<noteq> []"
    and "\<And>f sw. f \<in> set waits \<Longrightarrow> 0 < getNegotiatedMTULocked (fst sw) \<Longrightarrow> 0 < getNegotiatedMTULocked (fst (f sw))"
    and "0 < getNegotiatedMTULocked s" and "length (sentPackets s') < 2 ^ 32"
  shows "length (sentPackets s') \<le> unat (cwnd s')"
  using assms(1)
proof (cases rule: conn_Write_cases)
  case (sent ws sw1)
  let ?R = "\<lambda>a b. 0 < getNegotiatedMTULocked (fst a) \<longrightarrow> 0 < getNegotiatedMTULocked (fst b)"
  have "?R (s, w) sw1" using wait_loop_rely [OF sent(2), of ?R] assms(3) by (auto simp: reflp_def transp_def)
  then have "0 < unat (getNegotiatedMTULocked (fst sw1))" using assms(4) by (simp add: word_less_nat_alt)
  from writeChunks_window [OF this sent(3) assms(2) _ assms(5)] wait_loop_free [OF sent(2,1)] show ?thesis by simp
qed auto

theorem Write_respects_window_witness:
  "\<exists>s w. conn_Write demo_env [demo_relief] [7, 8] (demo_conn, demo_world) = Some (2, None, s, w) \<and>
     length (sentPackets s) \<le> unat (cwnd s)"
proof -
  obtain s w where h: "conn_Write demo_env [demo_relief] [7, 8] (demo_conn, demo_world) = Some (2, None, s, w)"
    and l: "length (sentPackets s) \<le> 4" using demo_write unfolding numeral_2_eq_2 by blast
  have "length (sentPackets s) \<le> unat (cwnd s)"
    by (rule Write_respects_window [OF h]) (use l in \<open>auto simp: demo_writer demo_relief_facts\<close>)
  with h show ?thesis by auto
qed

text \<open>
  C23. A write completes: let a connection be usable, not choked by its peer and with an MTU that is not 0, let its packets in flight be the ones after the
  last acknowledged number, and let I2CP take every message.  If each time the writer waits for the window the peer's acknowledgement of everything
  sent so far is processed, then a \<^verbatim>\<open>Write\<close> of any length returns with all its bytes written, after at most one wait per packet.
\<close>

theorem Write_completes:
  assumes "\<And>h m. ses_SendMessage (e_session env) h m = None" and "validateWriteStateLocked sw = None"
    and "\<not> chokeBlocks sw" and "0 < getNegotiatedMTULocked (fst sw)" and "in_flight (fst sw)" and "cc_inv (fst sw)"
    and "length data \<le> unat (getNegotiatedMTULocked (fst sw)) * n"
  shows "\<exists>sw'. conn_Write env (replicate n (peerAcks env)) data sw = Some (length data, None, sw')"
proof -
  have mtu: "0 < unat (getNegotiatedMTULocked (fst sw))" using assms(4) by (simp add: word_less_nat_alt)
  have ack: "validateWriteStateLocked (f sw) = None \<and> (in_flight (fst (f sw)) \<and> cc_inv (fst (f sw))) \<and> \<not> windowFull_send (fst (f sw))"
    if "f \<in> set (replicate n (peerAcks env))" "validateWriteStateLocked sw = None" "in_flight (fst sw) \<and> cc_inv (fst sw)" for f sw
  proof -
    obtain s w where sw: "sw = (s, w)" by fastforce
    have i: "in_flight s" "cc_inv s" using that(3) by (simp_all add: sw)
    obtain s' where s': "peerAcks env (s, w) = (s', w)" "sentPackets s' = []" "in_flight s'" "cc_inv s'" "id_same s s'"
      "writeDeadline s' = writeDeadline s" by (rule peerAcks_room [OF i])
    have f: "f = peerAcks env" using that(1) by (metis in_set_replicate)
    have "validateWriteStateLocked (s', w) = None" using that(2) s'(5,6) by (simp add: sw validate_ok checkWriteDeadlineLocked_def same_defs)
    moreover have "\<not> windowFull_send s'" using s'(2,4) by (simp add: windowFull_send_def cc_inv_def window_ok_nat word_le_nat_alt)
    ultimately show ?thesis using s'(1,3,4) by (simp add: sw f)
  qed
  have send: "in_flight (fst sw') \<and> cc_inv (fst sw')" if "c \<noteq> []" "validateWriteStateLocked sw = None" "in_flight (fst sw) \<and> cc_inv (fst sw)"
    "\<not> windowFull_send (fst sw)" "sendDataChunk env c sw = (None, sw')" for c sw sw'
    using that in_flight_send [of "fst sw" c env "snd sw" "fst sw'" "snd sw'"] by (simp add: validate_ok)
  have "\<exists>sw'. writeChunksLocked env (replicate n (peerAcks env)) data (length data) (unat (getNegotiatedMTULocked (fst sw))) sw =
      Some (length data, None, sw')"
  proof (rule writeChunks_completes [where I = "\<lambda>sw. in_flight (fst sw) \<and> cc_inv (fst sw)", OF mtu assms(1,2)])
    show "in_flight (fst sw) \<and> cc_inv (fst sw)" using assms(5,6) by simp
    show "length data \<le> unat (getNegotiatedMTULocked (fst sw)) * length (replicate n (peerAcks env))" using assms(7) by simp
  qed (erule (2) ack, erule (4) send)
  with assms(2,3) show ?thesis
    by (auto simp: conn_Write_def handleChokeWaitLocked_def writeDataLocked_def)
qed

theorem Write_completes_witness:
  "windowFull_send (demo_conn\<lparr>cwnd := 3\<rparr>) \<and>
   (\<exists>sw'. conn_Write demo_env (replicate 1 (peerAcks demo_env)) [7, 8] (demo_conn\<lparr>cwnd := 3\<rparr>, demo_world) = Some (2, None, sw'))"
proof -
  let ?sw = "(demo_conn\<lparr>cwnd := 3\<rparr>, demo_world)"
  have m: "getNegotiatedMTULocked (fst ?sw) = 1730" using demo_writer(3) by (simp add: getNegotiatedMTULocked_def)
  have f: "in_flight (fst ?sw)" by (simp add: in_flight_def demo_conn_def upt_rec)
  have c: "cc_inv (fst ?sw)" by (simp add: cc_inv_def window_ok_def MaxWindowSize_def MinRTO_def MaxRTO_def demo_conn_def)
  have "validateWriteStateLocked ?sw = None" "\<not> chokeBlocks ?sw"
    using demo_writer(1,2) by (simp_all add: validate_ok checkWriteDeadlineLocked_def chokeBlocks_def del: split_paired_Ex) (simp add: demo_conn_def)
  from Write_completes [OF _ this _ f c, of demo_env "[7, 8]" 1] m
  have "\<exists>sw'. conn_Write demo_env (replicate 1 (peerAcks demo_env)) [7, 8] ?sw = Some (length [7, 8 :: byte], None, sw')"
    by (simp add: demo_session_def)
  moreover have "windowFull_send (demo_conn\<lparr>cwnd := 3\<rparr>)" by (simp add: windowFull_send_def demo_conn_def)
  ultimately show ?thesis by (simp add: numeral_2_eq_2)
qed

end
