(* ===== verification/Lifecycle.thy ===== *)
theory Lifecycle
  imports Sender
begin

text \<open>
  The life of a connection in \<^verbatim>\<open>stream.go\<close>: the packet queue and the receive loop, the dispatch of a packet by
  its flags and the connection's state, the end of a handshake, \<^verbatim>\<open>CLOSE\<close>, \<^verbatim>\<open>RESET\<close> and \<^verbatim>\<open>Close\<close>, and all atomic
  operations together as one step function with its reachable states.

  A Go \<^verbatim>\<open>select\<close> with several ready cases takes any of them; the choice is a boolean argument.  The goroutines that
  \<^verbatim>\<open>handleFinalAckLocked\<close> starts are the timer steps.  \<^verbatim>\<open>context.Context\<close> is the flag \<open>ctxDone\<close>.
\<close>

section \<open>Closing\<close>

definition closePacket :: "('d, 'c, 'k, 'b) env \<Rightarrow> ('d, 'b) StreamConn \<Rightarrow> 'd Packet" where
  "closePacket env s =
     (let pkt = emptyPacket\<lparr>SendStreamID := localStreamID s, RecvStreamID := remoteStreamID s,
            SequenceNum := sendSeq s, AckThrough := recvSeq s - 1, Flags := FlagCLOSE\<rparr>;
          pkt = pkt\<lparr>Flags := Flags pkt OR (FlagSignatureIncluded OR FlagFromIncluded),
            FromDestination := ses_Destination (e_session env)\<rparr>
      in case ses_SigningKeyPair (e_session env) of
           Inl e \<Rightarrow> pkt
         | Inr keyPair \<Rightarrow> (case SignPacket (e_lib env) pkt keyPair of Ok pkt' \<Rightarrow> pkt' | _ \<Rightarrow> pkt))"

definition sendCloseLocked ::
  "('d, 'c, 'k, 'b) env \<Rightarrow> ('d, 'b) conn_world \<Rightarrow> goerror option \<times> ('d, 'b) conn_world" where
  "sendCloseLocked env sw = sendPacketLocked env (closePacket env (fst sw)) sw"

definition sendCloseIfEstablished :: "('d, 'c, 'k, 'b) env \<Rightarrow> ('d, 'b) conn_world \<Rightarrow> ('d, 'b) conn_world" where
  "sendCloseIfEstablished env sw =
     (if conn_state (fst sw) \<noteq> StateEstablished then sw
      else let (r, (s, w)) = sendCloseLocked env sw in (setState s StateClosing, w))"

definition UnregisterConnection :: "u16 \<Rightarrow> u16 \<Rightarrow> 'd world \<Rightarrow> 'd world" where
  "UnregisterConnection lport rport w = w\<lparr>w_connections := AList.delete (lport, rport) (w_connections w)\<rparr>"

definition wakeBlockedGoroutines :: "('d, 'b) StreamConn \<Rightarrow> ('d, 'b) StreamConn" where
  "wakeBlockedGoroutines s = broadcast_send (broadcast_recv s)"

definition cleanupConnectionLocked :: "('d, 'c, 'k, 'b) env \<Rightarrow> ('d, 'b) conn_world \<Rightarrow> ('d, 'b) conn_world" where
  "cleanupConnectionLocked env sw =
     (let (s, w) = sw;
          w = (if hasManager s \<and> conn_dest s \<noteq> None \<and> (srtt s > 0 \<or> rttVariance s > 0)
               then w\<lparr>w_tcbCache := tcb_Put (e_lib env) (w_now w) (w_tcbCache w) (conn_dest s) (srtt s) (rttVariance s) (cwnd s)\<rparr>
               else w);
          w = (if hasManager s
               then let w = UnregisterConnection (localPort s) (remotePort s) w
                    in w\<lparr>w_limiter := ConnectionClosed (w_limiter w)\<rparr>
               else w);
          s = stopPersistTimerLocked s;
          s = s\<lparr>ctxDone := True, conn_closed := True\<rparr>
      in (wakeBlockedGoroutines s, w))"

definition conn_Close :: "('d, 'c, 'k, 'b) env \<Rightarrow> ('d, 'b) conn_world \<Rightarrow> ('d, 'b) conn_world" where
  "conn_Close env sw =
     (if conn_closed (fst sw) then sw else cleanupConnectionLocked env (sendCloseIfEstablished env sw))"

section \<open>Packets\<close>

definition verifyIfSigned :: "('d, 'c, 'k, 'b) env \<Rightarrow> 'd Packet \<Rightarrow> goerror option" where
  "verifyIfSigned env pkt =
     (if Flags pkt AND FlagSignatureIncluded \<noteq> 0
      then (case checked (VerifyPacketSignature (e_lib env) pkt) of Inl e \<Rightarrow> Some e | Inr _ \<Rightarrow> None)
      else None)"

definition handleCloseLocked ::
  "('d, 'c, 'k, 'b) env \<Rightarrow> 'd Packet \<Rightarrow> ('d, 'b) conn_world \<Rightarrow> goerror option \<times> ('d, 'b) conn_world" where
  "handleCloseLocked env pkt sw =
     (case verifyIfSigned env pkt of
        Some e \<Rightarrow> (Some (Wrap ''CLOSE signature verification failed'' e), sw)
      | None \<Rightarrow>
          (case conn_state (fst sw) of
             StateEstablished \<Rightarrow>
               let (r, (s, w)) = sendCloseLocked env sw;
                   s = setState s StateClosed
               in (None, (broadcast_recv (s\<lparr>conn_closed := True\<rparr>), w))
           | StateClosing \<Rightarrow>
               let (s, w) = sw; s = setState s StateClosed
               in (None, (broadcast_recv (s\<lparr>conn_closed := True\<rparr>), w))
           | _ \<Rightarrow> (None, sw)))"

definition handleResetLocked ::
  "('d, 'c, 'k, 'b) env \<Rightarrow> 'd Packet \<Rightarrow> ('d, 'b) conn_world \<Rightarrow> goerror option \<times> ('d, 'b) conn_world" where
  "handleResetLocked env pkt sw =
     (case verifyIfSigned env pkt of
        Some e \<Rightarrow> (Some (Wrap ''RESET signature verification failed'' e), sw)
      | None \<Rightarrow>
          let (s, w) = sw; s = setState s StateClosed
          in (Some (Errorf ''connection reset by peer'' []), (broadcast_recv (s\<lparr>conn_closed := True\<rparr>), w)))"

definition handleSynAckLocked ::
  "('d, 'c, 'k, 'b) env \<Rightarrow> 'd Packet \<Rightarrow> ('d, 'b) conn_world \<Rightarrow> goerror option \<times> ('d, 'b) conn_world" where
  "handleSynAckLocked env pkt sw =
     (let (s, w) = sw in
      if conn_state s \<noteq> StateSynSent then (Some (Errorf ''unexpected SYN-ACK'' []), sw)
      else
        let s = s\<lparr>recvSeq := SequenceNum pkt + 1\<rparr>;
            s = (if Flags pkt AND FlagMaxPacketSizeIncluded \<noteq> 0 \<and> MaxPacketSize pkt > 0
                 then s\<lparr>remoteMTU := MaxPacketSize pkt\<rparr> else s\<lparr>remoteMTU := word_of_int DefaultMTU\<rparr>)
        in case sendAckLocked env (s, w) of
             (Some e, sw) \<Rightarrow> (Some (Wrap ''send ACK'' e), sw)
           | (None, (s, w)) \<Rightarrow> (None, (setState s StateEstablished, w)))"

definition handleFinalAckLocked ::
  "'d Packet \<Rightarrow> ('d, 'b) StreamConn \<Rightarrow> ('d, 'b) StreamConn" where
  "handleFinalAckLocked pkt s = setState (s\<lparr>ackThrough := AckThrough pkt\<rparr>) StateEstablished"

definition dispatchPacketByFlags ::
  "('d, 'c, 'k, 'b) env \<Rightarrow> 'd Packet \<Rightarrow> ('d, 'b) conn_world \<Rightarrow> goerror option \<times> ('d, 'b) conn_world" where
  "dispatchPacketByFlags env pkt sw =
     (if Flags pkt AND FlagSYN \<noteq> 0 \<and> SendStreamID pkt > 0 then handleSynAckLocked env pkt sw
      else if conn_state (fst sw) = StateSynRcvd \<and> Flags pkt AND FlagSYN = 0 \<and> Flags pkt AND FlagCLOSE = 0 \<and>
              Flags pkt AND FlagRESET = 0
      then (None, (handleFinalAckLocked pkt (fst sw), snd sw))
      else if Flags pkt AND FlagCLOSE \<noteq> 0 then handleCloseLocked env pkt sw
      else if Flags pkt AND FlagRESET \<noteq> 0 then handleResetLocked env pkt sw
      else if SequenceNum pkt = 0 \<and> Flags pkt AND FlagSYN = 0 then (None, handleAckLocked env pkt sw)
      else if length (Payload pkt) > 0 then (None, handleDataLocked env pkt sw)
      else (None, sw))"

definition processPacket ::
  "('d, 'c, 'k, 'b) env \<Rightarrow> 'd Packet \<Rightarrow> ('d, 'b) conn_world \<Rightarrow> goerror option \<times> ('d, 'b) conn_world" where
  "processPacket env pkt sw =
     (let (s, w) = sw in dispatchPacketByFlags env pkt (s\<lparr>lastActivity := w_now w\<rparr>, w))"

definition recvChanSize :: nat where "recvChanSize = 32"

definition handleIncomingPacket ::
  "bool \<Rightarrow> 'd Packet \<Rightarrow> ('d, 'b) StreamConn \<Rightarrow> goerror option \<times> ('d, 'b) StreamConn" where
  "handleIncomingPacket pick pkt s =
     (if length (recvChan s) < recvChanSize \<and> (ctxDone s \<longrightarrow> pick)
      then (None, s\<lparr>recvChan := recvChan s @ [pkt]\<rparr>)
      else if ctxDone s then (Some (Errorf ''connection closed'' []), s)
      else (Some (Errorf ''receive queue full'' []), s))"

text \<open>One round of \<^verbatim>\<open>receiveLoop\<close>; \<open>None\<close> when it has returned or is blocked.\<close>

definition receiveLoop_round ::
  "('d, 'c, 'k, 'b) env \<Rightarrow> bool \<Rightarrow> ('d, 'b) conn_world \<Rightarrow> ('d, 'b) conn_world option" where
  "receiveLoop_round env pick sw =
     (case recvChan (fst sw) of
        [] \<Rightarrow> None
      | pkt # pkts \<Rightarrow>
          if ctxDone (fst sw) \<and> \<not> pick then None
          else Some (snd (processPacket env pkt ((fst sw)\<lparr>recvChan := pkts\<rparr>, snd sw))))"

text \<open>A tick of \<^verbatim>\<open>retransmitTimer\<close>: when the packets of the connection are beyond retransmission it closes.\<close>

definition retransmitTick :: "('d, 'c, 'k, 'b) env \<Rightarrow> ('d, 'b) conn_world \<Rightarrow> ('d, 'b) conn_world" where
  "retransmitTick env sw =
     (case checkRetransmissions env sw of
        (Some e, sw) \<Rightarrow> conn_Close env sw
      | (None, sw) \<Rightarrow> sw)"

section \<open>All operations of a connection\<close>

text \<open>
  The atomic operations on a connection whose handshake packets have been sent: every function above that some
  goroutine calls under the connection's lock.  A \<^verbatim>\<open>Write\<close> is the sequence of its packets: each is sent between
  two waits, under the conditions that end the wait.
\<close>

datatype 'd conn_op =
    Deliver bool "'d Packet"
  | Receive bool
  | Send "byte list"
  | ReadBytes nat
  | CloseConn
  | RetransmitTick bool
  | InactivityTick bool
  | PersistTick
  | ReportDelivered u32
  | ReportFailed u32 bool
  | Deadline "instant option"
  | ReadDeadline "instant option"
  | WriteDeadline "instant option"
  | InactivityTimeout duration
  | Elapse nat

fun conn_do :: "('d, 'c, 'k, 'b) env \<Rightarrow> 'd conn_op \<Rightarrow> ('d, 'b) conn_world \<Rightarrow> ('d, 'b) conn_world" where
  "conn_do env (Deliver pick pkt) sw = (snd (handleIncomingPacket pick pkt (fst sw)), snd sw)"
| "conn_do env (Receive pick) sw = (case receiveLoop_round env pick sw of None \<Rightarrow> sw | Some sw' \<Rightarrow> sw')"
| "conn_do env (Send chunk) sw =
     (if validateWriteStateLocked sw = None \<and> \<not> windowFull_send (fst sw) then snd (sendDataChunk env chunk sw) else sw)"
| "conn_do env (ReadBytes n) sw = (case conn_Read env [] n sw of None \<Rightarrow> sw | Some (_, _, sw') \<Rightarrow> sw')"
| "conn_do env CloseConn sw = conn_Close env sw"
| "conn_do env (RetransmitTick pick) sw = (if ctxDone (fst sw) \<and> \<not> pick then sw else retransmitTick env sw)"
| "conn_do env (InactivityTick pick) sw = (if ctxDone (fst sw) \<and> \<not> pick then sw else checkInactivity env sw)"
| "conn_do env PersistTick sw = persistTimerFires env sw"
| "conn_do env (ReportDelivered q) sw = (handleMessageDelivered q (fst sw), snd sw)"
| "conn_do env (ReportFailed q retriable) sw = handleMessageFailed env q retriable sw"
| "conn_do env (Deadline t) sw = (SetDeadline t (fst sw), snd sw)"
| "conn_do env (ReadDeadline t) sw = (SetReadDeadline t (fst sw), snd sw)"
| "conn_do env (WriteDeadline t) sw = (SetWriteDeadline t (fst sw), snd sw)"
| "conn_do env (InactivityTimeout d) sw = (SetInactivityTimeout d (fst sw), snd sw)"
| "conn_do env (Elapse d) sw = (fst sw, (snd sw)\<lparr>w_now := w_now (snd sw) + int d\<rparr>)"

inductive conn_reach :: "('d, 'c, 'k, 'b) env \<Rightarrow> ('d, 'b) conn_world \<Rightarrow> ('d, 'b) conn_world \<Rightarrow> bool"
  for env start where
  conn_start: "conn_reach env start start"
| conn_step: "conn_reach env start (conn_do env oper sw)" if "conn_reach env start sw"

section \<open>Frames\<close>

text \<open>A handler that may take a new acknowledgement but otherwise leaves sender, identity and life cycle alone.\<close>

definition quiet :: "('d, 'b) StreamConn \<Rightarrow> ('d, 'b) StreamConn \<Rightarrow> bool" where
  "quiet s s' \<longleftrightarrow> id_same s s' \<and> sendSeq s' = sendSeq s \<and> sentPackets s' = sentPackets s \<and> cwnd s' = cwnd s \<and>
     ssthresh s' = ssthresh s \<and> rto s' = rto s"

definition data_inv :: "('d, 'b) StreamConn \<Rightarrow> bool" where
  "data_inv s \<longleftrightarrow> length (nackList s) \<le> MaxNACKs \<and> distinct (map fst (outOfOrderPackets s))"

lemma quiet_refl [simp]: "quiet s s" by (simp add: quiet_def same_defs)

lemma quiet_trans [trans]: "quiet s t \<Longrightarrow> quiet t u \<Longrightarrow> quiet s u" by (simp add: quiet_def same_defs)

lemma ctl_quiet: "ctl_same s s' \<Longrightarrow> quiet s s' \<and> (data_inv s \<longrightarrow> data_inv s')"
  by (auto simp: ctl_same_def quiet_def same_defs core_def data_inv_def)

lemmas control_quiet = control_sends_same [THEN ctl_quiet] manageChoke_same [THEN ctl_quiet]

lemma data_inv_deliver:
  "data_inv s \<Longrightarrow> data_inv (deliver_loop env fuel s)"
proof (induction fuel arbitrary: s)
  case (Suc fuel)
  have "data_inv (removeFromNACKListLocked q (s\<lparr>recvBuf := b, recvSeq := r, totalBytesReceived := n,
      outOfOrderPackets := AList.delete q (outOfOrderPackets s)\<rparr>))" for q b r n
    using Suc.prems by (auto simp: data_inv_def removeFromNACKListLocked_def distinct_delete
        intro: order_trans [OF length_filter_le])
  with Suc show ?case by (auto simp: data_inv_def Let_def split: option.splits prod.splits)
qed simp

lemma data_inv_addMissing: "data_inv s \<Longrightarrow> data_inv (addMissing_loop is s) \<and> quiet s (addMissing_loop is s)"
proof (induction "is" arbitrary: s)
  case (Cons i "is")
  let ?s = "s\<lparr>nackList := nackList s @ [recvSeq s + i]\<rparr>"
  have "quiet s ?s" by (simp add: quiet_def same_defs)
  moreover have "data_inv ?s" if "length (nackList s) < MaxNACKs" using Cons.prems that by (simp add: data_inv_def)
  ultimately show ?case using Cons.IH [of s] Cons.IH [of ?s] Cons.prems quiet_trans [of s ?s]
    by (auto simp: Let_def not_le)
qed simp

lemma data_inv_remove: "data_inv s \<Longrightarrow> data_inv (removeFromNACKListLocked q s)" "quiet s (removeFromNACKListLocked q s)"
  by (auto simp: data_inv_def removeFromNACKListLocked_def quiet_def same_defs intro: order_trans [OF length_filter_le])

lemma ooo_quiet:
  assumes "data_inv s"
  shows "data_inv (fst (handleOutOfOrderPacketLocked env pkt q (s, w))) \<and>
    quiet s (fst (handleOutOfOrderPacketLocked env pkt q (s, w)))"
proof -
  define s1 where "s1 = s\<lparr>outOfOrderPackets := AList.update q pkt (outOfOrderPackets s)\<rparr>"
  define s2 where "s2 = removeFromNACKListLocked q s1"
  define s3 where "s3 = updateNACKListLocked q s2"
  have 1: "data_inv s1" "quiet s s1" using assms by (simp_all add: s1_def data_inv_def distinct_update quiet_def same_defs)
  have 2: "data_inv s2" "quiet s1 s2" using data_inv_remove 1(1) by (simp_all add: s2_def)
  have 3: "data_inv s3" "quiet s2 s3" using data_inv_addMissing [OF 2(1)]
    by (simp_all add: s3_def updateNACKListLocked_def addMissingSequencesToNACKListLocked_def)
  have e: "handleOutOfOrderPacketLocked env pkt q (s, w) = snd (sendAckLocked env (s3, w))"
    by (simp add: handleOutOfOrderPacketLocked_def s3_def s2_def s1_def Let_def)
  show ?thesis using control_quiet(1) [of "(s3, w)" env] 1 2 3 unfolding e by (auto intro: quiet_trans)
qed

lemma bufferFull_quiet:
  assumes "data_inv s"
  shows "data_inv (fst (handleBufferFullLocked env pkt q (s, w))) \<and> quiet s (fst (handleBufferFullLocked env pkt q (s, w)))"
proof -
  define s1 where "s1 = s\<lparr>outOfOrderPackets := AList.update q pkt (outOfOrderPackets s)\<rparr>"
  define sw2 where "sw2 = (if \<not> sendingChoke s1 then snd (sendChokeSignalLocked env (s1, w)) else (s1, w))"
  have 1: "data_inv s1" "quiet s s1" using assms by (simp_all add: s1_def data_inv_def distinct_update quiet_def same_defs)
  have 2: "data_inv (fst sw2)" "quiet s1 (fst sw2)" using control_quiet(2) [of "(s1, w)" env] 1(1) by (auto simp: sw2_def)
  have e: "handleBufferFullLocked env pkt q (s, w) = snd (sendAckLocked env sw2)"
    by (simp add: handleBufferFullLocked_def sw2_def s1_def Let_def)
  show ?thesis using control_quiet(1) [of sw2 env] 1 2 unfolding e by (auto intro: quiet_trans)
qed

lemma inSequence_quiet:
  assumes "data_inv s"
  shows "data_inv (fst (processInSequencePacketLocked env pkt q (s, w))) \<and>
    quiet s (fst (processInSequencePacketLocked env pkt q (s, w)))"
proof -
  obtain n e b where wr: "cb_Write (e_circ env) (recvBuf s) (Payload pkt) = (n, e, b)" by (metis prod_cases3)
  show ?thesis
  proof (cases e)
    case (Some x)
    have "data_inv (s\<lparr>recvBuf := b\<rparr>)" "quiet s (s\<lparr>recvBuf := b\<rparr>)" using assms by (simp_all add: data_inv_def quiet_def same_defs)
    with bufferFull_quiet [of "s\<lparr>recvBuf := b\<rparr>" env pkt q w] quiet_trans wr Some show ?thesis
      by (auto simp: processInSequencePacketLocked_def)
  next
    case None
    define s1 where "s1 = s\<lparr>recvBuf := b, recvSeq := recvSeq s + 1, totalBytesReceived := totalBytesReceived s + of_nat n\<rparr>"
    define s2 where "s2 = deliverBufferedPacketsLocked env (removeFromNACKListLocked q s1)"
    define s3 where "s3 = (if Flags pkt AND FlagNoACK = 0 \<and> seqGreaterThan (AckThrough pkt) (ackThrough s2)
      then s2\<lparr>ackThrough := AckThrough pkt\<rparr> else s2)"
    define sw4 where "sw4 = manageChokeStateLocked env (s3, w)"
    define s5 where "s5 = broadcast_recv (fst sw4)"
    have 1: "data_inv s1" "quiet s s1" using assms by (simp_all add: s1_def data_inv_def quiet_def same_defs)
    have 2: "data_inv s2" "quiet s1 s2"
      using data_inv_deliver [OF data_inv_remove(1) [OF 1(1)]] deliver_loop_other [of "removeFromNACKListLocked q s1" env]
        data_inv_remove(2) [of s1 q]
      by (simp_all add: s2_def deliverBufferedPacketsLocked_def quiet_def same_defs)
    have 3: "data_inv s3" "quiet s2 s3" using 2(1) by (simp_all add: s3_def data_inv_def quiet_def same_defs)
    have 4: "data_inv (fst sw4)" "quiet s3 (fst sw4)" using control_quiet(4) [of "(s3, w)" env] 3(1) by (simp_all add: sw4_def)
    have 5: "data_inv s5" "quiet (fst sw4) s5" using 4(1) by (simp_all add: s5_def broadcast_recv_def data_inv_def quiet_def same_defs)
    have "processInSequencePacketLocked env pkt q (s, w) =
        (if \<not> sendingChoke s5 \<or> length (nackList s5) > 0 then snd (sendAckLocked env (s5, snd sw4)) else (s5, snd sw4))"
      using wr None by (simp add: processInSequencePacketLocked_def Let_def s5_def sw4_def s3_def s2_def s1_def split: prod.splits)
    moreover have "quiet s s5" using 1(2) 2(2) 3(2) 4(2) 5(2) by (meson quiet_trans)
    ultimately show ?thesis using control_quiet(1) [of "(s5, snd sw4)" env] 5(1) by (auto intro: quiet_trans)
  qed
qed

lemma handleData_quiet:
  assumes "data_inv s"
  shows "data_inv (fst (handleDataLocked env pkt (s, w)))" and "quiet s (fst (handleDataLocked env pkt (s, w)))"
  by (simp_all add: handleDataLocked_def Let_def inSequence_quiet [OF assms] ooo_quiet [OF assms] assms)

lemma postRead_quiet:
  assumes "data_inv s"
  shows "data_inv (fst (handlePostReadActionsLocked env (s, w))) \<and> quiet s (fst (handlePostReadActionsLocked env (s, w)))"
proof -
  define s1 where "s1 = (if length (outOfOrderPackets s) > 0 then deliverBufferedPacketsLocked env s else s)"
  have 1: "data_inv s1" "quiet s s1"
    using deliver_loop_other [of s env] assms
    by (simp_all add: s1_def deliverBufferedPacketsLocked_def data_inv_deliver quiet_def same_defs)
  have "handlePostReadActionsLocked env (s, w) = (s1, w) \<or>
      handlePostReadActionsLocked env (s, w) = snd (sendUnchokeSignalLocked env (s1, w))"
    by (simp add: handlePostReadActionsLocked_def s1_def Let_def)
  with 1 control_quiet(3) [of "(s1, w)" env] show ?thesis by (auto intro: quiet_trans)
qed

lemma consume_quiet:
  assumes "consumeBufferDataLocked env len s = (data, e, s')" and "data_inv s"
  shows "data_inv s' \<and> quiet s s'"
  using assms by (auto simp: consumeBufferDataLocked_def Let_def data_inv_def quiet_def same_defs split: if_splits prod.splits option.splits)

lemma Read_quiet:
  assumes "conn_Read env [] len (s, w) = Some (data, e, s', w')" and "data_inv s"
  shows "data_inv s' \<and> quiet s s'"
proof -
  obtain d x s1 where c: "consumeBufferDataLocked env len s = (d, x, s1)" by (metis prod_cases3)
  note q = consume_quiet [OF c assms(2)]
  have "s' = s \<or> s' = s1 \<or> (s', w') = handlePostReadActionsLocked env (s1, w)"
    using assms(1) c by (auto simp: conn_Read_def split: option.splits if_splits)
  then show ?thesis using postRead_quiet [of s1 env w] q assms(2) by (auto intro: quiet_trans) (metis fst_conv quiet_trans)+
qed

lemma closePacket_payload [simp]: "Payload (closePacket env s) = []"
proof -
  have "SignPacket lib p k = Ok p' \<Longrightarrow> Payload p' = Payload p" for lib :: "('a, 'b, 'c) i2plib" and p p' k
    by (auto simp: SignPacket_def)
  then show ?thesis
    by (auto simp: closePacket_def Let_def emptyPacket_def split: sum.splits result.splits)
qed

lemma sendClose_frame:
  assumes "sendCloseLocked env (s, w) = (r, s', w')"
  obtains t where "s' = s\<lparr>lastActivity := t\<rparr>" and "w_now w' = w_now w"
  using assms unfolding sendCloseLocked_def by (auto elim!: sendPacket_control [rotated])

section \<open>The invariant of a connection\<close>

fun life_rank :: "ConnState \<Rightarrow> nat" where
  "life_rank StateInit = 0"
| "life_rank StateSynSent = 1"
| "life_rank StateSynRcvd = 1"
| "life_rank StateEstablished = 2"
| "life_rank StateCloseWait = 2"
| "life_rank StateClosing = 3"
| "life_rank StateClosed = 4"

definition later_state :: "ConnState \<Rightarrow> ConnState \<Rightarrow> bool" where
  "later_state a b \<longleftrightarrow> a = b \<or> life_rank a < life_rank b"

definition life_ok :: "('d, 'b) StreamConn \<Rightarrow> bool" where
  "life_ok s \<longleftrightarrow> (conn_state s = StateClosing \<or> conn_state s = StateClosed \<or> ctxDone s \<longrightarrow> conn_closed s) \<and>
     conn_state s \<noteq> StateCloseWait"

definition conn_inv :: "('d, 'b) StreamConn \<Rightarrow> bool" where
  "conn_inv s \<longleftrightarrow> cc_inv s \<and> data_inv s \<and> distinct (map fst (sentPackets s)) \<and>
     length (recvChan s) \<le> recvChanSize \<and> 0 < localMTU s \<and> life_ok s"

definition advances :: "('d, 'b) StreamConn \<Rightarrow> ('d, 'b) StreamConn \<Rightarrow> bool" where
  "advances s s' \<longleftrightarrow> conn_inv s \<longrightarrow>
     conn_inv s' \<and> later_state (conn_state s) (conn_state s') \<and> (conn_closed s \<longrightarrow> conn_closed s')"

lemma later_state_refl [simp]: "later_state a a" by (simp add: later_state_def)

lemma advances_refl [simp]: "advances s s" by (simp add: advances_def)

lemma advances_trans: "advances s t \<Longrightarrow> advances t u \<Longrightarrow> advances s u"
  by (auto simp: advances_def later_state_def)

lemma quiet_advances:
  "quiet s s' \<Longrightarrow> (data_inv s \<Longrightarrow> data_inv s') \<Longrightarrow> advances s s'"
  by (auto simp: advances_def conn_inv_def quiet_def same_defs cc_inv_def life_ok_def)

text \<open>Updates of fields the invariant does not mention, and of the tracked packets.\<close>

lemma frame_advances [simp]:
  "advances s (s\<lparr>lastActivity := t\<rparr>)" "advances s (broadcast_recv s)" "advances s (broadcast_send s)"
  "advances s (s\<lparr>sendSeq := q\<rparr>)" "advances s (s\<lparr>remoteMTU := m\<rparr>)" "advances s (s\<lparr>recvSeq := q\<rparr>)"
  "advances s (s\<lparr>ackThrough := q\<rparr>)" "advances s (s\<lparr>totalBytesSent := n\<rparr>)" "advances s (s\<lparr>readDeadline := d\<rparr>)"
  "advances s (s\<lparr>writeDeadline := d\<rparr>)" "advances s (s\<lparr>inactivityTimeout := i\<rparr>)"
  by (simp_all add: advances_def conn_inv_def cc_inv_def data_inv_def life_ok_def broadcast_recv_def broadcast_send_def)

lemma sent_advances: "(distinct (map fst (sentPackets s)) \<Longrightarrow> distinct (map fst sp)) \<Longrightarrow> advances s (s\<lparr>sentPackets := sp\<rparr>)"
  by (auto simp: advances_def conn_inv_def cc_inv_def data_inv_def life_ok_def)

lemma control_advances:
  "advances (fst sw) (fst (snd (sendAckLocked env sw)))"
  using control_quiet(1) [of sw env] by (auto intro: quiet_advances)

lemma sendDataChunk_advances: "advances (fst sw) (fst (snd (sendDataChunk env c sw)))"
proof -
  obtain s w where sw: "sw = (s, w)" by fastforce
  obtain r s' w' where sd: "sendDataChunk env c (s, w) = (r, s', w')" by (metis prod_cases3)
  define s1 where "s1 = s\<lparr>sentPackets := sentPackets s'\<rparr>"
  have "s' = s1\<lparr>lastActivity := lastActivity s', sendSeq := sendSeq s', totalBytesSent := totalBytesSent s'\<rparr> \<and>
      (distinct (map fst (sentPackets s)) \<longrightarrow> distinct (map fst (sentPackets s')))"
  proof (cases r)
    case None
    with sd obtain i where "s' = s\<lparr>sentPackets := (if c = [] then sentPackets s else AList.update (sendSeq s) i (sentPackets s)),
      lastActivity := w_now w, sendSeq := sendSeq s + 1, totalBytesSent := totalBytesSent s + of_nat (length c)\<rparr>"
      by (auto elim!: sendDataChunk_sent)
    then show ?thesis by (simp add: s1_def distinct_update)
  next
    case (Some e)
    have "s' = trackPacketForRetransmission (w_now w) s (dataPacket s c) (wire_format (e_lib env) (dataPacket s c))"
      using sd Some by (auto simp: sendDataChunk_def sendPacketLocked_def dataPacket_marshal Let_def split: option.splits prod.splits)
    then show ?thesis by (simp add: s1_def trackPacketForRetransmission_def distinct_update)
  qed
  moreover from this have "advances s s1" unfolding s1_def by (intro sent_advances) simp
  moreover have "advances s1 (s1\<lparr>lastActivity := x, sendSeq := y, totalBytesSent := z\<rparr>)" for x y z
    by (rule advances_trans [OF frame_advances(1) advances_trans [OF frame_advances(4) frame_advances(8)]])
  ultimately show ?thesis unfolding sw fst_conv sd snd_conv by (metis advances_trans)
qed

text \<open>The end of a connection: a later state, closed, whatever happens to activity, timers and waiters.\<close>

definition ended :: "('d, 'b) StreamConn \<Rightarrow> ConnState \<Rightarrow> ('d, 'b) StreamConn \<Rightarrow> bool" where
  "ended s c s' \<longleftrightarrow> s' = s\<lparr>conn_state := c, conn_closed := True, lastActivity := lastActivity s', persistTimer := persistTimer s',
     persistStopChan := persistStopChan s', ctxDone := ctxDone s', recvCond := recvCond s', sendCond := sendCond s'\<rparr>"

lemma ended_fields:
  assumes "ended s c s'"
  shows "conn_state s' = c \<and> conn_closed s' \<and> cwnd s' = cwnd s \<and> ssthresh s' = ssthresh s \<and> rto s' = rto s \<and>
    nackList s' = nackList s \<and> outOfOrderPackets s' = outOfOrderPackets s \<and> sentPackets s' = sentPackets s \<and>
    recvChan s' = recvChan s \<and> localMTU s' = localMTU s"
  by (subst (1 2 3 4 5 6 7 8 9 10) assms [unfolded ended_def]) simp

lemma ended_advances:
  assumes "ended s c s'" and "later_state (conn_state s) c" and "c \<noteq> StateCloseWait"
  shows "advances s s'"
  using ended_fields [OF assms(1)] assms(2,3)
  by (simp add: advances_def conn_inv_def cc_inv_def data_inv_def life_ok_def)

lemma ended_peer:
  "ended s StateClosed (broadcast_recv (s\<lparr>conn_state := StateClosed, conn_closed := True\<rparr>))"
  "ended s StateClosed (broadcast_recv (s\<lparr>lastActivity := t, conn_state := StateClosed, conn_closed := True\<rparr>))"
  by (simp_all add: ended_def broadcast_recv_def)

lemma later_closed [simp]: "later_state a StateClosed"
  by (cases a) (simp_all add: later_state_def)

lemma Close_advances: "advances (fst sw) (fst (conn_Close env sw))"
proof -
  obtain s w where sw: "sw = (s, w)" by fastforce
  obtain r s1 w1 where sc: "sendCloseLocked env (s, w) = (r, s1, w1)" by (metis prod_cases3)
  obtain t where s1: "s1 = s\<lparr>lastActivity := t\<rparr>" by (rule sendClose_frame [OF sc])
  let ?c = "if conn_state s = StateEstablished then StateClosing else conn_state s"
  have clean: "fst (cleanupConnectionLocked env (x, v)) = wakeBlockedGoroutines ((stopPersistTimerLocked x)\<lparr>ctxDone := True, conn_closed := True\<rparr>)" for x v
    by (simp add: cleanupConnectionLocked_def Let_def)
  have e: "ended s ?c (fst (conn_Close env (s, w)))" if "\<not> conn_closed s"
    using that by (simp add: conn_Close_def sendCloseIfEstablished_def sc s1 clean setState_def wakeBlockedGoroutines_def
        broadcast_send_def broadcast_recv_def stopPersistTimerLocked_def ended_def)
  consider "conn_closed s" | "\<not> conn_inv s" | "\<not> conn_closed s" "conn_state s \<noteq> StateCloseWait"
    by (auto simp: conn_inv_def life_ok_def)
  then show ?thesis
  proof cases
    case 1
    then show ?thesis by (simp add: sw conn_Close_def)
  next
    case 2
    then show ?thesis by (simp add: sw advances_def)
  next
    case 3
    show ?thesis unfolding sw fst_conv by (rule ended_advances [OF e]) (use 3 in \<open>auto simp: later_state_def\<close>)
  qed
qed

lemma handleClose_advances: "advances (fst sw) (fst (snd (handleCloseLocked env pkt sw)))"
proof -
  obtain s w where sw: "sw = (s, w)" by fastforce
  obtain r s1 w1 where sc: "sendCloseLocked env (s, w) = (r, s1, w1)" by (metis prod_cases3)
  obtain t where s1: "s1 = s\<lparr>lastActivity := t\<rparr>" by (rule sendClose_frame [OF sc])
  have "fst (snd (handleCloseLocked env pkt (s, w))) = s \<or> ended s StateClosed (fst (snd (handleCloseLocked env pkt (s, w))))"
    by (cases "verifyIfSigned env pkt"; cases "conn_state s") (simp_all add: handleCloseLocked_def sc s1 setState_def ended_peer)
  with ended_advances [of s StateClosed] show ?thesis by (auto simp: sw)
qed

lemma handleReset_advances: "advances (fst sw) (fst (snd (handleResetLocked env pkt sw)))"
proof -
  obtain s w where sw: "sw = (s, w)" by fastforce
  have "fst (snd (handleResetLocked env pkt (s, w))) = s \<or> ended s StateClosed (fst (snd (handleResetLocked env pkt (s, w))))"
    by (cases "verifyIfSigned env pkt") (simp_all add: handleResetLocked_def setState_def ended_peer)
  with ended_advances [of s StateClosed] show ?thesis by (auto simp: sw)
qed

lemma established_advances:
  "conn_state s = StateSynSent \<or> conn_state s = StateSynRcvd \<Longrightarrow> advances s (setState s StateEstablished)"
  by (auto simp: setState_def advances_def conn_inv_def cc_inv_def data_inv_def life_ok_def later_state_def)

lemma handleSynAck_advances: "advances (fst sw) (fst (snd (handleSynAckLocked env pkt sw)))"
proof -
  obtain s w where sw: "sw = (s, w)" by fastforce
  define s1 where "s1 = (let s = s\<lparr>recvSeq := SequenceNum pkt + 1\<rparr> in
     if Flags pkt AND FlagMaxPacketSizeIncluded \<noteq> 0 \<and> MaxPacketSize pkt > 0
     then s\<lparr>remoteMTU := MaxPacketSize pkt\<rparr> else s\<lparr>remoteMTU := word_of_int DefaultMTU\<rparr>)"
  have 1: "advances s s1" by (auto simp: s1_def Let_def intro: advances_trans [OF frame_advances(6) frame_advances(5)])
  obtain r s2 w2 where sa: "sendAckLocked env (s1, w) = (r, s2, w2)" by (metis prod_cases3)
  obtain t where s2: "s2 = s1\<lparr>lastActivity := t\<rparr>" by (rule sendAck_frame [OF sa])
  have st: "conn_state s1 = conn_state s" by (simp add: s1_def Let_def)
  have 2: "advances s s2" unfolding s2 by (rule advances_trans [OF 1 frame_advances(1)])
  show ?thesis
  proof (cases "conn_state s = StateSynSent")
    case True
    have "advances s2 (setState s2 StateEstablished)" by (rule established_advances) (simp add: s2 st True)
    with 2 have "advances s (setState s2 StateEstablished)" by (rule advances_trans)
    with 2 True sa show ?thesis by (auto simp: handleSynAckLocked_def sw s1_def [unfolded Let_def, symmetric] Let_def split: option.splits)
  next
    case False
    then show ?thesis by (simp add: handleSynAckLocked_def sw)
  qed
qed

lemma handleAck_advances: "advances (fst sw) (fst (handleAckLocked env pkt sw))"
proof -
  obtain s w s' w' where sw: "sw = (s, w)" and h: "handleAckLocked env pkt (s, w) = (s', w')" by (metis surj_pair)
  note f = handleAck_facts [OF h]
  have "distinct (map fst (sentPackets s)) \<Longrightarrow> distinct (map fst (sentPackets s'))" using f(5) by simp
  moreover have "data_inv s' = data_inv s" using f(1) by (simp add: data_inv_def same_defs)
  ultimately show ?thesis using f(2,7)
    by (auto simp: sw h advances_def conn_inv_def life_ok_def id_same_def)
qed

lemma handleData_advances: "advances (fst sw) (fst (handleDataLocked env pkt sw))"
proof -
  obtain s w where sw: "sw = (s, w)" by fastforce
  show ?thesis
  proof (cases "data_inv s")
    case True
    then show ?thesis unfolding sw fst_conv by (intro quiet_advances handleData_quiet)
  next
    case False
    then show ?thesis by (simp add: sw advances_def conn_inv_def)
  qed
qed

lemma finalAck_advances: "conn_state s = StateSynRcvd \<Longrightarrow> advances s (handleFinalAckLocked pkt s)"
  unfolding handleFinalAckLocked_def by (rule advances_trans [OF frame_advances(7) established_advances]) simp

lemma dispatch_advances: "advances (fst sw) (fst (snd (dispatchPacketByFlags env pkt sw)))"
  by (simp add: dispatchPacketByFlags_def handleSynAck_advances handleClose_advances handleReset_advances
      handleAck_advances handleData_advances finalAck_advances)

lemma processPacket_advances: "advances (fst sw) (fst (snd (processPacket env pkt sw)))"
proof -
  obtain s w where sw: "sw = (s, w)" by fastforce
  show ?thesis
    using advances_trans [OF frame_advances(1) dispatch_advances [of "(s\<lparr>lastActivity := w_now w\<rparr>, w)" env pkt, unfolded fst_conv]]
    by (simp add: processPacket_def sw)
qed

lemma retransmit_advances: "advances (fst sw) (fst (retransmitTick env sw))"
proof -
  obtain s w where sw: "sw = (s, w)" by fastforce
  obtain r s1 w1 where c: "checkRetransmissions env (s, w) = (r, s1, w1)" by (metis prod_cases3)
  have b: "advances s (applyExponentialBackoffLocked s)"
    using backoff_bounds [of s]
    by (auto simp: applyExponentialBackoffLocked_def Let_def advances_def conn_inv_def cc_inv_def data_inv_def life_ok_def)
  have "s1 = s \<or> (\<exists>sp. s1 = (applyExponentialBackoffLocked s)\<lparr>sentPackets := sp\<rparr> \<and>
      map fst sp = map fst (sentPackets s))"
    using c retransmitTimedOut_frame [of env _ "applyExponentialBackoffLocked s" w r s1 w1]
    by (auto simp: checkRetransmissions_def Let_def split: if_splits)
  with b have "advances s s1" by (auto intro: advances_trans [OF _ sent_advances])
  with advances_trans [OF this Close_advances [of "(s1, w1)" env, unfolded fst_conv]] show ?thesis
    by (auto simp: retransmitTick_def sw c split: option.splits)
qed

lemma others_advance:
  "advances (fst sw) (fst (checkInactivity env sw))" "advances (fst sw) (fst (persistTimerFires env sw))"
  "advances (fst sw) (fst (handleMessageFailed env q b sw))"
proof -
  obtain s w where sw: "sw = (s, w)" by fastforce
  obtain r s1 w1 where sa: "sendAckLocked env (s, w) = (r, s1, w1)" by (metis prod_cases3)
  have 1: "advances s s1" using control_advances [of "(s, w)" env] by (simp add: sa)
  show "advances (fst sw) (fst (checkInactivity env sw))"
    using 1 advances_trans [OF 1 frame_advances(1)] by (auto simp: checkInactivity_def sw sa Let_def split: option.splits)
  show "advances (fst sw) (fst (persistTimerFires env sw))"
    by (auto simp: persistTimerFires_def sendProbePacketLocked_def sw Let_def split: sum.splits prod.splits)
  show "advances (fst sw) (fst (handleMessageFailed env q b sw))"
    by (auto simp: handleMessageFailed_def sw Let_def distinct_update intro: sent_advances split: option.splits)
qed

lemma delivered_advances: "advances s (handleMessageDelivered q s)"
  by (auto simp: handleMessageDelivered_def distinct_delete intro: sent_advances split: option.splits)

lemma deadlines_advance: "advances s (SetDeadline t s)" "advances s (SetReadDeadline t s)" "advances s (SetWriteDeadline t s)"
proof -
  have rd: "advances s (s\<lparr>readDeadline := t\<rparr>)" and wd: "advances x (x\<lparr>writeDeadline := t\<rparr>)" for x by simp_all
  show "advances s (SetReadDeadline t s)" unfolding SetReadDeadline_def by (rule advances_trans [OF rd]) simp
  show "advances s (SetWriteDeadline t s)" unfolding SetWriteDeadline_def by (rule advances_trans [OF wd]) simp
  show "advances s (SetDeadline t s)" unfolding SetDeadline_def by (rule advances_trans [OF advances_trans [OF rd wd]]) simp
qed

lemma conn_do_advances: "advances (fst sw) (fst (conn_do env oper sw))"
proof -
  obtain s w where sw: "sw = (s, w)" by fastforce
  show ?thesis
  proof (cases oper)
    case (Deliver pick pkt)
    then show ?thesis
      by (auto simp: handleIncomingPacket_def sw advances_def conn_inv_def cc_inv_def data_inv_def life_ok_def)
  next
    case (Receive pick)
    have "advances s (s\<lparr>recvChan := tl (recvChan s)\<rparr>)"
      by (auto simp: advances_def conn_inv_def cc_inv_def data_inv_def life_ok_def)
    from advances_trans [OF this] processPacket_advances [of "(s\<lparr>recvChan := tl (recvChan s)\<rparr>, w)" env]
    show ?thesis by (auto simp: Receive sw receiveLoop_round_def split: list.splits)
  next
    case (ReadBytes n)
    show ?thesis
    proof (cases "conn_Read env [] n (s, w)")
      case (Some r)
      obtain d e s1 w1 where r: "r = (d, e, s1, w1)" by (metis prod_cases4)
      have "data_inv s \<Longrightarrow> advances s s1" using Read_quiet [OF Some [unfolded r]] by (intro quiet_advances) auto
      then have "advances s s1" by (auto simp: advances_def conn_inv_def)
      then show ?thesis using Some r by (simp add: ReadBytes sw)
    qed (simp add: ReadBytes sw)
  qed (simp_all add: sw sendDataChunk_advances [of "(s, w)", simplified] Close_advances [of "(s, w)", simplified]
      retransmit_advances [of "(s, w)", simplified] others_advance [of "(s, w)", simplified] delivered_advances
      deadlines_advance SetInactivityTimeout_def)
qed

lemma conn_reach_advances: "conn_reach env start sw \<Longrightarrow> advances (fst start) (fst sw)"
  by (induction rule: conn_reach.induct) (auto intro: advances_trans conn_do_advances)

section \<open>What sending changes in the world\<close>

lemma sendPacket_world:
  assumes "sendPacketLocked env pkt (s, w) = (r, s', w')"
  shows "w_connections w' = w_connections w \<and> w_limiter w' = w_limiter w \<and> w_tcbCache w' = w_tcbCache w"
  using assms
  by (auto simp: sendPacketLocked_def sendViaI2CPWithTracking_def SendMessage_def Let_def
      split: sum.splits option.splits prod.splits if_splits)

lemma stopPersist_eq: "stopPersistTimerLocked s = s\<lparr>persistTimer := False, persistStopChan := False\<rparr>"
  by (cases s) (simp add: stopPersistTimerLocked_def Let_def)

lemma cleanup_effect:
  assumes "hasManager s" and "cleanupConnectionLocked env (s, w) = (s', w')"
  shows "s' = s\<lparr>persistTimer := False, persistStopChan := False, ctxDone := True, conn_closed := True,
      recvCond := recvCond s + 1, sendCond := sendCond s + 1\<rparr>"
    and "map_of (w_connections w') (localPort s, remotePort s) = None"
    and "w_limiter w' = ConnectionClosed (w_limiter w)"
  using assms
  by (auto simp: cleanupConnectionLocked_def Let_def wakeBlockedGoroutines_def broadcast_send_def broadcast_recv_def
      stopPersist_eq UnregisterConnection_def delete_conv')

text \<open>Packets ahead of the expected one are stored; what has been delivered stays.\<close>

lemma addMissing_fields: "recvSeq (addMissing_loop is s) = recvSeq s \<and> recvBuf (addMissing_loop is s) = recvBuf s"
  by (induction "is" arbitrary: s) (simp_all add: Let_def)

lemma ooo_fields:
  "recvSeq (fst (handleOutOfOrderPacketLocked env pkt q (s, w))) = recvSeq s \<and>
   recvBuf (fst (handleOutOfOrderPacketLocked env pkt q (s, w))) = recvBuf s"
proof -
  let ?s = "updateNACKListLocked q (removeFromNACKListLocked q (s\<lparr>outOfOrderPackets := AList.update q pkt (outOfOrderPackets s)\<rparr>))"
  have "core (fst (handleOutOfOrderPacketLocked env pkt q (s, w))) = core ?s"
    by (simp add: handleOutOfOrderPacketLocked_def Let_def)
  then show ?thesis
    by (simp add: core_def updateNACKListLocked_def addMissingSequencesToNACKListLocked_def addMissing_fields
        removeFromNACKListLocked_def)
qed

section \<open>Properties\<close>

lemma demo_conn_inv: "conn_inv demo_conn"
  by (simp add: conn_inv_def cc_inv_def window_ok_def MaxWindowSize_def data_inv_def life_ok_def demo_conn_def
      MinRTO_def MaxRTO_def)

lemma Close_closes: "conn_closed (fst (conn_Close env sw))"
  by (cases "conn_closed (fst sw)")
    (simp_all add: conn_Close_def cleanupConnectionLocked_def wakeBlockedGoroutines_def broadcast_send_def
      broadcast_recv_def Let_def split: prod.splits)

text \<open>
  C26. \<^verbatim>\<open>Close\<close> releases everything at once, without waiting for the peer's \<^verbatim>\<open>CLOSE\<close>: closing an open connection of a manager removes it from the routing
  table, calls \<^verbatim>\<open>ConnectionClosed\<close> of the connection limiter, stops the persist timer and the goroutines of the connection, wakes readers and writers,
  leaves the state \<^verbatim>\<open>Closing\<close> if it was established, and changes no received byte.
\<close>

theorem Close_releases:
  assumes "\<not> conn_closed s" and "hasManager s" and "conn_Close env (s, w) = (s', w')"
  shows "map_of (w_connections w') (localPort s, remotePort s) = None \<and>
    w_limiter w' = ConnectionClosed (w_limiter w) \<and> conn_closed s' \<and> ctxDone s' \<and> \<not> persistTimer s' \<and>
    recvCond s' = recvCond s + 1 \<and> sendCond s' = sendCond s + 1 \<and> recvBuf s' = recvBuf s \<and>
    conn_state s' = (if conn_state s = StateEstablished then StateClosing else conn_state s)"
proof -
  obtain r s1 w1 where sc: "sendCloseLocked env (s, w) = (r, s1, w1)" by (metis prod_cases3)
  obtain t where s1: "s1 = s\<lparr>lastActivity := t\<rparr>" by (rule sendClose_frame [OF sc])
  have w1: "w_limiter w1 = w_limiter w" using sendPacket_world [OF sc [unfolded sendCloseLocked_def]] by simp_all
  show ?thesis
  proof (cases "conn_state s = StateEstablished")
    case True
    then have "conn_Close env (s, w) = cleanupConnectionLocked env (s1\<lparr>conn_state := StateClosing\<rparr>, w1)"
      using assms(1) by (simp add: conn_Close_def sendCloseIfEstablished_def sc setState_def)
    with cleanup_effect [of "s1\<lparr>conn_state := StateClosing\<rparr>" env w1 s' w'] assms(2,3) s1 w1 True show ?thesis by simp
  next
    case False
    then have "conn_Close env (s, w) = cleanupConnectionLocked env (s, w)"
      using assms(1) by (simp add: conn_Close_def sendCloseIfEstablished_def)
    with cleanup_effect [of s env w s' w'] assms(2,3) False show ?thesis by simp
  qed
qed

theorem Close_releases_witness:
  "\<exists>s' w'. conn_Close demo_env (demo_conn, demo_world) = (s', w') \<and> conn_state s' = StateClosing \<and> ctxDone s'"
proof -
  obtain s' w' where c: "conn_Close demo_env (demo_conn, demo_world) = (s', w')" by (metis surj_pair)
  have "hasManager demo_conn" by (simp add: demo_conn_def)
  from Close_releases [OF _ this c] c show ?thesis by auto
qed

text \<open>
  C32. A stream stalls at sequence number zero: once the next expected number is 0, which wrap-around reaches
  and which the sender does use for a data packet, no packet without the \<^verbatim>\<open>SYN\<close> flag moves an established connection on or
  adds a byte to its buffer, because a packet with number 0 is taken for a plain acknowledgement.
\<close>

theorem stalls_at_sequence_zero:
  assumes "conn_state s = StateEstablished" and "recvSeq s = 0" and "Flags pkt AND FlagSYN = 0"
    and "processPacket env pkt (s, w) = (r, s', w')"
  shows "recvSeq s' = 0 \<and> recvBuf s' = recvBuf s"
proof -
  let ?s = "s\<lparr>lastActivity := w_now w\<rparr>"
  have d: "dispatchPacketByFlags env pkt (?s, w) = (r, s', w')" using assms(4) by (simp add: processPacket_def)
  obtain r2 s2 w2 where sc: "sendCloseLocked env (?s, w) = (r2, s2, w2)" by (metis prod_cases3)
  obtain t where s2: "s2 = ?s\<lparr>lastActivity := t\<rparr>" by (rule sendClose_frame [OF sc])
  obtain s3 w3 where a: "handleAckLocked env pkt (?s, w) = (s3, w3)" by (metis surj_pair)
  have ack: "recvSeq s3 = recvSeq s" "recvBuf s3 = recvBuf s" using handleAck_facts(1) [OF a] by (simp_all add: rx_same_def)
  have cl: "recvSeq (fst (snd (handleCloseLocked env pkt (?s, w)))) = recvSeq s \<and>
      recvBuf (fst (snd (handleCloseLocked env pkt (?s, w)))) = recvBuf s"
    using assms(1) by (cases "verifyIfSigned env pkt") (simp_all add: handleCloseLocked_def sc s2 setState_def broadcast_recv_def)
  have re: "recvSeq (fst (snd (handleResetLocked env pkt (?s, w)))) = recvSeq s \<and>
      recvBuf (fst (snd (handleResetLocked env pkt (?s, w)))) = recvBuf s"
    by (cases "verifyIfSigned env pkt") (simp_all add: handleResetLocked_def setState_def broadcast_recv_def)
  have da: "recvSeq (fst (handleDataLocked env pkt (?s, w))) = recvSeq s \<and> recvBuf (fst (handleDataLocked env pkt (?s, w))) = recvBuf s"
    if "SequenceNum pkt \<noteq> 0"
    using that assms(2) ooo_fields [of env pkt "SequenceNum pkt" ?s w] by (simp add: handleDataLocked_def Let_def)
  show ?thesis using d assms(1-3) ack a cl re da
    by (auto simp: dispatchPacketByFlags_def split: if_splits)
qed

theorem stalls_at_sequence_zero_witness:
  "recvSeq (fst (snd (processPacket demo_env (dataPacket (demo_conn\<lparr>sendSeq := 0\<rparr>) [7]) (demo_conn\<lparr>recvSeq := 0\<rparr>, demo_world)))) = 0"
proof -
  obtain r s' w' where h: "processPacket demo_env (dataPacket (demo_conn\<lparr>sendSeq := 0\<rparr>) [7]) (demo_conn\<lparr>recvSeq := 0\<rparr>, demo_world) = (r, s', w')"
    by (metis prod_cases3)
  from stalls_at_sequence_zero [OF _ _ _ h] show ?thesis by (simp add: h)
qed

end
