(* ===== verification/Handshake.thy ===== *)
theory Handshake
  imports Lifecycle
begin

text \<open>
  The client side of the three-way handshake in \<^verbatim>\<open>stream.go\<close>: the parameters and identifiers of a new connection,
  the \<^verbatim>\<open>SYN\<close> with its replay-prevention NACKs, the wait for the \<^verbatim>\<open>SYN-ACK\<close>, its checks, the final \<^verbatim>\<open>ACK\<close>, and the
  dialling functions.

  Random numbers come from a list of the results of the random source (\<open>None\<close> when the list is too short).
  Each round of the \<^verbatim>\<open>select\<close> in \<^verbatim>\<open>waitForSynAck\<close> is one entry of a script: a queued packet is taken, the
  time-out fires, or the other goroutines act; a script that ends, or asks for what is not ready, leaves the
  caller waiting (\<open>None\<close>).
\<close>

section \<open>Creating a connection\<close>

definition validateConnectionParams :: "bool \<Rightarrow> 'd option \<Rightarrow> int \<Rightarrow> goerror option" where
  "validateConnectionParams hasSession dest mtu =
     (if mtu < MinMTU then Some (Errorf ''MTU %d is below minimum %d'' [mtu, MinMTU])
      else if mtu > DefaultMTU \<and> mtu \<noteq> ECIESMTU
      then Some (Errorf ''MTU %d exceeds recommended maximum %d (use %d for ECIES)'' [mtu, DefaultMTU, ECIESMTU])
      else if \<not> hasSession then Some (Errorf ''session cannot be nil'' [])
      else if dest = None then Some (Errorf ''destination cannot be nil'' [])
      else None)"

definition generateConnectionIdentifiers :: "randsource \<Rightarrow> ((u32 \<times> u32) result \<times> randsource) option" where
  "generateConnectionIdentifiers rs =
     (case generateISN rs of
        None \<Rightarrow> None
      | Some (Ok isn, rs) \<Rightarrow>
          (case generateISN rs of
             None \<Rightarrow> None
           | Some (Ok streamID, rs) \<Rightarrow> Some (Ok (isn, streamID), rs)
           | Some (Err e, rs) \<Rightarrow> Some (Err (Wrap ''generate stream ID'' e), rs)
           | Some (Panic, rs) \<Rightarrow> Some (Panic, rs))
      | Some (Err e, rs) \<Rightarrow> Some (Err (Wrap ''generate ISN'' e), rs)
      | Some (Panic, rs) \<Rightarrow> Some (Panic, rs))"

definition initializeStreamConn ::
  "conn_id \<Rightarrow> bool \<Rightarrow> 'd option \<Rightarrow> u16 \<Rightarrow> u16 \<Rightarrow> int \<Rightarrow> u32 \<Rightarrow> u32 \<Rightarrow> 'b \<Rightarrow> instant \<Rightarrow> ('d, 'b) StreamConn" where
  "initializeStreamConn cid manager dest lport rport mtu isn streamID buf now =
     \<lparr>self = cid, hasManager = manager, conn_dest = dest, localPort = lport, remotePort = rport,
      localStreamID = streamID, remoteStreamID = 0, sendSeq = isn, recvSeq = 0, ackThrough = 0,
      totalBytesSent = 0, totalBytesReceived = 0, windowSize = DefaultWindowSize, cwnd = DefaultWindowSize,
      ssthresh = MaxWindowSize, rtt = 8 * Second, rto = 9 * Second, srtt = 0, rttVariance = 0, optDelay = 0,
      choked = False, chokedUntil = None, persistTimer = False, persistStopChan = False, sendingChoke = False,
      lastBufferCheck = 0, localMTU = word_of_int mtu, remoteMTU = 0, outOfOrderPackets = [], nackList = [],
      sentPackets = [], nackCounts = [], recvBuf = buf, recvChan = [], ctxDone = False, recvCond = 0, sendCond = 0,
      readDeadline = None, writeDeadline = None, lastActivity = now, inactivityTimeout = DefaultInactivityTimeout,
      conn_profile = 0, remoteProfile = 0, conn_closed = False, conn_state = StateInit\<rparr>"

text \<open>What both constructors do with the TCB cache of the manager.\<close>

definition applyCachedTCB ::
  "('d, 'c, 'k, 'b) env \<Rightarrow> 'd option \<Rightarrow> ('d, 'b) conn_world \<Rightarrow> ('d, 'b) conn_world" where
  "applyCachedTCB env dest sw =
     (let (s, w) = sw in
      if hasManager s
      then let ((cachedRTT, rttVar, window, found), cache) = tcb_Get (e_lib env) (w_now w) (w_tcbCache w) dest;
               w = w\<lparr>w_tcbCache := cache\<rparr>
           in if found
              then (applyTCBDataToConnection s
                      \<lparr>td_RTT = cachedRTT, td_RTTVariance = rttVar, td_WindowSize = window, FromCache = True\<rparr>, w)
              else (s, w)
      else (s, w))"

definition recvBufSize :: int where "recvBufSize = 64 * 1024"

definition createConnectionStruct ::
  "('d, 'c, 'k, 'b) env \<Rightarrow> conn_id \<Rightarrow> bool \<Rightarrow> bool \<Rightarrow> StreamProfile \<Rightarrow> 'd option \<Rightarrow> u16 \<Rightarrow> u16 \<Rightarrow> int \<Rightarrow> randsource \<Rightarrow> 'd world \<Rightarrow>
     (('d, 'b) conn_world result \<times> randsource) option" where
  "createConnectionStruct env cid hasSession manager managerProfile dest lport rport mtu rs w =
     (case validateConnectionParams hasSession dest mtu of
        Some e \<Rightarrow> Some (Err e, rs)
      | None \<Rightarrow>
     (case generateConnectionIdentifiers rs of
        None \<Rightarrow> None
      | Some (Err e, rs) \<Rightarrow> Some (Err e, rs)
      | Some (Panic, rs) \<Rightarrow> Some (Panic, rs)
      | Some (Ok (isn, streamID), rs) \<Rightarrow>
     (case cb_NewBuffer (e_circ env) recvBufSize of
        Inl e \<Rightarrow> Some (Err (Wrap ''create receive buffer'' e), rs)
      | Inr buf \<Rightarrow>
          let s = initializeStreamConn cid manager dest lport rport mtu isn streamID buf (w_now w);
              (s, w) = applyCachedTCB env dest (s, w);
              s = s\<lparr>conn_profile := (if manager then managerProfile else ProfileBulk)\<rparr>
          in Some (Ok (s, w), rs))))"

section \<open>SYN\<close>

fun hash_words :: "nat list \<Rightarrow> byte list \<Rightarrow> u32 list result" where
  "hash_words [] hash = Ok []"
| "hash_words (i # is) hash =
     bind_result (slice_range hash (i * 4) ((i + 1) * 4)) (\<lambda>bs.
     bind_result (Uint32 bs) (\<lambda>x.
     bind_result (hash_words is hash) (\<lambda>xs. Ok (x # xs))))"

definition generateReplayPreventionNACKs :: "('d, 'c, 'k) i2plib \<Rightarrow> 'd option \<Rightarrow> u32 list result" where
  "generateReplayPreventionNACKs lib dest =
     bind_result (wrap_result ''hash destination'' (hashDestination lib dest)) (\<lambda>destHash. hash_words [0..<8] destHash)"

definition buildSYNPacket :: "('d, 'c, 'k, 'b) env \<Rightarrow> ('d, 'b) StreamConn \<Rightarrow> u32 list \<Rightarrow> 'd Packet" where
  "buildSYNPacket env s nacks =
     (let flags = FlagSYN OR FlagNoACK OR FlagMaxPacketSizeIncluded OR FlagSignatureIncluded OR FlagFromIncluded;
          flags = flags OR profileToFlag (conn_profile s)
      in emptyPacket\<lparr>SendStreamID := 0, RecvStreamID := localStreamID s, SequenceNum := sendSeq s, AckThrough := 0,
           Flags := flags, MaxPacketSize := localMTU s, NACKs := nacks,
           FromDestination := ses_Destination (e_session env)\<rparr>)"

definition signAndSendPacket ::
  "('d, 'c, 'k, 'b) env \<Rightarrow> 'd Packet \<Rightarrow> ('d, 'b) conn_world \<Rightarrow> goerror option \<times> 'd world" where
  "signAndSendPacket env pkt sw =
     (let (s, w) = sw in
      case ses_SigningKeyPair (e_session env) of
        Inl e \<Rightarrow> (Some (Wrap ''get signing key'' e), w)
      | Inr keyPair \<Rightarrow>
     (case checked (SignPacket (e_lib env) pkt keyPair) of
        Inl e \<Rightarrow> (Some (Wrap ''sign SYN'' e), w)
      | Inr pkt \<Rightarrow>
     (case checked (Marshal (e_lib env) pkt) of
        Inl e \<Rightarrow> (Some (Wrap ''marshal SYN'' e), w)
      | Inr data \<Rightarrow>
          let (r, w) = SendMessage env (conn_dest s) (localPort s) (remotePort s) data 0 w
          in (map_option (Wrap ''send SYN message'') r, w))))"

definition sendSYN ::
  "('d, 'c, 'k, 'b) env \<Rightarrow> ('d, 'b) conn_world \<Rightarrow> goerror option \<times> ('d, 'b) conn_world" where
  "sendSYN env sw =
     (let (s, w) = sw in
      case checked (generateReplayPreventionNACKs (e_lib env) (conn_dest s)) of
        Inl e \<Rightarrow> (Some e, (s, w))
      | Inr nacks \<Rightarrow>
          (case signAndSendPacket env (buildSYNPacket env s nacks) (s, w) of
             (Some e, w) \<Rightarrow> (Some e, (s, w))
           | (None, w) \<Rightarrow> (None, (s\<lparr>sendSeq := sendSeq s + 1\<rparr>, w))))"

section \<open>SYN-ACK\<close>

definition isSynAckPacket :: "'d Packet \<Rightarrow> bool" where
  "isSynAckPacket pkt \<longleftrightarrow> Flags pkt AND FlagSYN \<noteq> 0 \<and> SendStreamID pkt > 0"

datatype ('d, 'b) wait_round = TakePacket | TimeOut | Meanwhile "('d, 'b) interference"

fun waitForSynAck ::
  "instant \<Rightarrow> ('d, 'b) wait_round list \<Rightarrow> ('d, 'b) conn_world \<Rightarrow> ((goerror + 'd Packet) \<times> ('d, 'b) conn_world) option" where
  "waitForSynAck limit [] sw = None"
| "waitForSynAck limit (TimeOut # rounds) sw =
     (if w_now (snd sw) \<ge> limit
      then Some (Inl (Wrap ''timeout waiting for SYN-ACK'' (Errorf ''context deadline exceeded'' [])), sw) else None)"
| "waitForSynAck limit (TakePacket # rounds) sw =
     (case recvChan (fst sw) of
        [] \<Rightarrow> None
      | pkt # pkts \<Rightarrow>
          let sw = ((fst sw)\<lparr>recvChan := pkts\<rparr>, snd sw)
          in if isSynAckPacket pkt then Some (Inr pkt, sw) else waitForSynAck limit rounds sw)"
| "waitForSynAck limit (Meanwhile f # rounds) sw = waitForSynAck limit rounds (f sw)"

definition validateSynAckAckThrough :: "'d Packet \<Rightarrow> ('d, 'b) StreamConn \<Rightarrow> goerror option" where
  "validateSynAckAckThrough pkt s =
     (let expectedAck = sendSeq s - 1 in
      if AckThrough pkt \<noteq> expectedAck
      then Some (Errorf ''invalid SYN-ACK: expected AckThrough=%d, got %d'' [uint expectedAck, uint (AckThrough pkt)])
      else None)"

definition extractRemoteMTUFromSynAck :: "'d Packet \<Rightarrow> ('d, 'b) StreamConn \<Rightarrow> ('d, 'b) StreamConn" where
  "extractRemoteMTUFromSynAck pkt s =
     (if Flags pkt AND FlagMaxPacketSizeIncluded \<noteq> 0 \<and> MaxPacketSize pkt > 0
      then s\<lparr>remoteMTU := MaxPacketSize pkt\<rparr> else s\<lparr>remoteMTU := word_of_int DefaultMTU\<rparr>)"

definition extractRemoteProfileFromSynAck :: "'d Packet \<Rightarrow> ('d, 'b) StreamConn \<Rightarrow> ('d, 'b) StreamConn" where
  "extractRemoteProfileFromSynAck pkt s =
     (if Flags pkt AND FlagProfileInteractive \<noteq> 0
      then s\<lparr>remoteProfile := ProfileInteractive\<rparr> else s\<lparr>remoteProfile := ProfileBulk\<rparr>)"

definition processSynAck :: "'d Packet \<Rightarrow> ('d, 'b) StreamConn \<Rightarrow> goerror option \<times> ('d, 'b) StreamConn" where
  "processSynAck pkt s =
     (case validateSynAckAckThrough pkt s of
        Some e \<Rightarrow> (Some e, s)
      | None \<Rightarrow>
          let s = s\<lparr>recvSeq := SequenceNum pkt + 1, remoteStreamID := SendStreamID pkt, ackThrough := AckThrough pkt\<rparr>;
              s = extractRemoteMTUFromSynAck pkt s;
              s = extractRemoteProfileFromSynAck pkt s
          in (None, s))"

definition finalAckPacket :: "('d, 'b) StreamConn \<Rightarrow> 'd Packet" where
  "finalAckPacket s = emptyPacket\<lparr>SendStreamID := localStreamID s, RecvStreamID := remoteStreamID s,
     SequenceNum := 0, AckThrough := recvSeq s - 1, Flags := 0\<rparr>"

definition sendACK ::
  "('d, 'c, 'k, 'b) env \<Rightarrow> ('d, 'b) conn_world \<Rightarrow> goerror option \<times> ('d, 'b) conn_world" where
  "sendACK env sw =
     (let (s, w) = sw in
      case checked (Marshal (e_lib env) (finalAckPacket s)) of
        Inl e \<Rightarrow> (Some (Wrap ''marshal ACK'' e), (s, w))
      | Inr data \<Rightarrow>
          let (r, w) = SendMessage env (conn_dest s) (localPort s) (remotePort s) data 0 w
          in (map_option (Wrap ''send ACK message'') r, (s, w)))"

section \<open>Dialling\<close>

definition completeHandshake ::
  "('d, 'c, 'k, 'b) env \<Rightarrow> duration \<Rightarrow> ('d, 'b) wait_round list \<Rightarrow> ('d, 'b) conn_world \<Rightarrow>
     (goerror option \<times> ('d, 'b) conn_world) option" where
  "completeHandshake env timeout rounds sw =
     (case waitForSynAck (w_now (snd sw) + timeout) rounds sw of
        None \<Rightarrow> None
      | Some (Inl e, sw) \<Rightarrow> Some (Some (Wrap ''wait for SYN-ACK'' e), sw)
      | Some (Inr synAck, (s, w)) \<Rightarrow>
     (case processSynAck synAck s of
        (Some e, s) \<Rightarrow> Some (Some (Wrap ''process SYN-ACK'' e), (s, w))
      | (None, s) \<Rightarrow>
     (case sendACK env (s, w) of
        (Some e, sw) \<Rightarrow> Some (Some (Wrap ''send ACK'' e), sw)
      | (None, sw) \<Rightarrow> Some (None, sw))))"

definition performHandshake ::
  "('d, 'c, 'k, 'b) env \<Rightarrow> duration \<Rightarrow> ('d, 'b) wait_round list \<Rightarrow> ('d, 'b) conn_world \<Rightarrow>
     (goerror option \<times> ('d, 'b) conn_world) option" where
  "performHandshake env timeout rounds sw =
     (case sendSYN env sw of
        (Some e, sw) \<Rightarrow> Some (Some (Wrap ''send SYN'' e), sw)
      | (None, (s, w)) \<Rightarrow>
     (case completeHandshake env timeout rounds (setState s StateSynSent, w) of
        None \<Rightarrow> None
      | Some (Some e, sw) \<Rightarrow> Some (Some e, sw)
      | Some (None, (s, w)) \<Rightarrow> Some (None, (setState s StateEstablished, w))))"

definition DefaultConnectTimeout :: duration where "DefaultConnectTimeout = 60 * Second"

definition DialWithMTU ::
  "('d, 'c, 'k, 'b) env \<Rightarrow> conn_id \<Rightarrow> bool \<Rightarrow> 'd option \<Rightarrow> u16 \<Rightarrow> u16 \<Rightarrow> int \<Rightarrow> duration \<Rightarrow> randsource \<Rightarrow>
     ('d, 'b) wait_round list \<Rightarrow> 'd world \<Rightarrow> (goerror option \<times> ('d, 'b) conn_world) result option" where
  "DialWithMTU env cid hasSession dest lport rport mtu timeout rs rounds w =
     (case createConnectionStruct env cid hasSession False 0 dest lport rport mtu rs w of
        None \<Rightarrow> None
      | Some (Err e, rs) \<Rightarrow> Some (Err e)
      | Some (Panic, rs) \<Rightarrow> Some Panic
      | Some (Ok sw, rs) \<Rightarrow> map_option Ok (performHandshake env timeout rounds sw))"

definition Dial ::
  "('d, 'c, 'k, 'b) env \<Rightarrow> conn_id \<Rightarrow> bool \<Rightarrow> 'd option \<Rightarrow> u16 \<Rightarrow> u16 \<Rightarrow> randsource \<Rightarrow>
     ('d, 'b) wait_round list \<Rightarrow> 'd world \<Rightarrow> (goerror option \<times> ('d, 'b) conn_world) result option" where
  "Dial env cid hasSession dest lport rport rs rounds w =
     DialWithMTU env cid hasSession dest lport rport DefaultMTU DefaultConnectTimeout rs rounds w"

definition RegisterConnection :: "u16 \<Rightarrow> u16 \<Rightarrow> conn_id \<Rightarrow> 'd world \<Rightarrow> 'd world" where
  "RegisterConnection lport rport cid w = w\<lparr>w_connections := AList.update (lport, rport) cid (w_connections w)\<rparr>"

definition DialWithManager ::
  "('d, 'c, 'k, 'b) env \<Rightarrow> conn_id \<Rightarrow> bool \<Rightarrow> bool \<Rightarrow> StreamProfile \<Rightarrow> 'd option \<Rightarrow> u16 \<Rightarrow> u16 \<Rightarrow> randsource \<Rightarrow>
     ('d, 'b) wait_round list \<Rightarrow> 'd world \<Rightarrow> (goerror option \<times> ('d, 'b) conn_world) result option" where
  "DialWithManager env cid hasSession manager managerProfile dest lport rport rs rounds w =
     (if \<not> manager then Some (Err (Errorf ''manager cannot be nil'' []))
      else
        case createConnectionStruct env cid hasSession True managerProfile dest lport rport DefaultMTU rs w of
          None \<Rightarrow> None
        | Some (Err e, rs) \<Rightarrow> Some (Err e)
        | Some (Panic, rs) \<Rightarrow> Some Panic
        | Some (Ok (s, w), rs) \<Rightarrow>
            (case performHandshake env DefaultConnectTimeout rounds (s, RegisterConnection lport rport cid w) of
               None \<Rightarrow> None
             | Some (Some e, (s, w)) \<Rightarrow> Some (Ok (Some e, (s, UnregisterConnection lport rport w)))
             | Some (None, sw) \<Rightarrow> Some (Ok (None, sw))))"

section \<open>What the cached control block leaves alone\<close>

lemma applyTCBData_frame [simp]:
  "localStreamID (applyTCBDataToConnection s td) = localStreamID s" "remoteStreamID (applyTCBDataToConnection s td) = remoteStreamID s"
  "sendSeq (applyTCBDataToConnection s td) = sendSeq s" "recvSeq (applyTCBDataToConnection s td) = recvSeq s"
  "localMTU (applyTCBDataToConnection s td) = localMTU s" "remoteMTU (applyTCBDataToConnection s td) = remoteMTU s"
  "conn_state (applyTCBDataToConnection s td) = conn_state s" "conn_profile (applyTCBDataToConnection s td) = conn_profile s"
  "remoteProfile (applyTCBDataToConnection s td) = remoteProfile s" "self (applyTCBDataToConnection s td) = self s"
  "conn_dest (applyTCBDataToConnection s td) = conn_dest s" "localPort (applyTCBDataToConnection s td) = localPort s"
  "remotePort (applyTCBDataToConnection s td) = remotePort s" "hasManager (applyTCBDataToConnection s td) = hasManager s"
  "ctxDone (applyTCBDataToConnection s td) = ctxDone s" "conn_closed (applyTCBDataToConnection s td) = conn_closed s"
  "recvChan (applyTCBDataToConnection s td) = recvChan s"
  by (simp_all add: applyTCBDataToConnection_def Let_def)

lemma applyCachedTCB_frame:
  assumes "applyCachedTCB env d (s, w) = (s', w')"
  shows "localStreamID s' = localStreamID s" "remoteStreamID s' = remoteStreamID s" "sendSeq s' = sendSeq s"
    "recvSeq s' = recvSeq s" "localMTU s' = localMTU s" "remoteMTU s' = remoteMTU s" "conn_state s' = conn_state s"
    "conn_profile s' = conn_profile s" "remoteProfile s' = remoteProfile s" "w_wire w' = w_wire w" "self s' = self s"
    "w_limiter w' = w_limiter w" "w_connections w' = w_connections w" "conn_dest s' = conn_dest s"
    "localPort s' = localPort s" "remotePort s' = remotePort s" "hasManager s' = hasManager s"
    "ctxDone s' = ctxDone s" "conn_closed s' = conn_closed s" "recvChan s' = recvChan s"
proof -
  have "s' = s \<or> (\<exists>td. s' = applyTCBDataToConnection s td)" and "\<exists>c. w' = w\<lparr>w_tcbCache := c\<rparr> \<or> w' = w"
    using assms by (auto simp: applyCachedTCB_def Let_def split: if_splits prod.splits)
  then obtain c where w: "w' = w\<lparr>w_tcbCache := c\<rparr> \<or> w' = w" and s: "s' = s \<or> (\<exists>td. s' = applyTCBDataToConnection s td)" by blast
  show "w_wire w' = w_wire w" "w_limiter w' = w_limiter w" "w_connections w' = w_connections w" using w by auto
  show "localStreamID s' = localStreamID s" "remoteStreamID s' = remoteStreamID s" "sendSeq s' = sendSeq s"
    "recvSeq s' = recvSeq s" "localMTU s' = localMTU s" "remoteMTU s' = remoteMTU s" "conn_state s' = conn_state s"
    "conn_profile s' = conn_profile s" "remoteProfile s' = remoteProfile s" "self s' = self s"
    "conn_dest s' = conn_dest s"
    "localPort s' = localPort s" "remotePort s' = remotePort s" "hasManager s' = hasManager s"
    "ctxDone s' = ctxDone s" "conn_closed s' = conn_closed s" "recvChan s' = recvChan s"
    using s by auto
qed

end
