(* ===== verification/Access_List.thy ===== *)
theory Access_List
  imports Packet_Wire Base64
begin

text \<open>
  The access filter of \<^verbatim>\<open>accesslist.go\<close>: the configured list of hashes, the set of their normal
  forms kept beside it, and the decision for a destination.  The filter is specified by its list alone
  (\<open>listed\<close>); the set is an index of it.  SHA-256 is the parameter \<open>Sum256\<close>, of which only the 32-byte
  result is used.  A filter keeps the pointer to the configuration it was given; in the model it has a configuration of its own, which is the same as long as
  neither the caller nor a second filter built from the same object changes it.
\<close>

section \<open>Configuration and state\<close>

type_synonym AccessListMode = int

definition AccessListModeDisabled :: AccessListMode where "AccessListModeDisabled = 0"
definition AccessListModeWhitelist :: AccessListMode where "AccessListModeWhitelist = 1"
definition AccessListModeBlacklist :: AccessListMode where "AccessListModeBlacklist = 2"

lemmas mode_defs = AccessListModeDisabled_def AccessListModeWhitelist_def AccessListModeBlacklist_def

record AccessListConfig =
  Mode :: AccessListMode
  Hashes :: "string list"
  al_DisableRejectLogging :: bool

definition DefaultAccessListConfig :: AccessListConfig where
  "DefaultAccessListConfig = \<lparr>Mode = AccessListModeDisabled, Hashes = [], al_DisableRejectLogging = False\<rparr>"

record accessFilter =
  af_config :: AccessListConfig
  hashSet :: "string set"

section \<open>Operations\<close>

definition normalizeHash :: "string \<Rightarrow> string" where
  "normalizeHash hash =
     (let hash = TrimSpace hash in
      if hash = [] then []
      else if 43 \<le> length hash \<and> length hash \<le> 44 then
        (case b64_decode True hash of
           Some decoded \<Rightarrow> b64_encode decoded
         | None \<Rightarrow>
             (case b64_decode False hash of
                Some decoded \<Rightarrow> b64_encode decoded
              | None \<Rightarrow> []))
      else hash)"

definition rebuildHashSet :: "accessFilter \<Rightarrow> accessFilter" where
  "rebuildHashSet af = af\<lparr>hashSet :=
     fold (\<lambda>hash acc. let normalized = normalizeHash hash
                      in if normalized \<noteq> [] then insert normalized acc else acc)
       (Hashes (af_config af)) {}\<rparr>"

definition newAccessFilter :: "AccessListConfig option \<Rightarrow> accessFilter" where
  "newAccessFilter config =
     rebuildHashSet \<lparr>af_config = (case config of None \<Rightarrow> DefaultAccessListConfig | Some c \<Rightarrow> c), hashSet = {}\<rparr>"

definition af_SetConfig :: "accessFilter \<Rightarrow> AccessListConfig option \<Rightarrow> accessFilter" where
  "af_SetConfig af config =
     rebuildHashSet (af\<lparr>af_config := (case config of None \<Rightarrow> DefaultAccessListConfig | Some c \<Rightarrow> c)\<rparr>)"

definition af_GetConfig :: "accessFilter \<Rightarrow> AccessListConfig" where
  "af_GetConfig af = \<lparr>Mode = Mode (af_config af), Hashes = Hashes (af_config af),
     al_DisableRejectLogging = al_DisableRejectLogging (af_config af)\<rparr>"

definition hashDestinationForAccessList :: "('d, 'c, 'k) i2plib \<Rightarrow> 'd option \<Rightarrow> string" where
  "hashDestinationForAccessList lib dest =
     (case dest of None \<Rightarrow> []
      | Some d \<Rightarrow> (case WriteToStream lib d of Inl _ \<Rightarrow> [] | Inr bs \<Rightarrow> b64_encode (Sum256 lib bs)))"

definition IsAllowed :: "('d, 'c, 'k) i2plib \<Rightarrow> accessFilter \<Rightarrow> 'd option \<Rightarrow> bool" where
  "IsAllowed lib af dest =
     (if Mode (af_config af) = AccessListModeDisabled then True
      else if dest = None then True
      else
        let destHash = hashDestinationForAccessList lib dest in
        if destHash = [] then True
        else
          let inList = (destHash \<in> hashSet af) in
          if Mode (af_config af) = AccessListModeWhitelist then inList
          else if Mode (af_config af) = AccessListModeBlacklist then \<not> inList
          else True)"

definition CheckAndLog :: "('d, 'c, 'k) i2plib \<Rightarrow> accessFilter \<Rightarrow> 'd option \<Rightarrow> goerror option" where
  "CheckAndLog lib af dest =
     (if IsAllowed lib af dest then None
      else
        let reason = (if Mode (af_config af) = AccessListModeWhitelist
                      then ''destination not in whitelist'' else ''destination in blacklist'')
        in Some (AccessDeniedError reason))"

definition AddHash :: "accessFilter \<Rightarrow> string \<Rightarrow> accessFilter" where
  "AddHash af hash =
     (let normalized = normalizeHash hash in
      if normalized = [] then af
      else af\<lparr>af_config := (af_config af)\<lparr>Hashes := Hashes (af_config af) @ [hash]\<rparr>,
              hashSet := insert normalized (hashSet af)\<rparr>)"

definition RemoveHash :: "accessFilter \<Rightarrow> string \<Rightarrow> accessFilter" where
  "RemoveHash af hash =
     (let normalized = normalizeHash hash in
      if normalized = [] then af
      else af\<lparr>hashSet := hashSet af - {normalized},
              af_config := (af_config af)\<lparr>Hashes :=
                filter (\<lambda>h. normalizeHash h \<noteq> normalized) (Hashes (af_config af))\<rparr>\<rparr>)"

definition af_Clear :: "accessFilter \<Rightarrow> accessFilter" where
  "af_Clear af = af\<lparr>af_config := (af_config af)\<lparr>Hashes := []\<rparr>, hashSet := {}\<rparr>"

definition af_Count :: "accessFilter \<Rightarrow> nat" where
  "af_Count af = card (hashSet af)"

definition ParseHashList :: "string \<Rightarrow> string list" where
  "ParseHashList list =
     (if list = [] then []
      else
        let list = ReplaceChar (CHR '','') (CHR '' '') list;
            parts = Fields list
        in foldl (\<lambda>result part. let part = TrimSpace part in if part \<noteq> [] then result @ [part] else result)
             [] parts)"

section \<open>The index invariant\<close>

definition listed :: "accessFilter \<Rightarrow> string \<Rightarrow> bool" where
  "listed af h \<longleftrightarrow> h \<noteq> [] \<and> (\<exists>e\<in>set (Hashes (af_config af)). normalizeHash e = h)"

definition filter_inv :: "accessFilter \<Rightarrow> bool" where
  "filter_inv af \<longleftrightarrow> (\<forall>h. h \<in> hashSet af \<longleftrightarrow> listed af h)"

lemma rebuildHashSet_hashSet:
  "hashSet (rebuildHashSet af) = {h. h \<noteq> [] \<and> (\<exists>e\<in>set (Hashes (af_config af)). normalizeHash e = h)}"
proof -
  have "fold (\<lambda>hash acc. let normalized = normalizeHash hash
          in if normalized \<noteq> [] then insert normalized acc else acc) xs A =
      A \<union> {h. h \<noteq> [] \<and> (\<exists>e\<in>set xs. normalizeHash e = h)}" for xs A
    by (induction xs arbitrary: A) (auto simp: Let_def)
  then show ?thesis by (simp add: rebuildHashSet_def)
qed

lemma filter_inv_rebuild: "filter_inv (rebuildHashSet af)"
  using rebuildHashSet_hashSet [of af] by (simp add: filter_inv_def listed_def rebuildHashSet_def)

text \<open>
  The interface of a filter: a state with an index that answers for the list, and list operations
  with their laws.  What a client decides from the index is then a statement about the list.
\<close>

locale listing =
  fixes inv :: "'s \<Rightarrow> bool"
    and member :: "'s \<Rightarrow> string \<Rightarrow> bool"
    and mem_spec :: "'s \<Rightarrow> string \<Rightarrow> bool"
    and add remove :: "'s \<Rightarrow> string \<Rightarrow> 's"
    and norm :: "string \<Rightarrow> string"
  assumes member_spec: "inv s \<Longrightarrow> member s h \<longleftrightarrow> mem_spec s h"
    and add_inv: "inv s \<Longrightarrow> inv (add s h)"
    and remove_inv: "inv s \<Longrightarrow> inv (remove s h)"
    and add_spec: "mem_spec (add s h) g \<longleftrightarrow> mem_spec s g \<or> norm h \<noteq> [] \<and> g = norm h"
    and remove_spec: "mem_spec (remove s h) g \<longleftrightarrow> mem_spec s g \<and> (norm h = [] \<or> g \<noteq> norm h)"
begin

lemma member_add: "inv s \<Longrightarrow> member (add s h) g \<longleftrightarrow> member s g \<or> norm h \<noteq> [] \<and> g = norm h"
  using member_spec [OF add_inv] member_spec add_spec by metis

lemma member_remove: "inv s \<Longrightarrow> member (remove s h) g \<longleftrightarrow> member s g \<and> (norm h = [] \<or> g \<noteq> norm h)"
  using member_spec [OF remove_inv] member_spec remove_spec by metis

end

lemma listed_nonempty: "listed af h \<Longrightarrow> h \<noteq> []"
  by (simp add: listed_def)

lemma listed_AddHash:
  "listed (AddHash s h) g \<longleftrightarrow> listed s g \<or> normalizeHash h \<noteq> [] \<and> g = normalizeHash h"
  by (auto simp: listed_def AddHash_def Let_def)

lemma listed_RemoveHash:
  "listed (RemoveHash s h) g \<longleftrightarrow> listed s g \<and> (normalizeHash h = [] \<or> g \<noteq> normalizeHash h)"
  by (auto simp: listed_def RemoveHash_def Let_def)

lemma filter_inv_AddHash: "filter_inv s \<Longrightarrow> filter_inv (AddHash s h)"
  unfolding filter_inv_def listed_AddHash by (auto simp: AddHash_def Let_def)

lemma filter_inv_RemoveHash: "filter_inv s \<Longrightarrow> filter_inv (RemoveHash s h)"
  unfolding filter_inv_def listed_RemoveHash by (auto simp: RemoveHash_def Let_def)

interpretation hashes: listing filter_inv "\<lambda>af h. h \<in> hashSet af" listed AddHash RemoveHash normalizeHash
proof
  show "(h \<in> hashSet s) = listed s h" if "filter_inv s" for s h using that by (simp add: filter_inv_def)
qed (fact filter_inv_AddHash filter_inv_RemoveHash listed_AddHash listed_RemoveHash)+

datatype filter_op = OpAdd string | OpRemove string | OpClear | OpSetConfig "AccessListConfig option"

fun filter_step :: "accessFilter \<Rightarrow> filter_op \<Rightarrow> accessFilter" where
  "filter_step af (OpAdd h) = AddHash af h"
| "filter_step af (OpRemove h) = RemoveHash af h"
| "filter_step af OpClear = af_Clear af"
| "filter_step af (OpSetConfig c) = af_SetConfig af c"

lemma filter_inv_step: "filter_inv af \<Longrightarrow> filter_inv (filter_step af x)"
  by (cases x) (auto simp: hashes.add_inv hashes.remove_inv af_SetConfig_def filter_inv_rebuild,
      simp add: filter_inv_def af_Clear_def listed_def)

lemma filter_inv_run: "filter_inv (foldl filter_step (newAccessFilter config) ops)"
proof -
  have "filter_inv af \<Longrightarrow> filter_inv (foldl filter_step af ops)" for af
    by (induction ops arbitrary: af) (auto simp: filter_inv_step)
  then show ?thesis by (simp add: newAccessFilter_def filter_inv_rebuild)
qed

lemma normalizeHash_encoded:
  assumes "length bs = 32"
  shows "normalizeHash (b64_encode bs) = b64_encode bs"
proof -
  have "length (b64_encode bs) = 44" using assms by (simp add: length_b64_encode)
  moreover have "TrimSpace (b64_encode bs) = b64_encode bs"
    using b64_encode_plain by (intro TrimSpace_id) blast
  ultimately show ?thesis
    by (auto simp: normalizeHash_def Let_def b64_decode_encode)
qed

lemma normalizeHash_foreign:
  assumes "TrimSpace h = h" and "length h = 43 \<or> length h = 44" and "CHR ''-'' \<in> set h \<or> CHR ''~'' \<in> set h"
  shows "normalizeHash h = []"
proof -
  obtain c where c: "c \<in> set h" "c = CHR ''-'' \<or> c = CHR ''~''" using assms(3) by auto
  have "b64_dec (CHR ''-'') = None" "b64_dec (CHR ''~'') = None"
    unfolding b64_dec_def b64_alphabet_def by code_simp+
  with c have "b64_dec c = None" "c \<noteq> pad" "c \<in> set (filter (\<lambda>c. c \<noteq> CHR 0x0A \<and> c \<noteq> CHR 0x0D) h)"
    by (auto simp: pad_def)
  then have "b64_decode padded h = None" for padded
    unfolding b64_decode_def using b64_quanta_bad by blast
  with assms(1,2) show ?thesis by (auto simp: normalizeHash_def Let_def)
qed

lemma ParseHashList_eq: "ParseHashList s = Fields (ReplaceChar (CHR '','') (CHR '' '') s)"
proof -
  have id: "TrimSpace w = w" "w \<noteq> []" if "w \<in> set (Fields t)" for w t
    using Fields_words [OF that] TrimSpace_id by blast+
  have "foldl (\<lambda>result part. let part = TrimSpace part in if part \<noteq> [] then result @ [part] else result) acc ws
      = acc @ ws" if "\<forall>w\<in>set ws. TrimSpace w = w \<and> w \<noteq> []" for acc ws
    using that by (induction ws arbitrary: acc) (auto simp: Let_def)
  from this [of _ "[]"] id show ?thesis
    by (simp add: ParseHashList_def Let_def) (simp add: Fields_def ReplaceChar_def)
qed

definition separator :: "char \<Rightarrow> bool" where
  "separator c \<longleftrightarrow> isSpace c \<or> c = CHR '',''"

lemma Fields_skip_spaces: "\<forall>c\<in>set sp. isSpace c \<Longrightarrow> Fields (sp @ rest) = Fields rest"
  by (induction sp) (auto simp: Fields_def)

lemma ReplaceChar_no: "CHR '','' \<notin> set w \<Longrightarrow> ReplaceChar (CHR '','') (CHR '' '') w = w"
  unfolding ReplaceChar_def by (rule map_idI) auto

lemma ReplaceChar_append: "ReplaceChar a b (xs @ ys) = ReplaceChar a b xs @ ReplaceChar a b ys"
  by (simp add: ReplaceChar_def)

lemma ReplaceChar_spaces:
  "\<forall>c\<in>set sp. separator c \<Longrightarrow> \<forall>c\<in>set (ReplaceChar (CHR '','') (CHR '' '') sp). isSpace c"
  by (auto simp: ReplaceChar_def separator_def) (simp add: isSpace_def)

lemma Fields_word_sep:
  assumes "v \<noteq> []" "\<forall>c\<in>set v. \<not> isSpace c" and "sp \<noteq> []" "\<forall>c\<in>set sp. isSpace c"
  shows "Fields (v @ sp @ rest) = v # Fields rest"
proof -
  obtain c sp' where sp: "sp = c # sp'" using assms(3) by (cases sp) auto
  have "Fields (v @ c # (sp' @ rest)) = v # Fields (sp' @ rest)"
    using assms sp by (intro Fields_append_space) auto
  with assms(4) sp show ?thesis by (simp add: Fields_skip_spaces)
qed

section \<open>Properties\<close>

lemma short_entry_ignored:
  assumes "length (Sum256 lib bs) = 32" and "length (TrimSpace e) \<notin> {43, 44}"
  shows "normalizeHash e \<noteq> b64_encode (Sum256 lib bs)"
proof -
  have "length (b64_encode (Sum256 lib bs)) = 44" using length_b64_encode [of "Sum256 lib bs"] assms(1) by simp
  moreover have "normalizeHash e = TrimSpace e" using assms(2) by (auto simp: normalizeHash_def Let_def)
  ultimately show ?thesis using assms(2) by auto
qed

text \<open>
  C38. The decision is the list's: after any sequence of additions, removals, clears and configuration
  changes, a destination whose hash can be computed is allowed exactly when the mode is whitelist and
  some configured entry normalises to its hash, or the mode is blacklist and none does, or filtering
  is off or the mode unknown; a missing destination, and one that cannot be serialised, is allowed.  Since hashes are compared in Base64, an entry
  that has neither 43 nor 44 characters, a raw hash of 32 bytes for one, matches no destination.  This is a filter whose configuration object nobody
  else changes.
\<close>

theorem IsAllowed_by_list:
  "let af = foldl filter_step (newAccessFilter config) ops;
       m = Mode (af_config af);
       h = hashDestinationForAccessList lib dest;
       present = (\<exists>e\<in>set (Hashes (af_config af)). normalizeHash e = h)
   in (IsAllowed lib af dest \<longleftrightarrow>
        h = [] \<or> m \<notin> {AccessListModeWhitelist, AccessListModeBlacklist} \<or>
        (m = AccessListModeWhitelist \<and> present) \<or> (m = AccessListModeBlacklist \<and> \<not> present)) \<and>
      (CheckAndLog lib af dest = None \<longleftrightarrow> IsAllowed lib af dest) \<and>
      ((\<forall>bs. length (Sum256 lib bs) = 32) \<longrightarrow> h \<noteq> [] \<longrightarrow> (\<forall>e. length (TrimSpace e) \<notin> {43, 44} \<longrightarrow> normalizeHash e \<noteq> h))"
proof -
  define af where "af = foldl filter_step (newAccessFilter config) ops"
  have mem: "h \<in> hashSet af \<longleftrightarrow> listed af h" for h
    using hashes.member_spec [OF filter_inv_run [of config ops]] by (simp add: af_def)
  have "dest = None \<Longrightarrow> hashDestinationForAccessList lib dest = []"
    by (simp add: hashDestinationForAccessList_def)
  moreover have "normalizeHash e \<noteq> hashDestinationForAccessList lib dest"
    if "\<forall>bs. length (Sum256 lib bs) = 32" "hashDestinationForAccessList lib dest \<noteq> []" "length (TrimSpace e) \<notin> {43, 44}" for e
    using that short_entry_ignored [of lib _ e]
    by (auto simp: hashDestinationForAccessList_def split: option.splits sum.splits)
  ultimately show ?thesis
    unfolding Let_def af_def [symmetric]
    by (auto simp: IsAllowed_def CheckAndLog_def Let_def mem listed_def mode_defs)
qed

definition demo_whitelist :: AccessListConfig where
  "demo_whitelist = \<lparr>Mode = AccessListModeWhitelist, Hashes = [], al_DisableRejectLogging = False\<rparr>"

theorem IsAllowed_by_list_witness:
  "\<not> IsAllowed byte_lib (newAccessFilter (Some demo_whitelist)) (Some 5)"
proof -
  have "hashDestinationForAccessList byte_lib (Some 5) \<noteq> []"
    using length_b64_encode [of "Sum256 byte_lib [5]"]
    by (auto simp: hashDestinationForAccessList_def byte_lib_def)
  moreover have "af_config (newAccessFilter (Some demo_whitelist)) = demo_whitelist"
    by (simp add: newAccessFilter_def rebuildHashSet_def)
  ultimately show ?thesis using IsAllowed_by_list [of "Some demo_whitelist" "[]" byte_lib "Some 5"]
    by (simp add: Let_def demo_whitelist_def mode_defs)
qed

text \<open>
  Adding and removing a peer takes effect: adding the Base64 hash of a destination to any reachable
  filter makes a whitelist admit it and a blacklist reject it, and removing it does the opposite.
\<close>

theorem AddHash_RemoveHash_effect:
  assumes "WriteToStream lib d = Inr bs" and "length (Sum256 lib bs) = 32"
    and "af = foldl filter_step (newAccessFilter config) ops" and "h = b64_encode (Sum256 lib bs)"
  shows "(Mode (af_config af) = AccessListModeWhitelist \<longrightarrow>
      IsAllowed lib (AddHash af h) (Some d) \<and> \<not> IsAllowed lib (RemoveHash af h) (Some d)) \<and>
    (Mode (af_config af) = AccessListModeBlacklist \<longrightarrow>
      \<not> IsAllowed lib (AddHash af h) (Some d) \<and> IsAllowed lib (RemoveHash af h) (Some d))"
proof -
  have inv: "filter_inv af" using filter_inv_run by (simp add: assms(3))
  have n: "normalizeHash h = h" using normalizeHash_encoded [OF assms(2)] by (simp add: assms(4))
  have "length h = 44" using assms(2,4) by (simp add: length_b64_encode)
  then have ne: "h \<noteq> []" by auto
  have hd: "hashDestinationForAccessList lib (Some d) = h"
    using assms(1,4) by (simp add: hashDestinationForAccessList_def)
  have "h \<in> hashSet (AddHash af h)" "h \<notin> hashSet (RemoveHash af h)"
    using hashes.member_add [OF inv] hashes.member_remove [OF inv] n ne by auto
  moreover have "Mode (af_config (AddHash af h)) = Mode (af_config af)"
    "Mode (af_config (RemoveHash af h)) = Mode (af_config af)"
    by (simp_all add: AddHash_def RemoveHash_def Let_def)
  ultimately show ?thesis by (simp add: IsAllowed_def Let_def hd ne mode_defs)
qed

theorem AddHash_RemoveHash_effect_witness:
  "IsAllowed byte_lib (AddHash (newAccessFilter (Some demo_whitelist)) (b64_encode (Sum256 byte_lib [5]))) (Some 5)"
  using AddHash_RemoveHash_effect [of byte_lib 5 "[5]" "newAccessFilter (Some demo_whitelist)" "Some demo_whitelist" "[]"
      "b64_encode (Sum256 byte_lib [5])"]
  by (simp add: byte_lib_def newAccessFilter_def rebuildHashSet_def demo_whitelist_def)

text \<open>
  Hashes in the Base64 alphabet of I2P, which has \<open>-\<close> and \<open>~\<close> where the standard alphabet has \<open>+\<close>
  and \<open>/\<close>, are dropped: adding a hash of 43 or 44 characters with one of them changes nothing.
\<close>

theorem AddHash_i2p_alphabet:
  assumes "TrimSpace h = h" and "length h = 43 \<or> length h = 44" and "CHR ''-'' \<in> set h \<or> CHR ''~'' \<in> set h"
  shows "AddHash af h = af"
  using normalizeHash_foreign [OF assms] by (simp add: AddHash_def)

theorem AddHash_i2p_alphabet_witness:
  "AddHash (newAccessFilter None) (CHR ''-'' # replicate 43 (CHR ''A'')) = newAccessFilter None"
  by (rule AddHash_i2p_alphabet) (auto intro!: TrimSpace_id simp: isSpace_def)

text \<open>
  ParseHashList splits a list: words without white space and commas, each followed by any non-empty
  run of separators, are returned in order, and whatever the input, every returned word is non-empty
  and free of separators.
\<close>

theorem ParseHashList_words:
  "((\<forall>(w, sp)\<in>set ps. w \<noteq> [] \<and> (\<forall>c\<in>set w. \<not> separator c) \<and> sp \<noteq> [] \<and> (\<forall>c\<in>set sp. separator c)) \<longrightarrow>
      ParseHashList (concat (map (\<lambda>(w, sp). w @ sp) ps)) = map fst ps) \<and>
   (\<forall>w\<in>set (ParseHashList s). w \<noteq> [] \<and> (\<forall>c\<in>set w. \<not> separator c))"
proof
  let ?R = "ReplaceChar (CHR '','') (CHR '' '')"
  show "(\<forall>(w, sp)\<in>set ps. w \<noteq> [] \<and> (\<forall>c\<in>set w. \<not> separator c) \<and> sp \<noteq> [] \<and> (\<forall>c\<in>set sp. separator c)) \<longrightarrow>
      ParseHashList (concat (map (\<lambda>(w, sp). w @ sp) ps)) = map fst ps"
  proof (induction ps)
    case Nil
    then show ?case by (simp add: ParseHashList_def)
  next
    case (Cons p ps)
    obtain w sp where p: "p = (w, sp)" by fastforce
    show ?case
    proof
      assume h: "\<forall>(w, sp)\<in>set (p # ps). w \<noteq> [] \<and> (\<forall>c\<in>set w. \<not> separator c) \<and> sp \<noteq> [] \<and> (\<forall>c\<in>set sp. separator c)"
      then have w: "w \<noteq> []" "\<forall>c\<in>set w. \<not> separator c" and sp: "sp \<noteq> []" "\<forall>c\<in>set sp. separator c"
        by (auto simp: p)
      have "?R w = w" using w by (intro ReplaceChar_no) (auto simp: separator_def)
      moreover have "?R sp \<noteq> []" "\<forall>c\<in>set (?R sp). isSpace c"
        using sp ReplaceChar_spaces by (auto simp: ReplaceChar_def separator_def)
      ultimately have "Fields (?R (w @ sp @ concat (map (\<lambda>(w, sp). w @ sp) ps))) =
          w # Fields (?R (concat (map (\<lambda>(w, sp). w @ sp) ps)))"
        using w by (simp add: ReplaceChar_append Fields_word_sep separator_def)
      with Cons h show "ParseHashList (concat (map (\<lambda>(w, sp). w @ sp) (p # ps))) = map fst (p # ps)"
        by (simp add: p ParseHashList_eq)
    qed
  qed
  show "\<forall>w\<in>set (ParseHashList s). w \<noteq> [] \<and> (\<forall>c\<in>set w. \<not> separator c)"
  proof
    fix w
    assume "w \<in> set (ParseHashList s)"
    then have "w \<in> set (Fields (?R s))" by (simp add: ParseHashList_eq)
    with Fields_words [OF this] Fields_chars [OF this] show "w \<noteq> [] \<and> (\<forall>c\<in>set w. \<not> separator c)"
      by (auto simp: separator_def ReplaceChar_def)
  qed
qed

theorem ParseHashList_words_witness:
  "ParseHashList ''ab, cd '' = [''ab'', ''cd'']"
  using ParseHashList_words [of "[(''ab'', '', ''), (''cd'', '' '')]" "[]"]
  by (simp add: separator_def isSpace_def)

end
