(* ===== verification/Listener.thy ===== *)
theory Listener
  imports Handshake Access_List
begin

text \<open>
  The server side in \<^verbatim>\<open>stream.go\<close>: listeners, the checks on an incoming \<^verbatim>\<open>SYN\<close> (access filter, connection limits,
  source, signature, replay prevention), the new connection, the \<^verbatim>\<open>SYN-ACK\<close>, and the accept queue; and the \<^verbatim>\<open>RESET\<close> packets of
  \<^verbatim>\<open>manager.go\<close> that refuse a peer.

  A listener made by \<^verbatim>\<open>ListenWithManager\<close> shares the manager's limiter, which is in the world, and keeps the pointer to the
  access filter the manager had then: \<open>l_accessFilter\<close> is that pointer into the filters \<open>afs\<close>.  A send on the closed accept
  channel panics.  The new connection is returned beside the listener, which queues its identity.
\<close>

section \<open>RESET packets\<close>

definition validateResetPrerequisites :: "bool \<Rightarrow> 'd option \<Rightarrow> goerror option" where
  "validateResetPrerequisites hasSession dest =
     (if dest = None then Some (Errorf ''destination is nil'' [])
      else if \<not> hasSession then Some (Errorf ''no I2CP session'' [])
      else None)"

definition createResetPacket :: "('d, 'c, 'k, 'b) env \<Rightarrow> u32 \<Rightarrow> 'd Packet" where
  "createResetPacket env streamID =
     emptyPacket\<lparr>SendStreamID := 0, RecvStreamID := streamID, SequenceNum := 0, AckThrough := 0,
       Flags := FlagRESET OR FlagSignatureIncluded OR FlagFromIncluded,
       FromDestination := ses_Destination (e_session env)\<rparr>"

definition signResetPacket :: "('d, 'c, 'k, 'b) env \<Rightarrow> 'd Packet \<Rightarrow> 'd Packet" where
  "signResetPacket env pkt =
     (case ses_SigningKeyPair (e_session env) of
        Inl e \<Rightarrow> pkt\<lparr>Flags := Flags pkt AND NOT FlagSignatureIncluded\<rparr>
      | Inr keyPair \<Rightarrow>
          (case checked (SignPacket (e_lib env) pkt keyPair) of
             Inl e \<Rightarrow> pkt\<lparr>Flags := Flags pkt AND NOT FlagSignatureIncluded\<rparr>
           | Inr pkt \<Rightarrow> pkt))"

definition sendPacketToDest ::
  "('d, 'c, 'k, 'b) env \<Rightarrow> 'd Packet \<Rightarrow> 'd option \<Rightarrow> u16 \<Rightarrow> u16 \<Rightarrow> 'd world \<Rightarrow> goerror option \<times> 'd world" where
  "sendPacketToDest env pkt dest lport rport w =
     (case checked (Marshal (e_lib env) pkt) of
        Inl e \<Rightarrow> (Some (Wrap ''marshal packet'' e), w)
      | Inr data \<Rightarrow> SendMessage env dest lport rport data 0 w)"

definition sendResetPacket ::
  "('d, 'c, 'k, 'b) env \<Rightarrow> 'd option \<Rightarrow> u32 \<Rightarrow> u16 \<Rightarrow> u16 \<Rightarrow> 'd world \<Rightarrow> 'd world" where
  "sendResetPacket env dest streamID lport rport w =
     (case validateResetPrerequisites True dest of
        Some e \<Rightarrow> w
      | None \<Rightarrow> snd (sendPacketToDest env (signResetPacket env (createResetPacket env streamID)) dest lport rport w))"

section \<open>Listeners\<close>

record StreamListener =
  l_hasManager :: bool
  l_localPort :: u16
  acceptChan :: "conn_id list"
  l_localMTU :: u16
  l_accessFilter :: "nat option"
  l_closed :: bool

definition acceptChanSize :: nat where "acceptChanSize = 10"

definition ListenWithMTU :: "bool \<Rightarrow> u16 \<Rightarrow> int \<Rightarrow> goerror + StreamListener" where
  "ListenWithMTU hasSession port mtu =
     (if mtu < MinMTU then Inl (Errorf ''MTU %d is below minimum %d'' [mtu, MinMTU])
      else if \<not> hasSession then Inl (Errorf ''session cannot be nil'' [])
      else Inr \<lparr>l_hasManager = False, l_localPort = port, acceptChan = [], l_localMTU = word_of_int mtu,
                l_accessFilter = None, l_closed = False\<rparr>)"

definition Listen :: "bool \<Rightarrow> u16 \<Rightarrow> goerror + StreamListener" where
  "Listen hasSession port = ListenWithMTU hasSession port DefaultMTU"

text \<open>\<^verbatim>\<open>ListenWithManager\<close>; the caller stores the listener in the manager's table (\<^verbatim>\<open>RegisterListener\<close>).\<close>

definition newManagedListener :: "bool \<Rightarrow> nat \<Rightarrow> u16 \<Rightarrow> int \<Rightarrow> goerror + StreamListener" where
  "newManagedListener manager filter_ref port mtu =
     (if mtu < MinMTU then Inl (Errorf ''MTU %d is below minimum %d'' [mtu, MinMTU])
      else if \<not> manager then Inl (Errorf ''manager cannot be nil'' [])
      else Inr \<lparr>l_hasManager = True, l_localPort = port, acceptChan = [], l_localMTU = word_of_int mtu,
                l_accessFilter = Some filter_ref, l_closed = False\<rparr>)"

text \<open>
  \<^verbatim>\<open>Accept\<close>: what happens to the listener while it waits on the channel is a list of functions; \<open>None\<close>
  when it is still waiting.
\<close>

fun receiveAccepted ::
  "(StreamListener \<Rightarrow> StreamListener) list \<Rightarrow> StreamListener \<Rightarrow> ((goerror + conn_id) \<times> StreamListener) option" where
  "receiveAccepted waits l =
     (case acceptChan l of
        c # cs \<Rightarrow> Some (Inr c, l\<lparr>acceptChan := cs\<rparr>)
      | [] \<Rightarrow>
          if l_closed l then Some (Inl (Errorf ''listener closed'' []), l)
          else case waits of [] \<Rightarrow> None | f # fs \<Rightarrow> receiveAccepted fs (f l))"

declare receiveAccepted.simps [simp del]

definition Accept ::
  "(StreamListener \<Rightarrow> StreamListener) list \<Rightarrow> StreamListener \<Rightarrow> ((goerror + conn_id) \<times> StreamListener) option" where
  "Accept waits l =
     (if l_closed l then Some (Inl (Errorf ''listener closed'' []), l) else receiveAccepted waits l)"

text \<open>\<^verbatim>\<open>Close\<close> of a listener; it also takes itself out of the manager's table of listeners.\<close>

definition l_Close :: "(u16, 'l) gomap \<Rightarrow> StreamListener \<Rightarrow> StreamListener \<times> (u16, 'l) gomap" where
  "l_Close listeners l =
     (if l_closed l then (l, listeners)
      else (l\<lparr>l_closed := True\<rparr>,
            if l_hasManager l then AList.delete (l_localPort l) listeners else listeners))"

section \<open>Checks on a SYN\<close>

definition validateSYNSource :: "'d Packet \<Rightarrow> 'd option \<Rightarrow> goerror + 'd" where
  "validateSYNSource synPkt remoteDest =
     (let peerDest = (if Flags synPkt AND FlagFromIncluded \<noteq> 0 \<and> FromDestination synPkt \<noteq> None
                      then FromDestination synPkt else remoteDest)
      in case peerDest of
           None \<Rightarrow> Inl (Errorf ''SYN packet has no source destination'' [])
         | Some d \<Rightarrow> Inr d)"

definition verifySYNSignature :: "('d, 'c, 'k, 'b) env \<Rightarrow> 'd Packet \<Rightarrow> goerror option" where
  "verifySYNSignature env synPkt =
     (if Flags synPkt AND FlagSignatureIncluded = 0 then None
      else case checked (VerifyPacketSignature (e_lib env) synPkt) of
        Inl e \<Rightarrow> Some (Wrap ''SYN signature verification failed'' e)
      | Inr _ \<Rightarrow> None)"

fun compare_nacks :: "nat list \<Rightarrow> byte list \<Rightarrow> u32 list \<Rightarrow> bool result" where
  "compare_nacks [] hash nacks = Ok True"
| "compare_nacks (i # is) hash nacks =
     bind_result (slice_range hash (i * 4) ((i + 1) * 4)) (\<lambda>bs.
     bind_result (Uint32 bs) (\<lambda>expected.
     bind_result (index_at nacks i) (\<lambda>nack.
     if nack \<noteq> expected then Ok False else compare_nacks is hash nacks)))"

definition verifySYNReplayPrevention :: "('d, 'c, 'k, 'b) env \<Rightarrow> 'd Packet \<Rightarrow> goerror option" where
  "verifySYNReplayPrevention env synPkt =
     (if length (NACKs synPkt) \<noteq> 8 then None
      else case hashDestination (e_lib env) (ses_Destination (e_session env)) of
        Ok ourHash \<Rightarrow>
          (case checked (compare_nacks [0..<8] ourHash (NACKs synPkt)) of
             Inl e \<Rightarrow> Some e
           | Inr True \<Rightarrow> None
           | Inr False \<Rightarrow> Some (Errorf ''SYN replay prevention check failed'' []))
      | _ \<Rightarrow> None)"

definition validateIncomingSYN :: "('d, 'c, 'k, 'b) env \<Rightarrow> 'd Packet \<Rightarrow> 'd option \<Rightarrow> goerror option" where
  "validateIncomingSYN env synPkt remoteDest =
     (case validateSYNSource synPkt remoteDest of
        Inl e \<Rightarrow> Some e
      | Inr _ \<Rightarrow>
          (case verifySYNSignature env synPkt of
             Some e \<Rightarrow> Some e
           | None \<Rightarrow> verifySYNReplayPrevention env synPkt))"

definition checkAccessFilter ::
  "('d, 'c, 'k, 'b) env \<Rightarrow> (nat \<Rightarrow> accessFilter) \<Rightarrow> StreamListener \<Rightarrow> 'd option \<Rightarrow> 'd Packet \<Rightarrow> 'd world \<Rightarrow>
     goerror option \<times> 'd world" where
  "checkAccessFilter env afs l remoteDest synPkt w =
     (case l_accessFilter l of
        None \<Rightarrow> (None, w)
      | Some a \<Rightarrow>
          (case CheckAndLog (e_lib env) (afs a) remoteDest of
             None \<Rightarrow> (None, w)
           | Some e \<Rightarrow>
               (Some (Wrap ''connection rejected by access filter'' e),
                if l_hasManager l then sendResetPacket env remoteDest (RecvStreamID synPkt) (l_localPort l) 0 w else w)))"

definition handleLimitExceeded ::
  "('d, 'c, 'k, 'b) env \<Rightarrow> ConnectionLimitsConfig \<Rightarrow> StreamListener \<Rightarrow> 'd option \<Rightarrow> 'd Packet \<Rightarrow> 'd world \<Rightarrow> 'd world" where
  "handleLimitExceeded env config l remoteDest synPkt w =
     (if limitAction config = LimitActionReset then
        (if l_hasManager l then sendResetPacket env remoteDest (RecvStreamID synPkt) (l_localPort l) 0 w else w)
      else if limitAction config = LimitActionDrop then w
      else if limitAction config = LimitActionHTTP then
        (if l_hasManager l then sendResetPacket env remoteDest (RecvStreamID synPkt) (l_localPort l) 0 w else w)
      else w)"

definition checkConnectionLimits ::
  "('d, 'c, 'k, 'b) env \<Rightarrow> StreamListener \<Rightarrow> 'd option \<Rightarrow> 'd Packet \<Rightarrow> 'd world \<Rightarrow> goerror option \<times> 'd world" where
  "checkConnectionLimits env l remoteDest synPkt w =
     (if \<not> l_hasManager l then (None, w)
      else
        let (r, lim) = CheckAndRecordConnection (e_lib env) (w_limiter w) remoteDest (w_now w);
            w = w\<lparr>w_limiter := lim\<rparr>
        in case r of
             None \<Rightarrow> (None, w)
           | Some e \<Rightarrow> (Some (Wrap ''connection rejected'' e),
                       handleLimitExceeded env (GetConfig lim) l remoteDest synPkt w))"

section \<open>The new connection\<close>

definition extractRemoteMTU :: "'d Packet \<Rightarrow> u16" where
  "extractRemoteMTU synPkt =
     (if Flags synPkt AND FlagMaxPacketSizeIncluded \<noteq> 0 \<and> MaxPacketSize synPkt > 0
      then MaxPacketSize synPkt else word_of_int DefaultMTU)"

definition initConnectionState ::
  "('d, 'c, 'k, 'b) env \<Rightarrow> conn_id \<Rightarrow> StreamProfile \<Rightarrow> StreamListener \<Rightarrow> 'd Packet \<Rightarrow> u16 \<Rightarrow> 'd \<Rightarrow> u32 \<Rightarrow> u32 \<Rightarrow> 'b \<Rightarrow>
     'd world \<Rightarrow> ('d, 'b) conn_world" where
  "initConnectionState env cid managerProfile l synPkt rport peerDest isn streamID buf w =
     (let s = \<lparr>self = cid, hasManager = l_hasManager l, conn_dest = Some peerDest, localPort = l_localPort l,
            remotePort = rport, localStreamID = streamID, remoteStreamID = RecvStreamID synPkt, sendSeq = isn,
            recvSeq = SequenceNum synPkt + 1, ackThrough = 0, totalBytesSent = 0, totalBytesReceived = 0,
            windowSize = DefaultWindowSize, cwnd = DefaultWindowSize, ssthresh = MaxWindowSize, rtt = 8 * Second,
            rto = 9 * Second, srtt = 0, rttVariance = 0, optDelay = 0, choked = False, chokedUntil = None,
            persistTimer = False, persistStopChan = False, sendingChoke = False, lastBufferCheck = 0,
            localMTU = l_localMTU l, remoteMTU = extractRemoteMTU synPkt, outOfOrderPackets = [], nackList = [],
            sentPackets = [], nackCounts = [], recvBuf = buf, recvChan = [], ctxDone = False, recvCond = 0,
            sendCond = 0, readDeadline = None, writeDeadline = None, lastActivity = w_now w,
            inactivityTimeout = DefaultInactivityTimeout, conn_profile = 0, remoteProfile = 0, conn_closed = False,
            conn_state = StateInit\<rparr>;
          s = (if l_hasManager l then s\<lparr>conn_profile := managerProfile\<rparr> else s);
          s = s\<lparr>remoteProfile := (if Flags synPkt AND FlagProfileInteractive \<noteq> 0 then ProfileInteractive else ProfileBulk)\<rparr>
      in applyCachedTCB env (Some peerDest) (s, w))"

definition createIncomingConnection ::
  "('d, 'c, 'k, 'b) env \<Rightarrow> conn_id \<Rightarrow> StreamProfile \<Rightarrow> StreamListener \<Rightarrow> 'd Packet \<Rightarrow> u16 \<Rightarrow> 'd \<Rightarrow> randsource \<Rightarrow>
     'd world \<Rightarrow> (('d, 'b) conn_world result \<times> randsource) option" where
  "createIncomingConnection env cid managerProfile l synPkt rport peerDest rs w =
     (case generateISN rs of
        None \<Rightarrow> None
      | Some (Err e, rs) \<Rightarrow> Some (Err (Wrap ''generate ISN'' e), rs)
      | Some (Panic, rs) \<Rightarrow> Some (Panic, rs)
      | Some (Ok isn, rs) \<Rightarrow>
     (case generateStreamID rs of
        None \<Rightarrow> None
      | Some (Err e, rs) \<Rightarrow> Some (Err (Wrap ''generate stream ID'' e), rs)
      | Some (Panic, rs) \<Rightarrow> Some (Panic, rs)
      | Some (Ok streamID, rs) \<Rightarrow>
     (case cb_NewBuffer (e_circ env) recvBufSize of
        Inl e \<Rightarrow> Some (Err (Wrap ''create receive buffer'' e), rs)
      | Inr buf \<Rightarrow> Some (Ok (initConnectionState env cid managerProfile l synPkt rport peerDest isn streamID buf w), rs))))"

section \<open>SYN-ACK\<close>

definition buildSynAckPacket :: "('d, 'c, 'k, 'b) env \<Rightarrow> ('d, 'b) StreamConn \<Rightarrow> 'd Packet" where
  "buildSynAckPacket env s =
     (let flags = FlagSYN OR FlagMaxPacketSizeIncluded OR FlagSignatureIncluded OR FlagFromIncluded;
          flags = (if conn_profile s = ProfileInteractive then flags OR FlagProfileInteractive else flags)
      in emptyPacket\<lparr>SendStreamID := localStreamID s, RecvStreamID := remoteStreamID s, SequenceNum := sendSeq s,
           AckThrough := recvSeq s - 1, Flags := flags, MaxPacketSize := localMTU s,
           FromDestination := ses_Destination (e_session env)\<rparr>)"

definition signSynAckPacket :: "('d, 'c, 'k, 'b) env \<Rightarrow> 'd Packet \<Rightarrow> goerror + 'd Packet" where
  "signSynAckPacket env pkt =
     (case ses_SigningKeyPair (e_session env) of
        Inl e \<Rightarrow> Inl (Wrap ''get signing key pair'' e)
      | Inr keyPair \<Rightarrow>
          (case checked (SignPacket (e_lib env) pkt keyPair) of
             Inl e \<Rightarrow> Inl (Wrap ''sign SYN-ACK'' e)
           | Inr pkt \<Rightarrow> Inr pkt))"

definition transmitSynAckPacket ::
  "('d, 'c, 'k, 'b) env \<Rightarrow> 'd Packet \<Rightarrow> ('d, 'b) StreamConn \<Rightarrow> 'd world \<Rightarrow> goerror option \<times> 'd world" where
  "transmitSynAckPacket env pkt s w =
     (case checked (Marshal (e_lib env) pkt) of
        Inl e \<Rightarrow> (Some (Wrap ''marshal SYN-ACK'' e), w)
      | Inr data \<Rightarrow>
          let (r, w) = SendMessage env (conn_dest s) (localPort s) (remotePort s) data 0 w
          in (map_option (Wrap ''send SYN-ACK message'') r, w))"

definition sendSynAck ::
  "('d, 'c, 'k, 'b) env \<Rightarrow> ('d, 'b) conn_world \<Rightarrow> goerror option \<times> ('d, 'b) conn_world" where
  "sendSynAck env sw =
     (let (s, w) = sw in
      case signSynAckPacket env (buildSynAckPacket env s) of
        Inl e \<Rightarrow> (Some e, (s, w))
      | Inr pkt \<Rightarrow>
          (case transmitSynAckPacket env pkt s w of
             (Some e, w) \<Rightarrow> (Some e, (s, w))
           | (None, w) \<Rightarrow> (None, (s\<lparr>sendSeq := sendSeq s + 1\<rparr>, w))))"

section \<open>Accepting\<close>

definition queueConnectionForAccept ::
  "StreamListener \<Rightarrow> u16 \<Rightarrow> ('d, 'b) conn_world \<Rightarrow> (goerror option \<times> StreamListener \<times> ('d, 'b) conn_world) result" where
  "queueConnectionForAccept l rport sw =
     (let (s, w) = sw in
      if l_closed l then Panic
      else if length (acceptChan l) < acceptChanSize
      then Ok (None, l\<lparr>acceptChan := acceptChan l @ [self s]\<rparr>, (s, w))
      else Ok (Some (Errorf ''accept queue full'' []), l,
               (s\<lparr>ctxDone := True\<rparr>, if l_hasManager l then UnregisterConnection (l_localPort l) rport w else w)))"

definition finalizeIncomingConnection ::
  "('d, 'c, 'k, 'b) env \<Rightarrow> StreamListener \<Rightarrow> u16 \<Rightarrow> ('d, 'b) conn_world \<Rightarrow>
     (goerror option \<times> StreamListener \<times> ('d, 'b) conn_world) result" where
  "finalizeIncomingConnection env l rport sw =
     (let (s, w) = sw;
          w = (if l_hasManager l then RegisterConnection (l_localPort l) rport (self s) w else w)
      in case sendSynAck env (s, w) of
           (Some e, (s, w)) \<Rightarrow>
             Ok (Some (Wrap ''send SYN-ACK'' e), l,
                 (s, if l_hasManager l then UnregisterConnection (l_localPort l) rport w else w))
         | (None, (s, w)) \<Rightarrow> queueConnectionForAccept l rport (setState s StateSynRcvd, w))"

text \<open>
  \<^verbatim>\<open>handleIncomingSYN\<close> returns the error, the listener, the new connection if there is one, and the world.
\<close>

definition handleIncomingSYN ::
  "('d, 'c, 'k, 'b) env \<Rightarrow> (nat \<Rightarrow> accessFilter) \<Rightarrow> conn_id \<Rightarrow> StreamProfile \<Rightarrow> 'd Packet \<Rightarrow> u16 \<Rightarrow> 'd option \<Rightarrow> randsource \<Rightarrow>
     StreamListener \<Rightarrow> 'd world \<Rightarrow>
     ((goerror option \<times> StreamListener \<times> ('d, 'b) StreamConn option \<times> 'd world) result \<times> randsource) option" where
  "handleIncomingSYN env afs cid managerProfile synPkt rport remoteDest rs l w =
     (case checkAccessFilter env afs l remoteDest synPkt w of
        (Some e, w) \<Rightarrow> Some (Ok (Some e, l, None, w), rs)
      | (None, w) \<Rightarrow>
     (case checkConnectionLimits env l remoteDest synPkt w of
        (Some e, w) \<Rightarrow> Some (Ok (Some e, l, None, w), rs)
      | (None, w) \<Rightarrow>
     (case validateIncomingSYN env synPkt remoteDest of
        Some e \<Rightarrow> Some (Ok (Some e, l, None, w), rs)
      | None \<Rightarrow>
     (case validateSYNSource synPkt remoteDest of
        Inl e \<Rightarrow> Some (Panic, rs)
      | Inr peerDest \<Rightarrow>
     (case createIncomingConnection env cid managerProfile l synPkt rport peerDest rs w of
        None \<Rightarrow> None
      | Some (Err e, rs) \<Rightarrow> Some (Ok (Some e, l, None, w), rs)
      | Some (Panic, rs) \<Rightarrow> Some (Panic, rs)
      | Some (Ok sw, rs) \<Rightarrow>
          Some (bind_result (finalizeIncomingConnection env l rport sw)
            (\<lambda>(r, l, (s, w)). Ok (r, l, Some s, w)), rs))))))"

end
