(* ===== verification/Connect.thy ===== *)
theory Connect
  imports Listener
begin

text \<open>
  Lemmas about two endpoints: what one side hands to I2CP and what the other side reads from it, for the
  packets of the handshake and for data packets; and the properties of the listener.
\<close>

section \<open>From one endpoint to the other\<close>

text \<open>
  What both ends rely on of the I2P library: decoding a destination undoes encoding it, and an encoded
  destination, which is a few hundred bytes long, fits into the option block of a packet.
\<close>

definition lib_ok :: "('d, 'c, 'k) i2plib \<Rightarrow> bool" where
  "lib_ok lib \<longleftrightarrow> dest_codec lib \<and> (\<forall>d bs. WriteToMessage lib d = Inr bs \<longrightarrow> length bs < 2 ^ 15)"

lemma signature_length: "getSignatureLength lib d \<le> 512"
  by (simp add: getSignatureLength_def Let_def split: option.splits)

lemma received_packet:
  assumes "lib_ok lib" and "marshalable lib p" and "\<not> hasFlag p FlagOfflineSignature"
    and "hasFlag p FlagSignatureIncluded \<Longrightarrow> hasFlag p FlagFromIncluded"
  shows "Unmarshal lib emptyPacket (wire_format lib p) = Ok (wire_view lib p)"
proof -
  have "length (from_option lib p) < 2 ^ 15"
    using assms(1) by (auto simp: from_option_def dest_bytes_def lib_ok_def split: option.splits sum.splits)
  moreover have "length (sig_option lib p) \<le> 512"
    using assms(2) signature_length [of lib "FromDestination p"]
    by (auto simp: sig_option_def sig_bytes_def marshalable_def)
  moreover have "length (delay_option p) \<le> 2" "length (mtu_option p) \<le> 2" "offline_option p = []"
    using assms(3) by (simp_all add: delay_option_def mtu_option_def offline_option_def PutUint16_def)
  ultimately have "decodable lib p" using assms(3,4) by (simp add: decodable_def wire_options_def)
  with assms(1,2) show ?thesis by (intro Unmarshal_wire_format) (simp_all add: lib_ok_def)
qed

lemma SendMessage_sent:
  assumes "SendMessage env d lp rp data n w = (None, w')"
  shows "\<exists>m. w_wire w' = w_wire w @ [m] \<and> msg_data m = data \<and> msg_localPort m = lp \<and> msg_remotePort m = rp \<and> msg_dest m = d"
  using assms by (auto simp: SendMessage_def Let_def)

text \<open>A signed packet is the packet built, with a signature of the right length, and can be written.\<close>

lemma signed_packet:
  assumes "checked (SignPacket lib p k) = Inr p'"
  shows "p' = p\<lparr>Signature := Signature p'\<rparr>" and "hasFlag p FlagSignatureIncluded"
    and "length (Signature p') = getSignatureLength lib (FromDestination p)" and "FromDestination p \<noteq> None"
  using assms by (cases "SignPacket lib p k"; auto simp: SignPacket_Ok)+

lemma checked_Marshal: "checked (Marshal lib p) = Inr data \<Longrightarrow> marshalable lib p \<and> data = wire_format lib p"
  using Marshal_Ok_marshalable [of lib p] Marshal_marshalable [of lib p] by (cases "Marshal lib p") auto

section \<open>The packets of the handshake\<close>

lemma sendSYN_sent:
  assumes "sendSYN env (s, w) = (None, s', w')"
  obtains nacks p m where "w_wire w' = w_wire w @ [m]" and "msg_data m = wire_format (e_lib env) p"
    and "marshalable (e_lib env) p" and "p = (buildSYNPacket env s nacks)\<lparr>Signature := Signature p\<rparr>"
    and "s' = s\<lparr>sendSeq := sendSeq s + 1\<rparr>"
proof -
  obtain nacks where n: "checked (generateReplayPreventionNACKs (e_lib env) (conn_dest s)) = Inr nacks"
    using assms by (auto simp: sendSYN_def split: sum.splits)
  have s: "signAndSendPacket env (buildSYNPacket env s nacks) (s, w) = (None, w')" "s' = s\<lparr>sendSeq := sendSeq s + 1\<rparr>"
    using assms n by (auto simp: sendSYN_def split: prod.splits option.splits)
  obtain k p d where p: "checked (SignPacket (e_lib env) (buildSYNPacket env s nacks) k) = Inr p"
    "checked (Marshal (e_lib env) p) = Inr d"
    "SendMessage env (conn_dest s) (localPort s) (remotePort s) d 0 w = (None, w')"
    using s(1) by (auto simp: signAndSendPacket_def Let_def split: sum.splits prod.splits)
  from SendMessage_sent [OF p(3)] checked_Marshal [OF p(2)] signed_packet(1) [OF p(1)] s(2) that show thesis by metis
qed

lemma sendSynAck_sent:
  assumes "sendSynAck env (s, w) = (None, s', w')"
  obtains p m where "w_wire w' = w_wire w @ [m]" and "msg_data m = wire_format (e_lib env) p"
    and "marshalable (e_lib env) p" and "p = (buildSynAckPacket env s)\<lparr>Signature := Signature p\<rparr>"
    and "s' = s\<lparr>sendSeq := sendSeq s + 1\<rparr>"
proof -
  obtain p where p: "signSynAckPacket env (buildSynAckPacket env s) = Inr p"
    using assms by (auto simp: sendSynAck_def split: sum.splits)
  have s: "transmitSynAckPacket env p s w = (None, w')" "s' = s\<lparr>sendSeq := sendSeq s + 1\<rparr>"
    using assms p by (auto simp: sendSynAck_def split: prod.splits option.splits)
  obtain k where k: "checked (SignPacket (e_lib env) (buildSynAckPacket env s) k) = Inr p"
    using p by (auto simp: signSynAckPacket_def split: sum.splits)
  obtain d where d: "checked (Marshal (e_lib env) p) = Inr d"
    "SendMessage env (conn_dest s) (localPort s) (remotePort s) d 0 w = (None, w')"
    using s(1) by (auto simp: transmitSynAckPacket_def Let_def split: sum.splits prod.splits)
  from SendMessage_sent [OF d(2)] checked_Marshal [OF d(1)] signed_packet(1) [OF k] s(2) that show thesis by metis
qed

lemma sendACK_sent:
  assumes "sendACK env (s, w) = (None, s', w')"
  obtains m where "w_wire w' = w_wire w @ [m]" and "msg_data m = wire_format (e_lib env) (finalAckPacket s)"
    and "marshalable (e_lib env) (finalAckPacket s)" and "s' = s"
proof -
  obtain d where d: "checked (Marshal (e_lib env) (finalAckPacket s)) = Inr d"
    "SendMessage env (conn_dest s) (localPort s) (remotePort s) d 0 w = (None, w')" "s' = s"
    using assms by (auto simp: sendACK_def Let_def split: sum.splits prod.splits)
  from SendMessage_sent [OF d(2)] checked_Marshal [OF d(1)] d(3) that show thesis by metis
qed

lemma SYN_flags:
  "hasFlag (buildSYNPacket env s nacks) FlagSYN" "hasFlag (buildSYNPacket env s nacks) FlagMaxPacketSizeIncluded"
  "hasFlag (buildSYNPacket env s nacks) FlagFromIncluded" "\<not> hasFlag (buildSYNPacket env s nacks) FlagOfflineSignature"
  "hasFlag (buildSynAckPacket env s) FlagSYN" "hasFlag (buildSynAckPacket env s) FlagMaxPacketSizeIncluded"
  "hasFlag (buildSynAckPacket env s) FlagFromIncluded" "\<not> hasFlag (buildSynAckPacket env s) FlagOfflineSignature"
  "hasFlag (buildSYNPacket env s nacks) FlagProfileInteractive \<longleftrightarrow> conn_profile s = ProfileInteractive"
  "hasFlag (buildSynAckPacket env s) FlagProfileInteractive \<longleftrightarrow> conn_profile s = ProfileInteractive"
  by (simp_all add: hasFlag_def buildSYNPacket_def buildSynAckPacket_def flag_defs profileToFlag_def Let_def)

lemma SYN_fields:
  "SequenceNum (buildSYNPacket env s nacks) = sendSeq s" "RecvStreamID (buildSYNPacket env s nacks) = localStreamID s"
  "MaxPacketSize (buildSYNPacket env s nacks) = localMTU s"
  "SequenceNum (buildSynAckPacket env s) = sendSeq s" "SendStreamID (buildSynAckPacket env s) = localStreamID s"
  "AckThrough (buildSynAckPacket env s) = recvSeq s - 1" "MaxPacketSize (buildSynAckPacket env s) = localMTU s"
  by (simp_all add: buildSYNPacket_def buildSynAckPacket_def emptyPacket_def Let_def)

section \<open>The server's new connection\<close>

text \<open>What a connection that a listener has created looks like, and the packet that answers the peer.\<close>

lemma checks_pass_quietly:
  "checkAccessFilter env afs l d syn w = (None, w1) \<Longrightarrow> w1 = w"
  "checkConnectionLimits env l d syn w = (None, w1) \<Longrightarrow> w_wire w1 = w_wire w \<and> w_connections w1 = w_connections w \<and>
     w_now w1 = w_now w \<and> w_tcbCache w1 = w_tcbCache w"
  by (auto simp: checkAccessFilter_def checkConnectionLimits_def Let_def split: option.splits if_splits prod.splits)

lemma generateStreamID_Ok: "generateStreamID rs = Some (Ok x, rs') \<Longrightarrow> x \<noteq> 0"
  by (induction rs rule: generateStreamID.induct) (auto split: if_splits)

text \<open>Where the answer to a \<^verbatim>\<open>SYN\<close> goes, and what a finished connection keeps.\<close>

lemma sendSynAck_to:
  assumes "sendSynAck env (s, w) = (None, s', w')"
  shows "\<exists>m. w_wire w' = w_wire w @ [m] \<and> msg_dest m = conn_dest s \<and> msg_localPort m = localPort s \<and> msg_remotePort m = remotePort s"
    and "s' = s\<lparr>sendSeq := sendSeq s + 1\<rparr>"
proof -
  obtain p where p: "transmitSynAckPacket env p s w = (None, w')" and "s' = s\<lparr>sendSeq := sendSeq s + 1\<rparr>"
    using assms by (auto simp: sendSynAck_def split: sum.splits prod.splits option.splits)
  then show "s' = s\<lparr>sendSeq := sendSeq s + 1\<rparr>" by blast
  obtain d where "SendMessage env (conn_dest s) (localPort s) (remotePort s) d 0 w = (None, w')"
    using p by (auto simp: transmitSynAckPacket_def Let_def split: sum.splits prod.splits)
  from SendMessage_sent [OF this]
  show "\<exists>m. w_wire w' = w_wire w @ [m] \<and> msg_dest m = conn_dest s \<and> msg_localPort m = localPort s \<and> msg_remotePort m = remotePort s"
    by blast
qed

lemma finalize_to:
  assumes "finalizeIncomingConnection env l rport (s0, w) = Ok (None, l', s, w')"
  shows "\<exists>m. w_wire w' = w_wire w @ [m] \<and> msg_dest m = conn_dest s0 \<and> msg_localPort m = localPort s0 \<and> msg_remotePort m = remotePort s0"
    and "s = s0\<lparr>sendSeq := sendSeq s0 + 1, conn_state := StateSynRcvd\<rparr>"
proof -
  define w4 where "w4 = (if l_hasManager l then RegisterConnection (l_localPort l) rport (self s0) w else w)"
  obtain s1 w5 where sa: "sendSynAck env (s0, w4) = (None, s1, w5)"
    and q: "queueConnectionForAccept l rport (setState s1 StateSynRcvd, w5) = Ok (None, l', s, w')"
    using assms by (auto simp: finalizeIncomingConnection_def w4_def [symmetric] Let_def split: prod.splits option.splits)
  have "s = setState s1 StateSynRcvd" "w' = w5" using q by (auto simp: queueConnectionForAccept_def split: if_splits)
  moreover have "w_wire w4 = w_wire w" by (simp add: w4_def RegisterConnection_def)
  ultimately show "\<exists>m. w_wire w' = w_wire w @ [m] \<and> msg_dest m = conn_dest s0 \<and> msg_localPort m = localPort s0 \<and> msg_remotePort m = remotePort s0"
    "s = s0\<lparr>sendSeq := sendSeq s0 + 1, conn_state := StateSynRcvd\<rparr>"
    using sendSynAck_to [OF sa] by (simp_all add: setState_def)
qed

text \<open>The stages that a \<^verbatim>\<open>SYN\<close> for which a connection is created has gone through.\<close>

lemma handleIncomingSYN_stages:
  assumes "handleIncomingSYN env afs cid prof syn rport rd rs l w = Some (Ok (r, l', Some s, w'), rs')"
  obtains peer w2 isn sid buf rs1 rs2 s0 w3 where "validateIncomingSYN env syn rd = None"
    and "validateSYNSource syn rd = Inr peer" and "w_wire w2 = w_wire w" and "w_connections w2 = w_connections w"
    and "w_now w2 = w_now w" and "w_tcbCache w2 = w_tcbCache w" and "cb_NewBuffer (e_circ env) recvBufSize = Inr buf"
    and "generateStreamID rs2 = Some (Ok sid, rs1)"
    and "initConnectionState env cid prof l syn rport peer isn sid buf w2 = (s0, w3)"
    and "finalizeIncomingConnection env l rport (s0, w3) = Ok (r, l', s, w')"
proof -
  obtain w1 where c1: "checkAccessFilter env afs l rd syn w = (None, w1)"
    using assms by (auto simp: handleIncomingSYN_def split: prod.splits option.splits)
  then have w1: "w1 = w" by (rule checks_pass_quietly)
  obtain w2 where c2: "checkConnectionLimits env l rd syn w = (None, w2)"
    using assms c1 w1 by (auto simp: handleIncomingSYN_def split: prod.splits option.splits)
  have c3: "validateIncomingSYN env syn rd = None"
    using assms c1 c2 w1 by (auto simp: handleIncomingSYN_def split: option.splits)
  obtain peer where c4: "validateSYNSource syn rd = Inr peer"
    using assms c1 c2 c3 w1 by (auto simp: handleIncomingSYN_def split: sum.splits)
  obtain s0 w3 rs1 where c5: "createIncomingConnection env cid prof l syn rport peer rs w2 = Some (Ok (s0, w3), rs1)"
    and fin: "finalizeIncomingConnection env l rport (s0, w3) = Ok (r, l', s, w')"
    using assms c1 c2 c3 c4 w1 by (auto simp: handleIncomingSYN_def split: option.splits result.splits)
  obtain isn sid buf rs2 where "cb_NewBuffer (e_circ env) recvBufSize = Inr buf" and "generateStreamID rs2 = Some (Ok sid, rs1)"
    and "initConnectionState env cid prof l syn rport peer isn sid buf w2 = (s0, w3)"
    using c5 by (auto simp: createIncomingConnection_def split: option.splits result.splits sum.splits)
  with that [of peer w2 buf rs2 sid rs1 isn s0 w3] c3 c4 fin checks_pass_quietly(2) [OF c2] show thesis by blast
qed

lemma handleIncomingSYN_created:
  assumes "handleIncomingSYN env afs cid prof syn rport rd rs l w = Some (Ok (None, l', Some s, w'), rs')"
  obtains s0 p m where "w_wire w' = w_wire w @ [m]" and "msg_data m = wire_format (e_lib env) p"
    and "marshalable (e_lib env) p" and "p = (buildSynAckPacket env s0)\<lparr>Signature := Signature p\<rparr>"
    and "s = s0\<lparr>sendSeq := sendSeq s0 + 1, conn_state := StateSynRcvd\<rparr>" and "recvSeq s0 = SequenceNum syn + 1"
    and "remoteStreamID s0 = RecvStreamID syn" and "localStreamID s0 \<noteq> 0" and "localMTU s0 = l_localMTU l"
    and "remoteMTU s0 = extractRemoteMTU syn"
    and "remoteProfile s0 = (if Flags syn AND FlagProfileInteractive \<noteq> 0 then ProfileInteractive else ProfileBulk)"
proof -
  obtain peer w2 isn sid buf rs1 rs2 s0 w3 where w2: "w_wire w2 = w_wire w" and id: "generateStreamID rs2 = Some (Ok sid, rs1)"
    and init: "initConnectionState env cid prof l syn rport peer isn sid buf w2 = (s0, w3)"
    and fin: "finalizeIncomingConnection env l rport (s0, w3) = Ok (None, l', s, w')"
    by (rule handleIncomingSYN_stages [OF assms]) blast
  have s0: "recvSeq s0 = SequenceNum syn + 1" "remoteStreamID s0 = RecvStreamID syn" "localStreamID s0 = sid"
    "localMTU s0 = l_localMTU l" "remoteMTU s0 = extractRemoteMTU syn"
    "remoteProfile s0 = (if Flags syn AND FlagProfileInteractive \<noteq> 0 then ProfileInteractive else ProfileBulk)"
    "w_wire w3 = w_wire w2"
    using applyCachedTCB_frame [OF init [unfolded initConnectionState_def Let_def]] by simp_all
  define w4 where "w4 = (if l_hasManager l then RegisterConnection (l_localPort l) rport (self s0) w3 else w3)"
  have w4: "w_wire w4 = w_wire w3" by (simp add: w4_def RegisterConnection_def)
  obtain s1 w5 where sa: "sendSynAck env (s0, w4) = (None, s1, w5)"
    and q: "queueConnectionForAccept l rport (setState s1 StateSynRcvd, w5) = Ok (None, l', s, w')"
    using fin by (auto simp: finalizeIncomingConnection_def w4_def [symmetric] Let_def split: prod.splits option.splits)
  have s: "s = setState s1 StateSynRcvd" "w' = w5" using q by (auto simp: queueConnectionForAccept_def split: if_splits)
  obtain p m where "w_wire w5 = w_wire w4 @ [m]" "msg_data m = wire_format (e_lib env) p" "marshalable (e_lib env) p"
    "p = (buildSynAckPacket env s0)\<lparr>Signature := Signature p\<rparr>" "s1 = s0\<lparr>sendSeq := sendSeq s0 + 1\<rparr>"
    by (rule sendSynAck_sent [OF sa])
  then show thesis using that [of m p s0] s s0 w2 w4 generateStreamID_Ok [OF id] by (simp add: setState_def)
qed

section \<open>What the other side reads\<close>

lemma wire_view_fields [simp]:
  "SequenceNum (wire_view lib p) = SequenceNum p" "SendStreamID (wire_view lib p) = SendStreamID p"
  "RecvStreamID (wire_view lib p) = RecvStreamID p" "AckThrough (wire_view lib p) = AckThrough p"
  "Flags (wire_view lib p) = Flags p" "Payload (wire_view lib p) = Payload p"
  "MaxPacketSize (wire_view lib p) = (if hasFlag p FlagMaxPacketSizeIncluded then MaxPacketSize p else 0)"
  by (simp_all add: wire_view_def)

lemma read_SYN:
  assumes "lib_ok lib" and "marshalable lib p" and "p = (buildSYNPacket env s nacks)\<lparr>Signature := Signature p\<rparr>"
    and "Unmarshal lib emptyPacket (wire_format lib p) = Ok syn"
  shows "SequenceNum syn = sendSeq s" "RecvStreamID syn = localStreamID s"
    "0 < localMTU s \<Longrightarrow> extractRemoteMTU syn = localMTU s"
    "Flags syn AND FlagProfileInteractive \<noteq> 0 \<longleftrightarrow> conn_profile s = ProfileInteractive"
proof -
  define q where "q = buildSYNPacket env s nacks"
  have p: "p = q\<lparr>Signature := Signature p\<rparr>" using assms(3) by (simp add: q_def)
  have f: "hasFlag p g = hasFlag q g" for g by (subst p) simp
  have "syn = wire_view lib p"
    using received_packet [OF assms(1,2)] assms(4) SYN_flags(3,4) [of env s nacks] by (simp add: f q_def)
  moreover have "SequenceNum p = sendSeq s" "RecvStreamID p = localStreamID s" "MaxPacketSize p = localMTU s" "Flags p = Flags q"
    by (subst p, simp add: q_def SYN_fields)+
  ultimately show "SequenceNum syn = sendSeq s" "RecvStreamID syn = localStreamID s"
    "0 < localMTU s \<Longrightarrow> extractRemoteMTU syn = localMTU s"
    "Flags syn AND FlagProfileInteractive \<noteq> 0 \<longleftrightarrow> conn_profile s = ProfileInteractive"
    using SYN_flags(2,9) [of env s nacks] by (simp_all add: extractRemoteMTU_def f q_def hasFlag_def)
qed

lemma read_SynAck:
  assumes "lib_ok lib" and "marshalable lib p" and "p = (buildSynAckPacket env s)\<lparr>Signature := Signature p\<rparr>"
    and "Unmarshal lib emptyPacket (wire_format lib p) = Ok synack"
  shows "SequenceNum synack = sendSeq s" "SendStreamID synack = localStreamID s" "AckThrough synack = recvSeq s - 1"
    "Flags synack AND FlagSYN \<noteq> 0" "Flags synack AND FlagMaxPacketSizeIncluded \<noteq> 0" "MaxPacketSize synack = localMTU s"
    "Flags synack AND FlagProfileInteractive \<noteq> 0 \<longleftrightarrow> conn_profile s = ProfileInteractive"
proof -
  define q where "q = buildSynAckPacket env s"
  have p: "p = q\<lparr>Signature := Signature p\<rparr>" using assms(3) by (simp add: q_def)
  have f: "hasFlag p g = hasFlag q g" for g by (subst p) simp
  have "synack = wire_view lib p"
    using received_packet [OF assms(1,2)] assms(4) SYN_flags(7,8) [of env s] by (simp add: f q_def)
  moreover have "SequenceNum p = sendSeq s" "SendStreamID p = localStreamID s" "AckThrough p = recvSeq s - 1"
    "MaxPacketSize p = localMTU s" "Flags p = Flags q"
    by (subst p, simp add: q_def SYN_fields)+
  ultimately show "SequenceNum synack = sendSeq s" "SendStreamID synack = localStreamID s" "AckThrough synack = recvSeq s - 1"
    "Flags synack AND FlagSYN \<noteq> 0" "Flags synack AND FlagMaxPacketSizeIncluded \<noteq> 0" "MaxPacketSize synack = localMTU s"
    "Flags synack AND FlagProfileInteractive \<noteq> 0 \<longleftrightarrow> conn_profile s = ProfileInteractive"
    using SYN_flags(5,6,10) [of env s] by (simp_all add: f q_def hasFlag_def)
qed

lemma read_finalAck:
  assumes "lib_ok lib" and "Unmarshal lib emptyPacket (wire_format lib (finalAckPacket s)) = Ok ack"
  shows "AckThrough ack = recvSeq s - 1" "Flags ack = 0" "Payload ack = []"
proof -
  have m: "marshalable lib (finalAckPacket s)"
    by (simp add: marshalable_def hasFlag_def finalAckPacket_def emptyPacket_def)
  have "ack = wire_view lib (finalAckPacket s)"
    using received_packet [OF assms(1) m] assms(2) by (simp add: hasFlag_def finalAckPacket_def)
  then show "AckThrough ack = recvSeq s - 1" "Flags ack = 0" "Payload ack = []"
    by (simp_all add: finalAckPacket_def emptyPacket_def)
qed

lemma read_data:
  assumes "lib_ok lib" and "Flags p = 0" and "length (NACKs p) \<le> 255"
    and "Unmarshal lib emptyPacket (wire_format lib p) = Ok q"
  shows "SequenceNum q = SequenceNum p" "Payload q = Payload p" "Flags q = 0"
proof -
  have m: "marshalable lib p" using assms(2,3) by (simp add: marshalable_def hasFlag_def)
  have "q = wire_view lib p" using received_packet [OF assms(1) m] assms(2,4) by (simp add: hasFlag_def)
  then show "SequenceNum q = SequenceNum p" "Payload q = Payload p" "Flags q = 0" using assms(2) by simp_all
qed

text \<open>The client's handshake with a \<^verbatim>\<open>SYN-ACK\<close> that is queued while it waits.\<close>

definition queue_packet :: "'d Packet \<Rightarrow> ('d, 'b) interference" where
  "queue_packet pkt sw = (snd (handleIncomingPacket True pkt (fst sw)), snd sw)"

lemma performHandshake_SynAck:
  assumes "sendSYN env (c, w) = (None, c1, w1)" and "recvChan c1 = []" and "isSynAckPacket synack"
    and "performHandshake env timeout [Meanwhile (queue_packet synack), TakePacket] (c, w) = Some (None, c3, w3)"
  obtains c2 where "processSynAck synack (c1\<lparr>conn_state := StateSynSent, recvChan := []\<rparr>) = (None, c2)"
    and "sendACK env (c2, w1) = (None, c2, w3)" and "c3 = setState c2 StateEstablished"
proof -
  let ?s = "c1\<lparr>conn_state := StateSynSent, recvChan := []\<rparr>"
  have wait: "waitForSynAck lim [Meanwhile (queue_packet synack), TakePacket] (setState c1 StateSynSent, w1) = Some (Inr synack, ?s, w1)" for lim
    using assms(2,3) by (simp add: queue_packet_def handleIncomingPacket_def recvChanSize_def setState_def)
  obtain c2 where p: "processSynAck synack ?s = (None, c2)"
    using assms(1,4) wait by (auto simp: performHandshake_def completeHandshake_def split: prod.splits option.splits)
  obtain r c4 w4 where a: "sendACK env (c2, w1) = (r, c4, w4)" by (metis prod_cases3)
  have c4: "c4 = c2" using a by (auto simp: sendACK_def Let_def split: sum.splits prod.splits)
  have "r = None \<and> w4 = w3 \<and> c3 = setState c2 StateEstablished"
    using assms(1,4) wait p a c4 by (auto simp: performHandshake_def completeHandshake_def split: option.splits)
  with that p a c4 show thesis by blast
qed

section \<open>Data packets on their way\<close>

lemma data_run_nth:
  assumes "data_run q mtu ps" and "i < length ps"
  shows "SequenceNum (ps ! i) = q + of_nat i" "Flags (ps ! i) = 0" "NACKs (ps ! i) = []" "Payload (ps ! i) \<noteq> []"
proof -
  have "map SequenceNum ps ! i = map (\<lambda>i. q + of_nat i) [0..<length ps] ! i" using assms(1) by (simp add: data_run_def)
  with assms(2) show "SequenceNum (ps ! i) = q + of_nat i" by simp
  show "Flags (ps ! i) = 0" "NACKs (ps ! i) = []" "Payload (ps ! i) \<noteq> []" using assms by (simp_all add: data_run_def)
qed

text \<open>
  The messages of a run of data packets, read by the other side in any order with any repetition, are the
  packets of a stream.
\<close>

lemma arrivals_stream:
  assumes "lib_ok lib" and "data_run q mtu ps" and "length ps \<le> 2 ^ 31"
    and "list_all2 (\<lambda>p m. msg_data m = wire_format lib p) ps ms" and "set arrivals = set ms"
    and "list_all2 (\<lambda>m pkt. Unmarshal lib emptyPacket (msg_data m) = Ok pkt) arrivals pkts"
  obtains js where "list_all2 (stream_packet q (\<lambda>i. Payload (ps ! i)) (length ps)) js pkts" and "set js = {..<length ps}"
proof -
  have len: "length ms = length ps" using assms(4) by (simp add: list_all2_lengthD)
  have rd: "SequenceNum pkt = q + of_nat i \<and> Payload pkt = Payload (ps ! i)"
    if "i < length ps" "Unmarshal lib emptyPacket (msg_data (ms ! i)) = Ok pkt" for i pkt
  proof -
    have "msg_data (ms ! i) = wire_format lib (ps ! i)" using assms(4) that(1) by (simp add: list_all2_conv_all_nth)
    with read_data [OF assms(1), of "ps ! i" pkt] that data_run_nth [OF assms(2) that(1)] show ?thesis by simp
  qed
  have rel: "list_all2 (\<lambda>m pkt. m \<in> set ms \<and> Unmarshal lib emptyPacket (msg_data m) = Ok pkt) arrivals pkts"
    using assms(5,6) by (auto simp: list_all2_conv_all_nth)
  have "\<exists>js. list_all2 (\<lambda>j (m, pkt). j < length ps \<and> m = ms ! j \<and> stream_packet q (\<lambda>i. Payload (ps ! i)) (length ps) j pkt)
      js (zip arrivals pkts)"
    using rel
  proof (induction rule: list_all2_induct)
    case (Cons m ms' pkt pkts)
    from Cons.IH obtain js where "list_all2 (\<lambda>j (m, pkt). j < length ps \<and> m = ms ! j \<and>
      stream_packet q (\<lambda>i. Payload (ps ! i)) (length ps) j pkt) js (zip ms' pkts)" by blast
    moreover obtain i where "i < length ps" "m = ms ! i" using Cons(1) len by (auto simp: in_set_conv_nth)
    ultimately show ?case using Cons(1) rd [of i pkt]
      by (intro exI [of _ "i # js"]) (simp add: stream_packet_def seq_at_def)
  qed simp
  then obtain js where js: "list_all2 (\<lambda>j (m, pkt). j < length ps \<and> m = ms ! j \<and> stream_packet q (\<lambda>i. Payload (ps ! i)) (length ps) j pkt)
      js (zip arrivals pkts)" by blast
  have la: "length arrivals = length pkts" "length js = length pkts" using assms(6) js by (auto dest!: list_all2_lengthD)
  then have nth: "js ! k < length ps \<and> arrivals ! k = ms ! (js ! k) \<and> stream_packet q (\<lambda>i. Payload (ps ! i)) (length ps) (js ! k) (pkts ! k)"
    if "k < length pkts" for k using js that by (auto simp: list_all2_conv_all_nth)
  have "i \<in> set js" if i: "i < length ps" for i
  proof -
    obtain k where k: "k < length arrivals" "arrivals ! k = ms ! i"
      using assms(5) i len by (metis in_set_conv_nth)
    obtain pkt where pkt: "Unmarshal lib emptyPacket (msg_data (ms ! i)) = Ok pkt"
      using assms(6) k by (auto simp: list_all2_conv_all_nth)
    have "js ! k < length ps" "ms ! (js ! k) = ms ! i" using nth [of k] k la by auto
    with rd [OF i pkt] rd [of "js ! k" pkt] pkt have "(of_nat i :: u32) = of_nat (js ! k)" by auto
    then have "js ! k = i" using i \<open>js ! k < length ps\<close> assms(3) by (simp add: word_of_nat_eq_iff take_bit_nat_eq_self)
    with k(1) la show ?thesis by (metis nth_mem)
  qed
  moreover have "set js \<subseteq> {..<length ps}" using nth la by (auto simp: in_set_conv_nth)
  moreover have "list_all2 (stream_packet q (\<lambda>i. Payload (ps ! i)) (length ps)) js pkts" using nth la by (simp add: list_all2_conv_all_nth)
  ultimately show thesis using that by blast
qed

lemma data_run_length: "data_run q mtu ps \<Longrightarrow> length ps \<le> length (concat (map Payload ps))"
proof (induction ps arbitrary: q)
  case (Cons p ps)
  then have "length ps \<le> length (concat (map Payload ps))" "Payload p \<noteq> []" by auto
  then show ?case by (cases "Payload p") auto
qed simp

section \<open>Which SYN packets are accepted\<close>

lemma compare_nacks_hash: "compare_nacks is h ns = Ok True \<Longrightarrow> hash_words is h = Ok (map (\<lambda>i. ns ! i) is)"
proof (induction "is")
  case (Cons i "is")
  then obtain bs x where "slice_range h (i * 4) ((i + 1) * 4) = Ok bs" "Uint32 bs = Ok x" "index_at ns i = Ok x"
    "compare_nacks is h ns = Ok True" by (auto split: if_splits)
  with Cons.IH show ?case by (auto simp: index_at_def split: if_splits)
qed simp

lemma reset_quiet: "w_connections (sendResetPacket env d q lp rp w) = w_connections w"
  by (auto simp: sendResetPacket_def sendPacketToDest_def SendMessage_def Let_def split: option.splits sum.splits)

lemma checks_fail_quietly:
  "checkAccessFilter env afs l d syn w = (Some e, w1) \<Longrightarrow> w_connections w1 = w_connections w"
  "checkConnectionLimits env l d syn w = (Some e, w1) \<Longrightarrow> w_connections w1 = w_connections w"
  by (auto simp: checkAccessFilter_def checkConnectionLimits_def handleLimitExceeded_def Let_def reset_quiet
      split: option.splits if_splits prod.splits)

lemma validateIncomingSYN_ok:
  assumes "validateIncomingSYN env syn rd = None" and "hashDestination (e_lib env) (ses_Destination (e_session env)) = Ok h"
  shows "\<not> isl (validateSYNSource syn rd)"
    and "hasFlag syn FlagSignatureIncluded \<longrightarrow> VerifyPacketSignature (e_lib env) syn = Ok ()"
    and "length (NACKs syn) = 8 \<longrightarrow> generateReplayPreventionNACKs (e_lib env) (ses_Destination (e_session env)) = Ok (NACKs syn)"
proof -
  have v: "verifySYNSignature env syn = None" "verifySYNReplayPrevention env syn = None" "\<not> isl (validateSYNSource syn rd)"
    using assms(1) by (auto simp: validateIncomingSYN_def split: sum.splits option.splits)
  show "\<not> isl (validateSYNSource syn rd)" by (fact v(3))
  show "hasFlag syn FlagSignatureIncluded \<longrightarrow> VerifyPacketSignature (e_lib env) syn = Ok ()"
    using v(1) by (cases "VerifyPacketSignature (e_lib env) syn") (auto simp: verifySYNSignature_def hasFlag_def split: if_splits)
  show "length (NACKs syn) = 8 \<longrightarrow> generateReplayPreventionNACKs (e_lib env) (ses_Destination (e_session env)) = Ok (NACKs syn)"
  proof
    assume n: "length (NACKs syn) = 8"
    have "compare_nacks [0..<8] h (NACKs syn) = Ok True"
      using v(2) n assms(2) by (cases "compare_nacks [0..<8] h (NACKs syn)") (auto simp: verifySYNReplayPrevention_def split: bool.splits)
    from compare_nacks_hash [OF this] have "hash_words [0..<8] h = Ok (NACKs syn)" using map_nth [of "NACKs syn"] n by simp
    with assms(2) show "generateReplayPreventionNACKs (e_lib env) (ses_Destination (e_session env)) = Ok (NACKs syn)"
      by (simp add: generateReplayPreventionNACKs_def)
  qed
qed

lemma handleIncomingSYN_refused:
  assumes "handleIncomingSYN env afs cid prof syn rport rd rs l w = Some (Ok (r, l', None, w'), rs')"
  shows "r \<noteq> None" and "l' = l" and "w_connections w' = w_connections w"
proof -
  obtain e1 w1 where c1: "checkAccessFilter env afs l rd syn w = (e1, w1)" by (metis surj_pair)
  obtain e2 w2 where c2: "checkConnectionLimits env l rd syn w1 = (e2, w2)" by (metis surj_pair)
  have w1: "w_connections w1 = w_connections w"
    using c1 by (cases e1) (auto dest: checks_fail_quietly(1) checks_pass_quietly(1))
  have w2: "w_connections w2 = w_connections w1"
    using c2 by (cases e2) (auto dest: checks_fail_quietly(2) checks_pass_quietly(2))
  have "r \<noteq> None \<and> l' = l \<and> (w' = w1 \<or> w' = w2)"
    using assms c1 c2
    by (cases e1; cases e2; cases "validateIncomingSYN env syn rd") (auto simp: handleIncomingSYN_def split: option.splits sum.splits result.splits)
  with w1 w2 show "r \<noteq> None" "l' = l" "w_connections w' = w_connections w" by auto
qed

text \<open>What a created connection does to its listener and to the routing table, and the only way to panic.\<close>

lemma finalize_routes:
  assumes "finalizeIncomingConnection env l rport (s0, w) = Ok (r, l', s, w')" and "l_hasManager l"
  shows "self s = self s0 \<and> hasManager s = hasManager s0 \<and> localPort s = localPort s0 \<and> remotePort s = remotePort s0"
    and "l' = l \<or> l' = l\<lparr>acceptChan := acceptChan l @ [self s0]\<rparr> \<and> length (acceptChan l) < acceptChanSize"
    and "(\<forall>k. k \<noteq> (l_localPort l, rport) \<longrightarrow> map_of (w_connections w') k = map_of (w_connections w) k) \<and>
      map_of (w_connections w') (l_localPort l, rport) \<in> {None, Some (self s0)}"
proof -
  let ?w = "RegisterConnection (l_localPort l) rport (self s0) w"
  obtain r1 s1 w1 where sd: "sendSynAck env (s0, ?w) = (r1, s1, w1)" by (metis prod_cases3)
  have s1: "self s1 = self s0 \<and> hasManager s1 = hasManager s0 \<and> localPort s1 = localPort s0 \<and> remotePort s1 = remotePort s0"
    and w1: "w_connections w1 = AList.update (l_localPort l, rport) (self s0) (w_connections w)"
    using sd by (auto simp: sendSynAck_def transmitSynAckPacket_def SendMessage_def RegisterConnection_def Let_def
        split: sum.splits option.splits prod.splits if_splits)
  from assms sd show "self s = self s0 \<and> hasManager s = hasManager s0 \<and> localPort s = localPort s0 \<and> remotePort s = remotePort s0"
    using s1 by (auto simp: finalizeIncomingConnection_def queueConnectionForAccept_def setState_def Let_def split: option.splits if_splits)
  from assms sd show "l' = l \<or> l' = l\<lparr>acceptChan := acceptChan l @ [self s0]\<rparr> \<and> length (acceptChan l) < acceptChanSize"
    using s1 by (auto simp: finalizeIncomingConnection_def queueConnectionForAccept_def setState_def Let_def split: option.splits if_splits)
  from assms sd have "w_connections w' = w_connections w1 \<or> w_connections w' = AList.delete (l_localPort l, rport) (w_connections w1)"
    by (auto simp: finalizeIncomingConnection_def queueConnectionForAccept_def UnregisterConnection_def Let_def split: option.splits if_splits)
  then show "(\<forall>k. k \<noteq> (l_localPort l, rport) \<longrightarrow> map_of (w_connections w') k = map_of (w_connections w) k) \<and>
      map_of (w_connections w') (l_localPort l, rport) \<in> {None, Some (self s0)}"
    by (auto simp: w1 update_conv' delete_conv')
qed

lemma handleIncomingSYN_routes:
  assumes "handleIncomingSYN env afs cid prof syn rport rd rs l w = Some (Ok (r, l', Some s, w'), rs')" and "l_hasManager l"
  shows "self s = cid \<and> hasManager s \<and> localPort s = l_localPort l \<and> remotePort s = rport"
    and "l' = l \<or> l' = l\<lparr>acceptChan := acceptChan l @ [cid]\<rparr> \<and> length (acceptChan l) < acceptChanSize"
    and "(\<forall>k. k \<noteq> (l_localPort l, rport) \<longrightarrow> map_of (w_connections w') k = map_of (w_connections w) k) \<and>
      map_of (w_connections w') (l_localPort l, rport) \<in> {None, Some cid}"
proof -
  obtain peer w2 isn sid buf s0 w3 where c2: "w_connections w2 = w_connections w"
    and init: "initConnectionState env cid prof l syn rport peer isn sid buf w2 = (s0, w3)"
    and fin: "finalizeIncomingConnection env l rport (s0, w3) = Ok (r, l', s, w')"
    by (rule handleIncomingSYN_stages [OF assms(1)]) blast
  have s0: "self s0 = cid \<and> hasManager s0 \<and> localPort s0 = l_localPort l \<and> remotePort s0 = rport"
    and w3: "w_connections w3 = w_connections w"
    using applyCachedTCB_frame [OF init [unfolded initConnectionState_def Let_def]] assms(2) c2 by simp_all
  from finalize_routes [OF fin assms(2)] s0 w3
  show "self s = cid \<and> hasManager s \<and> localPort s = l_localPort l \<and> remotePort s = rport"
    "l' = l \<or> l' = l\<lparr>acceptChan := acceptChan l @ [cid]\<rparr> \<and> length (acceptChan l) < acceptChanSize"
    "(\<forall>k. k \<noteq> (l_localPort l, rport) \<longrightarrow> map_of (w_connections w') k = map_of (w_connections w) k) \<and>
      map_of (w_connections w') (l_localPort l, rport) \<in> {None, Some cid}" by simp_all
qed

lemma handleIncomingSYN_panics:
  assumes "handleIncomingSYN env afs cid prof syn rport rd rs l w = Some (Panic, rs')"
  shows "l_closed l"
proof -
  have isn: "generateISN rs \<noteq> Some (Panic, rs1)" for rs rs1 by (cases "(rs, rs1)" rule: prod.exhaust, cases rs rule: generateISN.cases) auto
  have sid: "generateStreamID rs \<noteq> Some (Panic, rs1)" for rs rs1 by (induction rs rule: generateStreamID.induct) auto
  have "createIncomingConnection env cid prof l syn rport pd rs w1 \<noteq> Some (Panic, rs1)" for pd w1 rs1
    using isn sid by (auto simp: createIncomingConnection_def split: option.splits sum.splits result.splits)
  moreover have "finalizeIncomingConnection env l rport sw = Panic \<Longrightarrow> l_closed l" for sw
    by (auto simp: finalizeIncomingConnection_def queueConnectionForAccept_def Let_def split: prod.splits option.splits if_splits)
  ultimately show ?thesis
    using assms by (auto simp: handleIncomingSYN_def validateIncomingSYN_def split: option.splits prod.splits sum.splits result.splits)
qed

section \<open>An MTU that does not fit\<close>

lemma zero_mtu_loops:
  assumes "writeChunksLocked env waits data totalLen mtu sw = Some y" and "\<And>h m. ses_SendMessage (e_session env) h m = None"
    and "waits = []" and "mtu = 0" and "data \<noteq> []" and "\<not> windowFull_send (fst sw)"
  shows False
proof -
  have "waits = [] \<and> mtu = 0 \<and> data \<noteq> [] \<and> \<not> windowFull_send (fst sw) \<and>
      (\<forall>h m. ses_SendMessage (e_session env) h m = None) \<longrightarrow> False"
  proof (rule writeChunksLocked.raw_induct [of "\<lambda>env waits data totalLen mtu sw y. waits = [] \<and> mtu = 0 \<and> data \<noteq> [] \<and>
      \<not> windowFull_send (fst sw) \<and> (\<forall>h m. ses_SendMessage (e_session env) h m = None) \<longrightarrow> False", OF _ assms(1)], rule impI, goal_cases)
    case (1 f env waits data totalLen mtu sw y)
    note ih = 1(1) and body = 1(2)
    from 1(3) have h: "waits = []" "mtu = 0" "data \<noteq> []" "\<not> windowFull_send (fst sw)" "\<forall>h m. ses_SendMessage (e_session env) h m = None"
      by auto
    obtain s w where sw: "sw = (s, w)" by fastforce
    obtain s2 w2 where sd: "sendDataChunk env [] (s, w) = (None, s2, w2)" using sendDataChunk_accepted [of env "[]" "(s, w)"] h(5) by auto
    from sd obtain i where "s2 = s\<lparr>sentPackets := (if [] = ([] :: byte list) then sentPackets s else AList.update (sendSeq s) i (sentPackets s)),
      lastActivity := w_now w, sendSeq := sendSeq s + 1, totalBytesSent := totalBytesSent s + of_nat (length ([] :: byte list))\<rparr>"
      by (rule sendDataChunk_sent)
    then have "\<not> windowFull_send s2" using h(4) by (simp add: sw windowFull_send_def)
    moreover have "f env [] data totalLen 0 (s2, w2) = Some y"
      using body h sd by (simp add: sw waitForWindowSpace.simps)
    ultimately show False using ih [of env "[]" data totalLen 0 "(s2, w2)" y] h(3,5) by simp
  qed
  with assms show False by blast
qed

text \<open>
  C36. A listener whose MTU does not fit into 16 bits makes writers spin: \<^verbatim>\<open>ListenWithMTU\<close> accepts 65536 and
  truncates it to zero, and \<^verbatim>\<open>Write\<close> on a connection with that MTU, on which nothing blocks and no send fails, never returns: it
  keeps sending empty packets.
\<close>

theorem truncated_MTU_write_diverges:
  assumes "ListenWithMTU True port 65536 = Inr l" and "localMTU s = l_localMTU l" and "remoteMTU s \<noteq> 0"
    and "validateWriteStateLocked (s, w) = None" and "\<not> chokeBlocks (s, w)" and "\<not> windowFull_send s"
    and "\<And>h m. ses_SendMessage (e_session env) h m = None" and "data \<noteq> []"
  shows "conn_Write env [] data (s, w) = None"
proof -
  have "localMTU s = 0" using assms(1,2) by (auto simp: ListenWithMTU_def split: if_splits)
  then have "getNegotiatedMTULocked s = 0" using assms(3) by (simp add: getNegotiatedMTULocked_def word_gt_0)
  moreover have "writeChunksLocked env [] data (length data) 0 (s, w) = None"
  proof (rule ccontr)
    assume "writeChunksLocked env [] data (length data) 0 (s, w) \<noteq> None"
    then obtain y where "writeChunksLocked env [] data (length data) 0 (s, w) = Some y" by blast
    from zero_mtu_loops [OF this assms(7) refl refl assms(8)] assms(6) show False by simp
  qed
  ultimately show ?thesis using assms(4,5)
    by (simp add: conn_Write_def handleChokeWaitLocked_def writeDataLocked_def)
qed

theorem truncated_MTU_write_diverges_witness:
  "conn_Write demo_env [] [7] (demo_conn\<lparr>localMTU := 0\<rparr>, demo_world) = None"
proof -
  have l: "ListenWithMTU True 80 65536 = Inr \<lparr>l_hasManager = False, l_localPort = 80, acceptChan = [], l_localMTU = 0,
                l_accessFilter = None, l_closed = False\<rparr>" by (simp add: ListenWithMTU_def MinMTU_def)
  have "length (sentPackets demo_conn) = 3" by (simp add: demo_conn_def)
  then have "\<not> windowFull_send (demo_conn\<lparr>localMTU := 0\<rparr>)" by (simp add: windowFull_send_def)
  moreover have "\<not> chokeBlocks (demo_conn\<lparr>localMTU := 0\<rparr>, demo_world)" 
    using demo_writer(2) by (simp add: chokeBlocks_def split: option.splits)
  moreover have "validateWriteStateLocked (demo_conn\<lparr>localMTU := 0\<rparr>, demo_world) = None"
    using demo_writer(1) by (simp add: validate_ok checkWriteDeadlineLocked_def)
  ultimately show ?thesis
    by (intro truncated_MTU_write_diverges [OF l]) (simp_all add: demo_session_def)
qed

section \<open>A concrete handshake\<close>

definition demo_client :: "(byte, byte list \<times> int \<times> int) StreamConn" where
  "demo_client = initializeStreamConn 1 True (Some 9) 80 4000 1730 100 11 ([], 0, 65536) 0"

definition demo_listener :: StreamListener where
  "demo_listener = \<lparr>l_hasManager = False, l_localPort = 4000, acceptChan = [], l_localMTU = 1812,
     l_accessFilter = None, l_closed = False\<rparr>"

lemma byte_lib_ok: "lib_ok byte_lib"
  using byte_lib_codec by (simp add: lib_ok_def) (simp add: byte_lib_def)

lemma demo_signs:
  assumes "marshalable byte_lib p" and "hasFlag p FlagSignatureIncluded" and "FromDestination p = Some d"
  obtains p' where "SignPacket byte_lib p k = Ok p'" and "p' = p\<lparr>Signature := Signature p'\<rparr>" and "length (Signature p') = 64"
    and "marshalable byte_lib p'" and "k = d \<Longrightarrow> VerifyPacketSignature byte_lib p' = Ok ()"
proof -
  define sg where "sg = replicate 64 (of_nat (length (signed_bytes byte_lib p)) + k)"
  define p' where "p' = p\<lparr>Signature := sg\<rparr>"
  have sign: "Sign byte_lib k (signed_bytes byte_lib p) = Inr sg" by (simp add: byte_lib_def sg_def)
  have len: "length sg = 64" by (simp add: sg_def)
  have ok: "SignPacket byte_lib p k = Ok p'"
    using assms sign len by (auto simp: SignPacket_Ok p'_def byte_lib_sigLen)
  have m: "marshalable byte_lib p'"
    using assms(1,3) len by (cases "OfflineSignature p") (auto simp: p'_def marshalable_def byte_lib_sigLen)
  have "VerifySignature byte_lib d (signed_bytes byte_lib p) sg" if "k = d" using that by (simp add: byte_lib_def sg_def)
  then have "k = d \<Longrightarrow> VerifyPacketSignature byte_lib p' = Ok ()"
    using assms(2,3) len m by (auto simp: VerifyPacketSignature_iff p'_def)
  with ok m have "SignPacket byte_lib p k = Ok p'" "marshalable byte_lib p'" "k = d \<Longrightarrow> VerifyPacketSignature byte_lib p' = Ok ()"
    by auto
  then show thesis using that [of p'] len by (simp add: p'_def)
qed

lemma demo_env_sends: "SendMessage demo_env d lp rp data n w = (None, snd (SendMessage demo_env d lp rp data n w))"
  by (simp add: SendMessage_def demo_session_def Let_def)

lemma demo_nacks:
  "generateReplayPreventionNACKs byte_lib (Some 9) = Ok [0x09000000, 0, 0, 0, 0, 0, 0, 0]"
  "compare_nacks [0..<8] (Sum256 byte_lib [9]) [0x09000000, 0, 0, 0, 0, 0, 0, 0] = Ok True"
  by code_simp+

end
