(* ===== verification/Conn_Identity.thy ===== *)
theory Conn_Identity
  imports Lifecycle
begin

text \<open>
  What every operation of a connection leaves alone: its identity, its manager, its ports, the context its goroutines
  watch, and the routing table and the limiter of the manager, except that closing takes its own route out, gives its place back and
  cancels the context.  The manager relies on this when it routes packets.
\<close>

definition ident ::
  "('d, 'b) conn_world \<Rightarrow> (conn_id \<times> bool \<times> u16 \<times> u16 \<times> bool) \<times> (u16 \<times> u16, conn_id) gomap \<times> connectionLimiter" where
  "ident sw = ((self (fst sw), hasManager (fst sw), localPort (fst sw), remotePort (fst sw), ctxDone (fst sw)),
     w_connections (snd sw), w_limiter (snd sw))"

lemma ident_updates [simp]:
  "ident (s\<lparr>sendSeq := x1\<rparr>, w) = ident (s, w)" "ident (s\<lparr>recvSeq := x1\<rparr>, w) = ident (s, w)"
  "ident (s\<lparr>ackThrough := x1\<rparr>, w) = ident (s, w)" "ident (s\<lparr>totalBytesSent := x2\<rparr>, w) = ident (s, w)"
  "ident (s\<lparr>totalBytesReceived := x2\<rparr>, w) = ident (s, w)" "ident (s\<lparr>sendingChoke := b\<rparr>, w) = ident (s, w)"
  "ident (s\<lparr>lastBufferCheck := i\<rparr>, w) = ident (s, w)" "ident (s\<lparr>remoteMTU := m\<rparr>, w) = ident (s, w)"
  "ident (s\<lparr>outOfOrderPackets := op\<rparr>, w) = ident (s, w)" "ident (s\<lparr>nackList := ns\<rparr>, w) = ident (s, w)"
  "ident (s\<lparr>sentPackets := sp\<rparr>, w) = ident (s, w)" "ident (s\<lparr>nackCounts := nc\<rparr>, w) = ident (s, w)"
  "ident (s\<lparr>recvBuf := rb\<rparr>, w) = ident (s, w)" "ident (s\<lparr>recvChan := rc\<rparr>, w) = ident (s, w)"
  "ident (s\<lparr>lastActivity := i\<rparr>, w) = ident (s, w)"
  "ident (s\<lparr>conn_closed := b\<rparr>, w) = ident (s, w)" "ident (s\<lparr>conn_state := st\<rparr>, w) = ident (s, w)"
  "ident (s\<lparr>readDeadline := dl\<rparr>, w) = ident (s, w)" "ident (s\<lparr>writeDeadline := dl\<rparr>, w) = ident (s, w)"
  "ident (s\<lparr>inactivityTimeout := i\<rparr>, w) = ident (s, w)" "ident (s\<lparr>recvCond := n\<rparr>, w) = ident (s, w)"
  "ident (s\<lparr>sendCond := n\<rparr>, w) = ident (s, w)" "ident (setState s st, w) = ident (s, w)"
  "ident (broadcast_recv s, w) = ident (s, w)" "ident (broadcast_send s, w) = ident (s, w)"
  "ident (s, w\<lparr>w_now := i\<rparr>) = ident (s, w)" "ident (s, w\<lparr>w_tcbCache := tc\<rparr>) = ident (s, w)"
  by (simp_all add: ident_def setState_def broadcast_recv_def broadcast_send_def)

lemma ident_SendMessage: "ident (s, snd (SendMessage env d lport rport data nonce w)) = ident (s, w)"
  by (simp add: ident_def SendMessage_def Let_def)

lemma ident_tracked: "ident (s, snd (sendViaI2CPWithTracking env s' data q b w)) = ident (s, w)"
proof -
  have "ident (s, w\<lparr>w_msgTracker := t\<rparr>) = ident (s, w)" for t by (simp add: ident_def)
  then show ?thesis by (simp add: sendViaI2CPWithTracking_def Let_def split_beta ident_SendMessage)
qed

lemma ident_sends [simp]:
  "ident (snd (sendPacketLocked env pkt sw)) = ident sw" "ident (snd (sendAckLocked env sw)) = ident sw"
  "ident (snd (sendChokeSignalLocked env sw)) = ident sw" "ident (snd (sendUnchokeSignalLocked env sw)) = ident sw"
  "ident (snd (sendCloseLocked env sw)) = ident sw"
proof -
  show p: "ident (snd (sendPacketLocked env pkt sw)) = ident sw" for pkt sw
  proof -
    obtain s w where sw: "sw = (s, w)" by fastforce
    have "ident (trackPacketForRetransmission now s pkt d, w') = ident (s, w')" for now d w'
      by (simp add: trackPacketForRetransmission_def)
    then show ?thesis
      by (auto simp: sw sendPacketLocked_def Let_def split_beta ident_tracked split: sum.split option.split)
  qed
  show "ident (snd (sendAckLocked env sw)) = ident sw" "ident (snd (sendCloseLocked env sw)) = ident sw"
    "ident (snd (sendChokeSignalLocked env sw)) = ident sw" "ident (snd (sendUnchokeSignalLocked env sw)) = ident sw"
    by (simp_all add: sendAckLocked_def sendCloseLocked_def sendChokeSignalLocked_def sendUnchokeSignalLocked_def p)
qed

section \<open>Data\<close>

lemma ident_remove [simp]: "ident (removeFromNACKListLocked q s, w) = ident (s, w)"
  by (simp add: removeFromNACKListLocked_def)

lemma ident_deliver [simp]: "ident (deliverBufferedPacketsLocked env s, w) = ident (s, w)"
proof -
  have "ident (deliver_loop env n s, w) = ident (s, w)" for n
    by (induction env n s rule: deliver_loop.induct) (auto simp: Let_def split: option.split prod.split)
  then show ?thesis by (simp add: deliverBufferedPacketsLocked_def)
qed

lemma ident_updateNACK [simp]: "ident (updateNACKListLocked q s, w) = ident (s, w)"
proof -
  have "ident (addMissing_loop is s, w) = ident (s, w)" for "is"
    by (induction "is" s rule: addMissing_loop.induct) (auto simp: Let_def)
  then show ?thesis by (simp add: updateNACKListLocked_def addMissingSequencesToNACKListLocked_def)
qed

lemma ident_choke [simp]: "ident (manageChokeStateLocked env sw) = ident sw"
  by (simp add: manageChokeStateLocked_def updateChokeStateForUsage_def Let_def split_beta)

lemma ident_handleData [simp]: "ident (handleDataLocked env pkt sw) = ident sw"
proof -
  obtain s w where sw: "sw = (s, w)" by fastforce
  have "ident (handleBufferFullLocked env pkt q (s, w)) = ident (s, w)" for q s w
    by (simp add: handleBufferFullLocked_def Let_def)
  moreover have "ident (handleOutOfOrderPacketLocked env pkt q (s, w)) = ident (s, w)" for q
    by (simp add: handleOutOfOrderPacketLocked_def Let_def)
  ultimately show ?thesis
    by (auto simp: sw handleDataLocked_def processInSequencePacketLocked_def Let_def split_beta split: option.split)
qed

lemma ident_Read:
  assumes "conn_Read env [] n sw = Some (d, e, sw')"
  shows "ident sw' = ident sw"
proof -
  obtain s w where sw: "sw = (s, w)" by fastforce
  have post: "ident (handlePostReadActionsLocked env (s, w)) = ident (s, w)" for s w
    by (simp add: handlePostReadActionsLocked_def Let_def)
  have "ident (snd (snd (consumeBufferDataLocked env n s)), w) = ident (s, w)"
    by (auto simp: consumeBufferDataLocked_def Let_def split: option.split prod.split)
  with assms post show ?thesis
    by (auto simp: sw conn_Read_def waitForReadDataLocked.simps [of env "[]"] split: option.splits if_splits prod.splits)
qed

section \<open>Acknowledgements and retransmission\<close>

lemma ident_retransmit [simp]: "ident (snd (retransmitPacketLocked env q sw)) = ident sw"
  by (auto simp: ident_def retransmitPacketLocked_def SendMessage_def Let_def split: option.splits prod.splits if_splits)

lemma ident_congestion [simp]:
  "ident (reduceCongestionWindowLocked s, w) = ident (s, w)" "ident (ackStep now pkt s, w) = ident (s, w)"
  "ident (handleOptionalDelayLocked now pkt s, w) = ident (s, w)"
  using ackStep_facts(4) [of s now pkt] optionalDelay_facts(2) [of s now pkt]
  by (simp_all add: ident_def reduceCongestionWindowLocked_def id_same_def Let_def)

lemma ident_NACKs: "ident (handleNACKs_loop env ns tr sw) = ident sw"
proof (induction ns arbitrary: tr sw)
  case (Cons n ns)
  obtain s w where sw: "sw = (s, w)" by fastforce
  show ?case by (simp add: sw Cons.IH Let_def split_beta)
qed simp

lemma ident_handleAck [simp]: "ident (handleAckLocked env pkt sw) = ident sw"
proof -
  obtain s w where sw: "sw = (s, w)" by fastforce
  show ?thesis by (simp add: sw ident_NACKs handleAckLocked_eq handleNACKsLocked_def Let_def split_beta)
qed

lemma ident_timedOut: "ident (snd (retransmitTimedOutPacketsLocked env qs sw)) = ident sw"
  by (induction env qs sw rule: retransmitTimedOutPacketsLocked.induct) (auto split: option.split prod.split dest!: arg_cong [of _ _ "\<lambda>x. ident (snd x)"])

lemma ident_checkRetransmissions [simp]: "ident (snd (checkRetransmissions env sw)) = ident sw"
  by (simp add: checkRetransmissions_def ident_timedOut Let_def) (simp add: ident_def applyExponentialBackoffLocked_def Let_def)

section \<open>Closing\<close>

text \<open>The routing table after an operation that may have closed the connection.\<close>

definition unrouted :: "('d, 'b) conn_world \<Rightarrow> ('d, 'b) conn_world \<Rightarrow> bool" where
  "unrouted sw sw' \<longleftrightarrow> self (fst sw') = self (fst sw) \<and> hasManager (fst sw') = hasManager (fst sw) \<and>
     localPort (fst sw') = localPort (fst sw) \<and> remotePort (fst sw') = remotePort (fst sw) \<and>
     (w_connections (snd sw') = w_connections (snd sw) \<or>
      w_connections (snd sw') = AList.delete (localPort (fst sw), remotePort (fst sw)) (w_connections (snd sw)))"

lemma ident_unrouted: "ident sw' = ident sw \<Longrightarrow> unrouted sw sw'" by (simp add: ident_def unrouted_def)

lemma unrouted_ident: "ident b = ident a \<Longrightarrow> unrouted b c \<Longrightarrow> unrouted a c" by (simp add: ident_def unrouted_def)

lemma Close_unrouted: "unrouted sw (conn_Close env sw)"
proof -
  have 1: "ident (sendCloseIfEstablished env sw) = ident sw"
    by (simp add: sendCloseIfEstablished_def Let_def split_beta)
  have "unrouted (sendCloseIfEstablished env sw) (cleanupConnectionLocked env (sendCloseIfEstablished env sw))"
    by (cases "sendCloseIfEstablished env sw") (simp add: cleanupConnectionLocked_def unrouted_def UnregisterConnection_def stopPersist_eq
      wakeBlockedGoroutines_def broadcast_send_def broadcast_recv_def Let_def)
  from unrouted_ident [OF 1 this] show ?thesis by (simp add: conn_Close_def ident_unrouted)
qed

section \<open>Every operation\<close>

lemma ident_established:
  "ident (snd (case x of (None, s, w) \<Rightarrow> (None, (setState s StateEstablished, w)) | (Some e, sw) \<Rightarrow> (Some (Wrap m e), sw))) = ident (snd x)"
  by (cases x; cases "fst x") auto

lemma ident_dispatch [simp]: "ident (snd (dispatchPacketByFlags env pkt sw)) = ident sw"
proof -
  obtain s w where sw: "sw = (s, w)" by fastforce
  have "ident (snd (handleSynAckLocked env pkt (s, w))) = ident (s, w)"
    by (simp add: handleSynAckLocked_def Let_def ident_established)
  moreover have "ident (snd (handleCloseLocked env pkt (s, w))) = ident (s, w)"
    by (cases "verifyIfSigned env pkt"; cases "conn_state s") (simp_all add: handleCloseLocked_def Let_def split_beta)
  moreover have "ident (snd (handleResetLocked env pkt (s, w))) = ident (s, w)"
    by (cases "verifyIfSigned env pkt") (simp_all add: handleResetLocked_def Let_def)
  ultimately show ?thesis by (simp add: sw dispatchPacketByFlags_def handleFinalAckLocked_def)
qed

lemma ident_failed [simp]: "ident (handleMessageFailed env q b sw) = ident sw"
  by (cases sw) (auto simp: ident_def handleMessageFailed_def sendViaI2CP_def SendMessage_def Let_def split: option.splits prod.splits if_splits)

lemma ident_delivered [simp]: "ident (handleMessageDelivered q s, w) = ident (s, w)"
  by (simp add: handleMessageDelivered_def split: option.split)

lemma ident_sendDataChunk: "ident (snd (sendDataChunk env c sw)) = ident sw"
proof -
  obtain s w where sw: "sw = (s, w)" by fastforce
  obtain r s1 w1 where sd: "sendPacketLocked env (dataPacket s c) (s, w) = (r, s1, w1)" by (metis prod_cases3)
  have "ident (s1, w1) = ident (s, w)" using ident_sends(1) [of env "dataPacket s c" "(s, w)"] by (simp add: sd)
  then show ?thesis by (cases r) (simp_all add: sw sendDataChunk_def sd Let_def)
qed

text \<open>The connection after a pass over the packets that have timed out is as open or closed as before.\<close>

lemma checkRetransmissions_closed: "conn_closed (fst (snd (checkRetransmissions env sw))) = conn_closed (fst sw)"
proof -
  obtain s w where sw: "sw = (s, w)" by fastforce
  obtain r s1 w1 where c: "checkRetransmissions env (s, w) = (r, s1, w1)" by (metis prod_cases3)
  have "s1 = s \<or> (\<exists>sp. s1 = (applyExponentialBackoffLocked s)\<lparr>sentPackets := sp\<rparr>)"
    using c retransmitTimedOut_frame [of env _ "applyExponentialBackoffLocked s" w r s1 w1]
    by (auto simp: checkRetransmissions_def Let_def split: if_splits)
  then show ?thesis by (auto simp: sw c applyExponentialBackoffLocked_def Let_def split: if_splits)
qed

lemma ident_inactivity: "ident (checkInactivity env sw) = ident sw"
proof -
  obtain r s w where "sendAckLocked env sw = (r, s, w)" by (metis prod_cases3)
  then show ?thesis using ident_sends(2) [of env sw]
    by (cases r) (auto simp: checkInactivity_def Let_def split_beta)
qed

lemma ident_persist: "ident (persistTimerFires env sw) = ident sw"
  by (cases sw) (auto simp: ident_def persistTimerFires_def sendProbePacketLocked_def SendMessage_def Let_def
      split: sum.splits prod.splits if_splits)

text \<open>An operation that does not leave all of this alone is a call of \<^verbatim>\<open>Close\<close>.\<close>

lemma conn_do_ident:
  "ident (conn_do env oper sw) = ident sw \<or>
   (\<exists>sw'. conn_do env oper sw = conn_Close env sw' \<and> ident sw' = ident sw \<and> conn_closed (fst sw') = conn_closed (fst sw))"
proof -
  obtain s w where sw: "sw = (s, w)" by fastforce
  show ?thesis
  proof (cases oper)
    case (Receive pick)
    have "ident (snd (processPacket env pkt (s', w))) = ident (s', w)" for pkt s'
      by (simp add: processPacket_def)
    then show ?thesis by (auto simp: Receive sw receiveLoop_round_def split: list.splits)
  next
    case (ReadBytes n)
    then show ?thesis by (auto dest: ident_Read split: option.split)
  next
    case CloseConn
    then show ?thesis by (intro disjI2 exI [of _ sw]) simp
  next
    case (RetransmitTick pick)
    obtain r sw' where c: "checkRetransmissions env sw = (r, sw')" by (metis surj_pair)
    have "ident sw' = ident sw" "conn_closed (fst sw') = conn_closed (fst sw)"
      using ident_checkRetransmissions [of env sw] checkRetransmissions_closed [of env sw] by (simp_all add: c)
    then show ?thesis
    proof (cases r)
      case (Some e)
      have "conn_do env oper sw = (if ctxDone (fst sw) \<and> \<not> pick then sw else conn_Close env sw')"
        by (simp add: RetransmitTick retransmitTick_def c Some)
      with \<open>ident sw' = ident sw\<close> \<open>conn_closed (fst sw') = conn_closed (fst sw)\<close> show ?thesis by metis
    qed (simp add: RetransmitTick retransmitTick_def c)
  qed (simp_all add: sw ident_sendDataChunk handleIncomingPacket_def SetDeadline_def SetWriteDeadline_def SetReadDeadline_def
      SetInactivityTimeout_def ident_inactivity ident_persist)
qed

lemma conn_do_unrouted: "unrouted sw (conn_do env oper sw)"
proof (cases "ident (conn_do env oper sw) = ident sw")
  case True
  then show ?thesis by (rule ident_unrouted)
next
  case False
  then obtain sw' where "conn_do env oper sw = conn_Close env sw'" "ident sw' = ident sw" using conn_do_ident by blast
  then show ?thesis using unrouted_ident [OF _ Close_unrouted] by simp
qed

text \<open>A connection that is already closed is never released: nothing of this changes any more.\<close>

lemma closed_conn_do_ident:
  assumes "conn_closed (fst sw)"
  shows "ident (conn_do env oper sw) = ident sw"
  using conn_do_ident [of env oper sw] assms by (auto simp: conn_Close_def)

lemma closed_reach_ident:
  assumes "conn_reach env sw sw'" and "conn_inv (fst sw)" and "conn_closed (fst sw)"
  shows "ident sw' = ident sw \<and> conn_inv (fst sw') \<and> conn_closed (fst sw')"
  using assms
proof (induction rule: conn_reach.induct)
  case (conn_step sw' oper)
  then show ?case using conn_do_advances [of sw' env oper] by (simp add: closed_conn_do_ident advances_def)
qed simp

end
