(* ===== verification/Wire_Contract.thy ===== *)
theory Wire_Contract
  imports Connect Conn_Identity
begin

text \<open>
  What a connection hands to I2CP apart from the data packets of \<^verbatim>\<open>Write\<close>: acknowledgements, choke signals and \<^verbatim>\<open>CLOSE\<close> packets,
  none of which carries a payload, and retransmissions, which repeat the bytes of a tracked packet.

  The locale \<open>wire_contract\<close> states the interface between a sender and whoever reads its messages: a property of messages that
  all packets without a payload have.  Its lemmas show that every operation of a connection that numbers no packet keeps the
  property for all messages sent and all packets tracked.
\<close>

section \<open>Messages sent and packets tracked\<close>

definition tx_ok :: "(byte list \<Rightarrow> bool) \<Rightarrow> u32 \<Rightarrow> ('d, 'b) conn_world \<Rightarrow> bool" where
  "tx_ok P q sw \<longleftrightarrow> sendSeq (fst sw) = q \<and> (\<forall>m\<in>set (w_wire (snd sw)). P (msg_data m)) \<and>
     (\<forall>i\<in>snd ` set (sentPackets (fst sw)). P (sp_data i))"

lemma tx_ok_updates [simp]:
  "tx_ok P q (s\<lparr>recvSeq := x1\<rparr>, w) = tx_ok P q (s, w)" "tx_ok P q (s\<lparr>ackThrough := x1\<rparr>, w) = tx_ok P q (s, w)"
  "tx_ok P q (s\<lparr>totalBytesReceived := x2\<rparr>, w) = tx_ok P q (s, w)" "tx_ok P q (s\<lparr>sendingChoke := b\<rparr>, w) = tx_ok P q (s, w)"
  "tx_ok P q (s\<lparr>lastBufferCheck := i\<rparr>, w) = tx_ok P q (s, w)" "tx_ok P q (s\<lparr>remoteMTU := m\<rparr>, w) = tx_ok P q (s, w)"
  "tx_ok P q (s\<lparr>outOfOrderPackets := op\<rparr>, w) = tx_ok P q (s, w)" "tx_ok P q (s\<lparr>nackList := ns\<rparr>, w) = tx_ok P q (s, w)"
  "tx_ok P q (s\<lparr>nackCounts := nc\<rparr>, w) = tx_ok P q (s, w)" "tx_ok P q (s\<lparr>recvBuf := rb\<rparr>, w) = tx_ok P q (s, w)"
  "tx_ok P q (s\<lparr>recvChan := rc\<rparr>, w) = tx_ok P q (s, w)" "tx_ok P q (s\<lparr>ctxDone := b\<rparr>, w) = tx_ok P q (s, w)"
  "tx_ok P q (s\<lparr>lastActivity := i\<rparr>, w) = tx_ok P q (s, w)" "tx_ok P q (s\<lparr>conn_closed := b\<rparr>, w) = tx_ok P q (s, w)"
  "tx_ok P q (s\<lparr>readDeadline := dl\<rparr>, w) = tx_ok P q (s, w)" "tx_ok P q (s\<lparr>writeDeadline := dl\<rparr>, w) = tx_ok P q (s, w)"
  "tx_ok P q (s\<lparr>inactivityTimeout := i\<rparr>, w) = tx_ok P q (s, w)" "tx_ok P q (setState s st, w) = tx_ok P q (s, w)"
  "tx_ok P q (broadcast_recv s, w) = tx_ok P q (s, w)" "tx_ok P q (broadcast_send s, w) = tx_ok P q (s, w)"
  "tx_ok P q (stopPersistTimerLocked s, w) = tx_ok P q (s, w)"
  "tx_ok P q (reduceCongestionWindowLocked s, w) = tx_ok P q (s, w)"
  "tx_ok P q (applyExponentialBackoffLocked s, w) = tx_ok P q (s, w)"
  "tx_ok P q (handleOptionalDelayLocked now pkt s, w) = tx_ok P q (s, w)"
  "tx_ok P q (s, w\<lparr>w_now := i\<rparr>) = tx_ok P q (s, w)" "tx_ok P q (s, w\<lparr>w_tcbCache := tc\<rparr>) = tx_ok P q (s, w)"
  "tx_ok P q (s, w\<lparr>w_limiter := cl\<rparr>) = tx_ok P q (s, w)" "tx_ok P q (s, w\<lparr>w_msgTracker := mt\<rparr>) = tx_ok P q (s, w)"
  "tx_ok P q (s, UnregisterConnection lp rp w) = tx_ok P q (s, w)"
  by (simp_all add: tx_ok_def setState_def broadcast_recv_def broadcast_send_def stopPersist_eq reduceCongestionWindowLocked_def
      optionalDelay_facts applyExponentialBackoffLocked_def UnregisterConnection_def Let_def)

lemma in_alist_update: "i \<in> snd ` set (AList.update k v xs) \<Longrightarrow> i = v \<or> i \<in> snd ` set xs"
  by (induction xs) (auto split: if_splits)

lemma tx_ok_track:
  "tx_ok P q (s, w) \<Longrightarrow> P (sp_data i) \<Longrightarrow> tx_ok P q (s\<lparr>sentPackets := AList.update k i (sentPackets s)\<rparr>, w)"
  using in_alist_update [of _ k i "sentPackets s"] unfolding tx_ok_def by fastforce

lemma tx_ok_fewer:
  "tx_ok P q (s, w) \<Longrightarrow> set (sentPackets s') \<subseteq> set (sentPackets s) \<Longrightarrow> sendSeq s' = sendSeq s \<Longrightarrow> tx_ok P q (s', w)"
  by (auto simp: tx_ok_def)

lemma tx_ok_sent: "tx_ok P q (s, w) \<Longrightarrow> map_of (sentPackets s) k = Some i \<Longrightarrow> P (sp_data i)"
  by (drule map_of_SomeD) (force simp: tx_ok_def)

lemma ackStep_sent: "set (sentPackets (ackStep now pkt s)) \<subseteq> set (sentPackets s)"
proof -
  have "sentPackets (measureRTTFromAck now a t) = sentPackets t" "sentPackets (updateCongestionWindow t) = sentPackets t"
    for a and t :: "('a, 'b) StreamConn"
    by (simp_all add: measureRTTFromAck_def calculateRTO_def updateRTTEstimate_def updateCongestionWindow_def Let_def split: option.split)
  then show ?thesis by (auto simp: ackStep_def cleanupAckedPacketsLocked_def broadcast_send_def Let_def)
qed

lemma tx_ok_SendMessage:
  "tx_ok P q (s, w) \<Longrightarrow> P data \<Longrightarrow> tx_ok P q (s, snd (SendMessage env d lp rp data n w))"
  by (auto simp: tx_ok_def SendMessage_def Let_def)

lemma tx_ok_sendVia:
  assumes "tx_ok P q (s, w)" and "P data"
  shows "tx_ok P q (s, snd (sendViaI2CPWithTracking env s' data k b w))" and "tx_ok P q (s, snd (sendViaI2CP env s' data w))"
proof -
  have "tx_ok P q (s, snd (SendMessage env d lp rp data n (w\<lparr>w_msgTracker := t\<rparr>)))" for d lp rp n t
    by (rule tx_ok_SendMessage) (simp_all add: assms)
  then show "tx_ok P q (s, snd (sendViaI2CPWithTracking env s' data k b w))"
    using tx_ok_SendMessage [OF assms]
    by (auto simp: sendViaI2CPWithTracking_def split_beta Let_def)
  show "tx_ok P q (s, snd (sendViaI2CP env s' data w))"
    using tx_ok_SendMessage [OF assms] by (simp add: sendViaI2CP_def split_beta Let_def)
qed

lemma tx_ok_mono: "tx_ok P q sw \<Longrightarrow> (\<And>bytes. P bytes \<Longrightarrow> Q bytes) \<Longrightarrow> tx_ok Q q sw"
  by (auto simp: tx_ok_def)

text \<open>A packet of \<^verbatim>\<open>Write\<close> uses up one sequence number.\<close>

lemma tx_ok_sendDataChunk:
  assumes "tx_ok P q (s, w)" and "P (wire_format (e_lib env) (dataPacket s c))" and "sendDataChunk env c (s, w) = (None, s', w')"
  shows "tx_ok P (q + 1) (s', w')"
proof -
  define d where "d = wire_format (e_lib env) (dataPacket s c)"
  define s1 where "s1 = trackPacketForRetransmission (w_now w) s (dataPacket s c) d"
  have s1: "tx_ok P q (s1, w)" using assms(1,2)
    by (simp add: s1_def trackPacketForRetransmission_def tx_ok_track d_def)
  obtain r w1 where sv: "sendViaI2CPWithTracking env s1 d (sendSeq s) (0 < length c) w = (r, w1)" by (metis surj_pair)
  with tx_ok_sendVia(1) [OF s1, of d env s1 "sendSeq s" "0 < length c"] assms(2) have w1: "tx_ok P q (s1, w1)" by (simp add: d_def)
  have "w' = w1" "s' = s1\<lparr>lastActivity := w_now w1, sendSeq := sendSeq s1 + 1, totalBytesSent := totalBytesSent s1 + of_nat (length c)\<rparr>"
    using assms(3) sv by (auto simp: sendDataChunk_def sendPacketLocked_def dataPacket_marshal Let_def s1_def [symmetric] d_def [symmetric]
        split: option.splits prod.splits)
  with w1 show ?thesis by (simp add: tx_ok_def)
qed

section \<open>Packets without a payload\<close>

definition plain :: "'d Packet \<Rightarrow> bool" where
  "plain p \<longleftrightarrow> Payload p = [] \<and> \<not> hasFlag p FlagOfflineSignature \<and>
     (hasFlag p FlagSignatureIncluded \<longrightarrow> hasFlag p FlagFromIncluded)"

lemma control_plain: "f = 0 \<or> f = FlagDelayRequested \<Longrightarrow> plain (withNACKs env sw (controlPacket s f d))"
  by (auto simp: plain_def hasFlag_def withNACKs_def controlPacket_def emptyPacket_def flag_defs)

lemma plain_signed: "plain (p\<lparr>Signature := x\<rparr>) = plain p"
  by (simp add: plain_def hasFlag_def)

lemma sign_plain: "SignPacket lib p k = Ok p' \<Longrightarrow> plain p' = plain p"
proof -
  assume "SignPacket lib p k = Ok p'"
  then have "p' = p\<lparr>Signature := Signature p'\<rparr>" using signed_packet(1) [of lib p k p'] by simp
  then show ?thesis by (metis plain_signed)
qed

lemma close_plain: "plain (closePacket env s)"
proof -
  have "plain (emptyPacket\<lparr>SendStreamID := a, RecvStreamID := b, SequenceNum := c, AckThrough := e,
      Flags := FlagCLOSE OR (FlagSignatureIncluded OR FlagFromIncluded), FromDestination := d\<rparr>)" for a b c d e
    by (simp add: plain_def hasFlag_def emptyPacket_def flag_defs)
  then show ?thesis by (auto simp: closePacket_def sign_plain Let_def split: sum.split result.split)
qed

section \<open>The contract\<close>

text \<open>The operations that use up sequence numbers: a packet of \<^verbatim>\<open>Write\<close>, and a probe of the persist timer.\<close>

fun numbers_packets :: "'d conn_op \<Rightarrow> bool" where
  "numbers_packets (Send chunk) = True"
| "numbers_packets PersistTick = True"
| "numbers_packets _ = False"

lemma delete_keeps: "x \<in> set (AList.delete k xs) \<Longrightarrow> x \<in> set xs"
  by (simp add: AList.delete_eq)

text \<open>\<open>P\<close> holds of the bytes of every packet without a payload.\<close>

locale wire_contract =
  fixes env :: "('d, 'c, 'k, 'b) env" and P :: "byte list \<Rightarrow> bool"
  assumes plain_bytes: "plain p \<Longrightarrow> checked (Marshal (e_lib env) p) = Inr data \<Longrightarrow> P data"
begin

lemma tx_sendPacket: "plain p \<Longrightarrow> tx_ok P q sw \<Longrightarrow> tx_ok P q (snd (sendPacketLocked env p sw))"
  using plain_bytes [of p]
  by (cases sw) (auto simp: sendPacketLocked_def trackPacketForRetransmission_def plain_def Let_def split_beta
      intro: tx_ok_sendVia split: sum.split option.split)

lemma tx_control:
  assumes "tx_ok P q sw"
  shows "tx_ok P q (snd (sendAckLocked env sw))" and "tx_ok P q (snd (sendChokeSignalLocked env sw))"
    and "tx_ok P q (snd (sendUnchokeSignalLocked env sw))" and "tx_ok P q (snd (sendCloseLocked env sw))"
proof -
  have "tx_ok P q ((fst sw)\<lparr>sendingChoke := b\<rparr>, snd sw)" for b using assms by simp
  with assms show "tx_ok P q (snd (sendAckLocked env sw))" "tx_ok P q (snd (sendChokeSignalLocked env sw))"
    "tx_ok P q (snd (sendUnchokeSignalLocked env sw))" "tx_ok P q (snd (sendCloseLocked env sw))"
    by (simp_all add: sendAckLocked_def sendCloseLocked_def sendChokeSignalLocked_def sendUnchokeSignalLocked_def tx_sendPacket
        control_plain close_plain)
qed

lemma tx_deliver: "tx_ok P q (deliverBufferedPacketsLocked env s, w) = tx_ok P q (s, w)"
proof -
  have "tx_ok P q (deliver_loop env n s, w) = tx_ok P q (s, w)" for n
    using deliver_loop_other(1) [of s env n] by (simp add: tx_ok_def tx_same_def)
  then show ?thesis by (simp add: deliverBufferedPacketsLocked_def)
qed

lemma tx_nacks: "tx_ok P q (removeFromNACKListLocked k s, w) = tx_ok P q (s, w)"
    "tx_ok P q (updateNACKListLocked k s, w) = tx_ok P q (s, w)"
proof -
  have "tx_ok P q (addMissing_loop is s, w) = tx_ok P q (s, w)" for "is"
    by (induction "is" s rule: addMissing_loop.induct) (auto simp: Let_def)
  then show "tx_ok P q (updateNACKListLocked k s, w) = tx_ok P q (s, w)"
    by (simp add: updateNACKListLocked_def addMissingSequencesToNACKListLocked_def)
  show "tx_ok P q (removeFromNACKListLocked k s, w) = tx_ok P q (s, w)" by (simp add: removeFromNACKListLocked_def)
qed

lemma tx_choke: "tx_ok P q sw \<Longrightarrow> tx_ok P q (manageChokeStateLocked env sw)"
  by (cases sw) (simp add: manageChokeStateLocked_def updateChokeStateForUsage_def tx_control Let_def)

lemma tx_handleData: "tx_ok P q sw \<Longrightarrow> tx_ok P q (handleDataLocked env pkt sw)"
proof -
  assume t: "tx_ok P q sw"
  obtain s w where sw: "sw = (s, w)" by fastforce
  have full: "tx_ok P q (handleBufferFullLocked env pkt k (s, w))" if "tx_ok P q (s, w)" for k s w
    using that by (simp add: handleBufferFullLocked_def tx_control Let_def)
  have ooo: "tx_ok P q (handleOutOfOrderPacketLocked env pkt k (s, w))" for k
    using t by (simp add: sw handleOutOfOrderPacketLocked_def tx_control tx_nacks Let_def)
  have "tx_ok P q (processInSequencePacketLocked env pkt k (s, w))" for k
  proof -
    obtain n e b where wr: "cb_Write (e_circ env) (recvBuf s) (Payload pkt) = (n, e, b)" by (metis prod_cases3)
    have "tx_ok P q (manageChokeStateLocked env (s', w))" if "tx_ok P q (s', w)" for s' using that by (rule tx_choke)
    with t full show ?thesis
      by (cases e) (simp_all add: sw wr processInSequencePacketLocked_def tx_control tx_nacks tx_deliver tx_choke Let_def split_beta)
  qed
  with t ooo show ?thesis by (simp add: sw handleDataLocked_def Let_def)
qed

lemma tx_Read:
  assumes "tx_ok P q sw" and "conn_Read env [] n sw = Some (d, e, sw')"
  shows "tx_ok P q sw'"
proof -
  obtain s w where sw: "sw = (s, w)" by fastforce
  have post: "tx_ok P q (handlePostReadActionsLocked env (s, w))" if "tx_ok P q (s, w)" for s w
    using that by (simp add: handlePostReadActionsLocked_def tx_control tx_deliver Let_def)
  have "tx_ok P q (snd (snd (consumeBufferDataLocked env n s)), w)"
    using assms(1) by (auto simp: sw consumeBufferDataLocked_def Let_def split: option.split prod.split)
  with assms post show ?thesis
    by (auto simp: sw conn_Read_def waitForReadDataLocked.simps [of env "[]"] split: option.splits if_splits prod.splits)
qed

lemma tx_retransmit: "tx_ok P q sw \<Longrightarrow> tx_ok P q (snd (retransmitPacketLocked env k sw))"
proof -
  assume t: "tx_ok P q sw"
  obtain s w where sw: "sw = (s, w)" by fastforce
  show ?thesis
  proof (cases "map_of (sentPackets s) k")
    case None
    with t show ?thesis by (simp add: sw retransmitPacketLocked_def)
  next
    case (Some i)
    have i: "P (sp_data i)" by (rule tx_ok_sent [OF t [unfolded sw] Some])
    obtain r w1 where sm: "SendMessage env (conn_dest s) (localPort s) (remotePort s) (sp_data i) 0 w = (r, w1)" by (metis surj_pair)
    with tx_ok_SendMessage [OF t [unfolded sw] i] have "tx_ok P q (s, w1)" by (metis snd_conv)
    with i Some sm show ?thesis by (cases r) (simp_all add: sw retransmitPacketLocked_def tx_ok_track)
  qed
qed

lemma tx_NACKs: "tx_ok P q sw \<Longrightarrow> tx_ok P q (handleNACKs_loop env ns tr sw)"
proof (induction ns arbitrary: tr sw)
  case (Cons n ns)
  obtain s w where sw: "sw = (s, w)" by fastforce
  have "tx_ok P q (snd (retransmitPacketLocked env k (s', w)))" if "tx_ok P q (s', w)" for k s' using that by (rule tx_retransmit)
  with Cons show ?case by (simp add: sw Let_def split_beta)
qed simp

lemma tx_ackStep: "tx_ok P q (s, w) \<Longrightarrow> tx_ok P q (ackStep now pkt s, w)"
  by (rule tx_ok_fewer [OF _ ackStep_sent]) (simp_all add: ackStep_facts)

lemma tx_handleAck: "tx_ok P q sw \<Longrightarrow> tx_ok P q (handleAckLocked env pkt sw)"
  by (cases sw) (simp add: handleAckLocked_eq handleNACKsLocked_def tx_NACKs tx_ackStep Let_def split_beta)

lemma tx_timedOut: "tx_ok P q sw \<Longrightarrow> tx_ok P q (snd (retransmitTimedOutPacketsLocked env qs sw))"
proof (induction qs arbitrary: sw)
  case (Cons k qs)
  from Cons.IH [OF tx_retransmit [OF Cons.prems, of k]] Cons.prems show ?case
    by (simp add: split_beta split: option.split)
qed simp

lemma tx_checkRetransmissions: "tx_ok P q sw \<Longrightarrow> tx_ok P q (snd (checkRetransmissions env sw))"
  by (cases sw) (simp add: checkRetransmissions_def tx_timedOut Let_def)

lemma tx_Close: "tx_ok P q sw \<Longrightarrow> tx_ok P q (conn_Close env sw)"
proof -
  assume t: "tx_ok P q sw"
  have clean: "tx_ok P q (cleanupConnectionLocked env (s, w))" if "tx_ok P q (s, w)" for s w
    using that by (simp add: cleanupConnectionLocked_def wakeBlockedGoroutines_def Let_def)
  obtain s w where e: "sendCloseIfEstablished env sw = (s, w)" by (metis surj_pair)
  have "tx_ok P q (sendCloseIfEstablished env sw)"
    using t by (simp add: sendCloseIfEstablished_def tx_control split_beta Let_def)
  with t e clean [of s w] show ?thesis by (simp add: conn_Close_def)
qed

lemma tx_established:
  "tx_ok P q (snd x) \<Longrightarrow>
    tx_ok P q (snd (case x of (None, s, w) \<Rightarrow> (None, (setState s StateEstablished, w)) | (Some e, sw) \<Rightarrow> (Some (Wrap m e), sw)))"
  by (cases x; cases "fst x") auto

lemma tx_dispatch: "tx_ok P q sw \<Longrightarrow> tx_ok P q (snd (dispatchPacketByFlags env pkt sw))"
proof -
  assume t: "tx_ok P q sw"
  obtain s w where sw: "sw = (s, w)" by fastforce
  have "tx_ok P q (snd (handleSynAckLocked env pkt (s, w)))"
    using t by (simp add: sw handleSynAckLocked_def tx_established tx_control Let_def)
  moreover have "tx_ok P q (snd (handleCloseLocked env pkt (s, w)))"
    using t by (cases "verifyIfSigned env pkt"; cases "conn_state s") (simp_all add: sw handleCloseLocked_def tx_control Let_def split_beta)
  moreover have "tx_ok P q (snd (handleResetLocked env pkt (s, w)))"
    using t by (cases "verifyIfSigned env pkt") (simp_all add: sw handleResetLocked_def Let_def)
  ultimately show ?thesis using t
    by (simp add: sw dispatchPacketByFlags_def handleFinalAckLocked_def tx_handleAck tx_handleData)
qed

lemma tx_failed: "tx_ok P q sw \<Longrightarrow> tx_ok P q (handleMessageFailed env k b sw)"
proof -
  assume t: "tx_ok P q sw"
  obtain s w where sw: "sw = (s, w)" by fastforce
  have "P (sp_data i)" "tx_ok P q (s\<lparr>sentPackets := AList.update k (i\<lparr>retryCount := n\<rparr>) (sentPackets s)\<rparr>, w)"
    if "map_of (sentPackets s) k = Some i" for i n
    using t tx_ok_sent [OF t [unfolded sw] that] by (simp_all add: sw tx_ok_track)
  with t show ?thesis
    by (auto simp: sw handleMessageFailed_def Let_def intro!: tx_ok_sendVia(2) split: option.split)
qed

lemma tx_inactivity: "tx_ok P q sw \<Longrightarrow> tx_ok P q (checkInactivity env sw)"
proof -
  assume t: "tx_ok P q sw"
  obtain r s w where sa: "sendAckLocked env sw = (r, s, w)" by (metis prod_cases3)
  have "tx_ok P q (s, w)" using tx_control(1) [OF t] by (simp add: sa)
  with t sa show ?thesis by (cases sw; cases r) (auto simp: checkInactivity_def Let_def)
qed

text \<open>Every operation that numbers no packet keeps the next sequence number and the property of all messages and tracked packets.\<close>

lemma tx_conn_do:
  assumes "\<not> numbers_packets oper" and "tx_ok P q sw"
  shows "tx_ok P q (conn_do env oper sw)"
proof -
  obtain s w where sw: "sw = (s, w)" by fastforce
  show ?thesis
  proof (cases oper)
    case (Receive pick)
    have "tx_ok P q (snd (processPacket env pkt (s', w)))" if "tx_ok P q (s', w)" for pkt s'
      using that by (simp add: processPacket_def tx_dispatch)
    with assms(2) show ?thesis by (auto simp: Receive sw receiveLoop_round_def split: list.splits if_splits)
  next
    case (ReadBytes n)
    then show ?thesis using assms(2) by (auto dest: tx_Read split: option.split)
  next
    case (RetransmitTick pick)
    obtain r s1 w1 where c: "checkRetransmissions env sw = (r, s1, w1)" by (metis prod_cases3)
    have "tx_ok P q (s1, w1)" using tx_checkRetransmissions [OF assms(2)] by (simp add: c)
    with assms(2) c tx_Close show ?thesis by (cases r) (simp_all add: RetransmitTick retransmitTick_def)
  next
    case (ReportDelivered k)
    have "tx_ok P q (handleMessageDelivered k s, w)"
      using assms(2) delete_keeps [of _ k "sentPackets s"]
      by (auto simp: sw handleMessageDelivered_def intro: tx_ok_fewer split: option.split)
    then show ?thesis by (simp add: ReportDelivered sw)
  qed (use assms in \<open>auto simp: sw tx_Close tx_inactivity tx_failed handleIncomingPacket_def SetDeadline_def SetWriteDeadline_def SetReadDeadline_def
      SetInactivityTimeout_def\<close>)
qed

end

end
