(* ===== verification/Stream_Link.thy ===== *)
theory Stream_Link
  imports Wire_Contract
begin

text \<open>
  Two connections talking to each other over I2CP, which may lose, repeat and reorder their messages.

  An endpoint is a connection with its world, the chunks it has written and the bytes it has read.  A step of an endpoint is any
  operation of its connection: a packet of \<^verbatim>\<open>Write\<close>, a \<^verbatim>\<open>Read\<close>, a message of the other side handed to
  \<^verbatim>\<open>handleIncomingPacket\<close>, a round of \<^verbatim>\<open>receiveLoop\<close>, \<^verbatim>\<open>Close\<close>, a timer tick, a delivery report.  Every direction of such a link is a byte pipe.  Left out
  are a send that I2CP refuses and the probes of the persist timer, which break the stream.
\<close>

section \<open>What leaves the received data alone\<close>

definition rxv :: "('d, 'b) conn_world \<Rightarrow> (u32 \<times> (u32, 'd Packet) gomap \<times> u32 list \<times> 'b) \<times> 'd Packet list" where
  "rxv sw = (core (fst sw), recvChan (fst sw))"

lemma rxv_updates [simp]:
  "rxv (s\<lparr>sendSeq := x1\<rparr>, w) = rxv (s, w)" "rxv (s\<lparr>ackThrough := x1\<rparr>, w) = rxv (s, w)"
  "rxv (s\<lparr>sentPackets := sp\<rparr>, w) = rxv (s, w)" "rxv (s\<lparr>nackCounts := nc\<rparr>, w) = rxv (s, w)"
  "rxv (s\<lparr>totalBytesSent := x2\<rparr>, w) = rxv (s, w)" "rxv (s\<lparr>ctxDone := b\<rparr>, w) = rxv (s, w)"
  "rxv (s\<lparr>lastActivity := i\<rparr>, w) = rxv (s, w)" "rxv (s\<lparr>conn_closed := b\<rparr>, w) = rxv (s, w)"
  "rxv (s\<lparr>readDeadline := dl\<rparr>, w) = rxv (s, w)" "rxv (s\<lparr>writeDeadline := dl\<rparr>, w) = rxv (s, w)"
  "rxv (s\<lparr>inactivityTimeout := i\<rparr>, w) = rxv (s, w)" "rxv (setState s st, w) = rxv (s, w)"
  "rxv (broadcast_recv s, w) = rxv (s, w)" "rxv (broadcast_send s, w) = rxv (s, w)"
  "rxv (stopPersistTimerLocked s, w) = rxv (s, w)" "rxv (applyExponentialBackoffLocked s, w) = rxv (s, w)"
  by (simp_all add: rxv_def core_def setState_def broadcast_recv_def broadcast_send_def stopPersist_eq
      applyExponentialBackoffLocked_def Let_def)

lemma rxv_world: "rxv (s, w') = rxv (s, w)"
  by (simp add: rxv_def)

lemma rxv_sends [simp]:
  "rxv (snd (sendAckLocked env sw)) = rxv sw" "rxv (snd (sendCloseLocked env sw)) = rxv sw"
proof -
  show "rxv (snd (sendAckLocked env sw)) = rxv sw"
    using control_sends_same(1) [of sw env] by (simp add: rxv_def ctl_same_def id_same_def)
  obtain s w r s' w' where sw: "sw = (s, w)" and sc: "sendCloseLocked env (s, w) = (r, s', w')" by (metis prod_cases3 surj_pair)
  obtain t where "s' = s\<lparr>lastActivity := t\<rparr>" by (rule sendClose_frame [OF sc])
  then show "rxv (snd (sendCloseLocked env sw)) = rxv sw" by (simp add: sw sc rxv_def core_def)
qed

lemma rxv_handleAck [simp]: "rxv (handleAckLocked env pkt sw) = rxv sw"
proof -
  obtain s w s' w' where sw: "sw = (s, w)" and h: "handleAckLocked env pkt (s, w) = (s', w')" by (metis surj_pair)
  from handleAck_facts(1,2) [OF h] show ?thesis by (simp add: sw h rxv_def core_def same_defs)
qed

lemma rxv_checkRetransmissions [simp]: "rxv (snd (checkRetransmissions env sw)) = rxv sw"
proof -
  obtain s w where sw: "sw = (s, w)" by fastforce
  have "rxv (snd (retransmitTimedOutPacketsLocked env qs (t, w))) = rxv (t, w)" for qs t
    using retransmitTimedOut_frame [of env qs t w] by (cases "retransmitTimedOutPacketsLocked env qs (t, w)") (auto simp: rxv_def core_def)
  then show ?thesis by (simp add: sw checkRetransmissions_def Let_def)
qed

lemma rxv_Close [simp]: "rxv (conn_Close env sw) = rxv sw"
proof -
  have "rxv (sendCloseIfEstablished env sw) = rxv sw"
    by (simp add: sendCloseIfEstablished_def Let_def split_beta)
  moreover have "rxv (cleanupConnectionLocked env (s, w)) = rxv (s, w)" for s w
    by (simp add: cleanupConnectionLocked_def wakeBlockedGoroutines_def Let_def rxv_world [of _ "UnregisterConnection lp rp w" w for lp rp])
      (simp add: rxv_def core_def stopPersist_eq broadcast_send_def broadcast_recv_def)
  ultimately show ?thesis by (simp add: conn_Close_def) (metis surj_pair)
qed

lemma rxv_sendDataChunk: "sendDataChunk env c sw = (None, sw') \<Longrightarrow> rxv sw' = rxv sw"
  by (cases sw; cases sw') (auto elim!: sendDataChunk_sent simp: rxv_def core_def)

lemma rxv_inactivity: "rxv (checkInactivity env sw) = rxv sw"
proof -
  obtain r s w where sa: "sendAckLocked env sw = (r, s, w)" by (metis prod_cases3)
  have "rxv (s, w) = rxv sw" using rxv_sends(1) [of env sw] by (simp add: sa)
  with sa show ?thesis by (cases sw; cases r) (auto simp: checkInactivity_def Let_def)
qed

lemma rxv_reports:
  "rxv (handleMessageDelivered k s, w) = rxv (s, w)" "rxv (handleMessageFailed env k b sw) = rxv sw"
  by (auto simp: handleMessageDelivered_def split: option.split)
    (cases sw; auto simp: handleMessageFailed_def rxv_def core_def Let_def split: option.split)

text \<open>A packet is data for the stream, or it does not touch the received data.\<close>

lemma rxv_dispatch:
  assumes "conn_state (fst sw) \<noteq> StateSynSent"
  shows "rxv (snd (dispatchPacketByFlags env pkt sw)) = rxv sw \<or>
    Payload pkt \<noteq> [] \<and> snd (dispatchPacketByFlags env pkt sw) = handleDataLocked env pkt sw"
proof -
  obtain s w where sw: "sw = (s, w)" by fastforce
  have "rxv (snd (handleSynAckLocked env pkt (s, w))) = rxv (s, w)" using assms by (simp add: sw handleSynAckLocked_def)
  moreover have "rxv (snd (handleCloseLocked env pkt (s, w))) = rxv (s, w)"
    by (cases "verifyIfSigned env pkt"; cases "conn_state s") (simp_all add: handleCloseLocked_def Let_def split_beta)
  moreover have "rxv (snd (handleResetLocked env pkt (s, w))) = rxv (s, w)"
    by (cases "verifyIfSigned env pkt") (simp_all add: handleResetLocked_def Let_def)
  ultimately show ?thesis by (simp add: sw dispatchPacketByFlags_def handleFinalAckLocked_def)
qed

section \<open>Endpoints and links\<close>

record ('d, 'b) endpoint =
  ep_conn :: "('d, 'b) conn_world"
  ep_put :: "byte list list"
  ep_got :: "byte list"

text \<open>The operations an endpoint does by itself, without writing or reading.\<close>

fun internal :: "'d conn_op \<Rightarrow> bool" where
  "internal (Deliver pick pkt) = False"
| "internal (Send chunk) = False"
| "internal (ReadBytes n) = False"
| "internal PersistTick = False"
| "internal _ = True"

text \<open>
  One step of an endpoint, \<open>incoming\<close> being all the other side has handed to I2CP.  A packet of \<^verbatim>\<open>Write\<close> is sent when its checks
  and waits let it through; reads happen while the ring buffer has not overwritten an unread byte.
\<close>

inductive ep_step :: "('d, 'c, 'k, 'b) env \<Rightarrow> 'd message list \<Rightarrow> ('d, 'b) endpoint \<Rightarrow> ('d, 'b) endpoint \<Rightarrow> bool"
  for env incoming where
  ep_internal: "ep_step env incoming e (e\<lparr>ep_conn := conn_do env oper (ep_conn e)\<rparr>)"
    if "internal oper"
| ep_receive: "ep_step env incoming e (e\<lparr>ep_conn := conn_do env (Deliver pick pkt) (ep_conn e)\<rparr>)"
    if "m \<in> set incoming" and "Unmarshal (e_lib env) emptyPacket (msg_data m) = Ok pkt"
| ep_write: "ep_step env incoming e (e\<lparr>ep_conn := sw, ep_put := ep_put e @ [chunk]\<rparr>)"
    if "validateWriteStateLocked (ep_conn e) = None" and "\<not> windowFull_send (fst (ep_conn e))"
      and "chunk \<noteq> []" and "sendDataChunk env chunk (ep_conn e) = (None, sw)" and "length (ep_put e) + 1 < 2 ^ 31"
| ep_read: "ep_step env incoming e (e\<lparr>ep_conn := sw, ep_got := ep_got e @ data\<rparr>)"
    if "conn_Read env [] n (ep_conn e) = Some (data, None, sw)"
      and "cb_TotalWritten (e_circ env) (recvBuf (fst (ep_conn e))) \<le> cb_Size (e_circ env) (recvBuf (fst (ep_conn e)))"

inductive link_reach :: "('d, 'c, 'k, 'b) env \<Rightarrow> ('d, 'c, 'k, 'b) env \<Rightarrow> ('d, 'b) endpoint \<Rightarrow> ('d, 'b) endpoint \<Rightarrow>
    ('d, 'b) endpoint \<Rightarrow> ('d, 'b) endpoint \<Rightarrow> bool"
  for ea eb a0 b0 where
  link_begin: "link_reach ea eb a0 b0 a0 b0"
| link_left: "link_reach ea eb a0 b0 a' b" if "link_reach ea eb a0 b0 a b" and "ep_step ea (w_wire (snd (ep_conn b))) a a'"
| link_right: "link_reach ea eb a0 b0 a b'" if "link_reach ea eb a0 b0 a b" and "ep_step eb (w_wire (snd (ep_conn a))) b b'"

text \<open>Two endpoints after the handshake: nothing written yet, each expects the next sequence number of the other.\<close>

definition ep_fresh :: "('d, 'c, 'k, 'b) env \<Rightarrow> ('d, 'b) endpoint \<Rightarrow> bool" where
  "ep_fresh env e \<longleftrightarrow> ep_put e = [] \<and> ep_got e = [] \<and>
     (let (s, w) = ep_conn e in
        conn_inv s \<and> (conn_state s = StateSynRcvd \<or> conn_state s = StateEstablished) \<and>
        sentPackets s = [] \<and> recvChan s = [] \<and> outOfOrderPackets s = [] \<and> nackList s = [] \<and>
        cb_Bytes (e_circ env) (recvBuf s) = [] \<and> cb_TotalWritten (e_circ env) (recvBuf s) = 0 \<and>
        (\<forall>m\<in>set (w_wire w). \<forall>p. Unmarshal (e_lib env) emptyPacket (msg_data m) = Ok p \<longrightarrow> Payload p = []))"

definition link_start :: "('d, 'c, 'k, 'b) env \<Rightarrow> ('d, 'c, 'k, 'b) env \<Rightarrow> ('d, 'b) endpoint \<Rightarrow> ('d, 'b) endpoint \<Rightarrow> bool" where
  "link_start ea eb a b \<longleftrightarrow> ep_fresh ea a \<and> ep_fresh eb b \<and>
     recvSeq (fst (ep_conn b)) = sendSeq (fst (ep_conn a)) \<and> recvSeq (fst (ep_conn a)) = sendSeq (fst (ep_conn b))"

section \<open>The stream of one direction\<close>

text \<open>A packet that belongs to the stream of the chunks \<open>cs\<close>, or carries no data.\<close>

definition of_stream :: "u32 \<Rightarrow> byte list list \<Rightarrow> 'd Packet \<Rightarrow> bool" where
  "of_stream base cs p \<longleftrightarrow> Payload p = [] \<or> (\<exists>j. stream_packet base (\<lambda>i. cs ! i) (length cs) j p)"

definition reads_stream :: "('d, 'c, 'k) i2plib \<Rightarrow> u32 \<Rightarrow> byte list list \<Rightarrow> byte list \<Rightarrow> bool" where
  "reads_stream lib base cs bytes \<longleftrightarrow> (\<forall>p. Unmarshal lib emptyPacket bytes = Ok p \<longrightarrow> of_stream base cs p)"

text \<open>What holds of the messages of a side that has written \<open>cs\<close>, as the other side reads them.\<close>

lemma plain_reads:
  assumes "lib_ok lib" and "plain p" and "checked (Marshal lib p) = Inr data"
  shows "reads_stream lib base cs data"
proof -
  have "marshalable lib p" "data = wire_format lib p" using checked_Marshal [OF assms(3)] by simp_all
  with received_packet [OF assms(1), of p] assms(2) show ?thesis
    by (auto simp: reads_stream_def of_stream_def plain_def)
qed

interpretation stream_wire: wire_contract env "\<lambda>bytes. lib_ok (e_lib env) \<longrightarrow> reads_stream (e_lib env) base cs bytes"
  for env :: "('d, 'c, 'k, 'b) env" and base cs
  by unfold_locales (auto intro: plain_reads)

lemma stream_packet_more:
  "stream_packet base (\<lambda>i. cs ! i) (length cs) i p \<Longrightarrow> stream_packet base (\<lambda>i. (cs @ [c]) ! i) (length (cs @ [c])) i p"
  by (auto simp: stream_packet_def nth_append)

lemma of_stream_more: "of_stream base cs p \<Longrightarrow> of_stream base (cs @ [c]) p"
  unfolding of_stream_def by (blast dest: stream_packet_more)

lemma reads_stream_more: "reads_stream lib base cs bytes \<Longrightarrow> reads_stream lib base (cs @ [c]) bytes"
  by (auto simp: reads_stream_def of_stream_more)

lemma rx_stable_more:
  assumes "rx_stable env base (\<lambda>i. cs ! i) (length cs) sz k u s"
  shows "rx_stable env base (\<lambda>i. (cs @ [c]) ! i) (length (cs @ [c])) sz k u s"
proof -
  have "\<exists>i. k \<le> i \<and> stream_packet base (\<lambda>i. (cs @ [c]) ! i) (length (cs @ [c])) i p"
    if "\<exists>i. k \<le> i \<and> stream_packet base (\<lambda>i. cs ! i) (length cs) i p" for p :: "'a Packet"
    using that stream_packet_more by blast
  with assms show ?thesis unfolding rx_stable_def rx_inv_def by (simp add: case_prod_unfold) (meson less_SucI)
qed

section \<open>The invariant of one direction\<close>

definition live :: "('d, 'b) endpoint \<Rightarrow> bool" where
  "live e \<longleftrightarrow> conn_inv (fst (ep_conn e)) \<and> conn_state (fst (ep_conn e)) \<noteq> StateInit \<and> conn_state (fst (ep_conn e)) \<noteq> StateSynSent"

text \<open>
  From \<open>x\<close> to \<open>y\<close>: \<open>x\<close> numbers its chunks from \<open>base\<close>; all its messages and tracked packets read as packets of its stream; so are the packets
  queued at \<open>y\<close>; and \<open>y\<close> has read and buffered the payloads of the first \<open>k\<close> packets.
\<close>

definition tx_stream :: "('d, 'c, 'k, 'b) env \<Rightarrow> u32 \<Rightarrow> ('d, 'b) endpoint \<Rightarrow> bool" where
  "tx_stream env base x \<longleftrightarrow> length (ep_put x) < 2 ^ 31 \<and>
     tx_ok (\<lambda>bytes. lib_ok (e_lib env) \<longrightarrow> reads_stream (e_lib env) base (ep_put x) bytes)
       (seq_at base (length (ep_put x))) (ep_conn x)"

definition rx_stream :: "('d, 'c, 'k, 'b) env \<Rightarrow> u32 \<Rightarrow> int \<Rightarrow> byte list list \<Rightarrow> ('d, 'b) endpoint \<Rightarrow> bool" where
  "rx_stream env base sz cs y \<longleftrightarrow> (\<forall>p\<in>set (recvChan (fst (ep_conn y))). of_stream base cs p) \<and>
     (\<exists>k u. rx_stable env base (\<lambda>i. cs ! i) (length cs) sz k u (fst (ep_conn y)) \<and>
        ep_got y @ u = concat (map (\<lambda>i. cs ! i) [0..<k]))"

lemma rx_stream_rxv:
  assumes "rxv (ep_conn y') = rxv (ep_conn y)" and "ep_got y' = ep_got y"
  shows "rx_stream env base sz cs y' = rx_stream env base sz cs y"
proof -
  have "core (fst (ep_conn y')) = core (fst (ep_conn y))" "recvChan (fst (ep_conn y')) = recvChan (fst (ep_conn y))"
    using assms(1) by (simp_all add: rxv_def)
  moreover from this(1) have "rx_stable env base pl N sz k u (fst (ep_conn y')) = rx_stable env base pl N sz k u (fst (ep_conn y))" for pl N k u
    by (rule rx_stable_core [THEN conjunct1])
  ultimately show ?thesis using assms(2) by (simp add: rx_stream_def)
qed

lemma rx_stream_more: "rx_stream env base sz cs y \<Longrightarrow> rx_stream env base sz (cs @ [c]) y"
proof -
  assume r: "rx_stream env base sz cs y"
  then obtain k u where k: "rx_stable env base (\<lambda>i. cs ! i) (length cs) sz k u (fst (ep_conn y))"
    "ep_got y @ u = concat (map (\<lambda>i. cs ! i) [0..<k])" by (auto simp: rx_stream_def)
  have "k \<le> length cs" using k(1) by (simp add: rx_stable_def rx_inv_def)
  then have e: "map (\<lambda>i. (cs @ [c]) ! i) [0..<k] = map (\<lambda>i. cs ! i) [0..<k]" by (intro map_cong) (simp_all add: nth_append)
  have "\<exists>k u. rx_stable env base (\<lambda>i. (cs @ [c]) ! i) (length (cs @ [c])) sz k u (fst (ep_conn y)) \<and>
      ep_got y @ u = concat (map (\<lambda>i. (cs @ [c]) ! i) [0..<k])"
    by (intro exI [of _ k] exI [of _ u] conjI rx_stable_more k(1)) (simp only: k(2) e)
  with r show ?thesis unfolding rx_stream_def using of_stream_more by blast
qed

lemma live_step:
  assumes "ep_step env inc e e'" and "live e"
  shows "live e'"
proof -
  have keep: "live (e\<lparr>ep_conn := sw\<rparr>)" if "advances (fst (ep_conn e)) (fst sw)" for sw
    using that assms(2) by (cases "conn_state (fst (ep_conn e))"; cases "conn_state (fst sw)")
      (auto simp: live_def advances_def later_state_def)
  from assms(1) show ?thesis
  proof cases
    case (ep_internal oper)
    with keep [OF conn_do_advances] show ?thesis by simp
  next
    case (ep_receive m pkt pick)
    with keep [OF conn_do_advances] show ?thesis by blast
  next
    case (ep_write chunk sw)
    with sendDataChunk_advances [of "ep_conn e" env chunk] keep [of sw] show ?thesis by (simp add: live_def)
  next
    case (ep_read n data sw)
    with conn_do_advances [of "ep_conn e" env "ReadBytes n"] keep [of sw] show ?thesis by (simp add: live_def)
  qed
qed

section \<open>Steps of the sending side\<close>

lemma internal_numbers: "internal oper \<Longrightarrow> \<not> numbers_packets oper"
  by (cases oper) auto

lemma dataPacket_reads:
  "sendSeq s = seq_at base (length cs) \<Longrightarrow> lib_ok lib \<Longrightarrow> reads_stream lib base (cs @ [c]) (wire_format lib (dataPacket s c))"
  using received_packet [of lib "dataPacket s c"]
  by (auto simp: reads_stream_def of_stream_def stream_packet_def hasFlag_def marshalable_def)

lemma tx_step:
  assumes "ep_step env inc x x'" and "tx_stream env base x"
  shows "tx_stream env base x'"
proof -
  let ?P = "\<lambda>cs bytes. lib_ok (e_lib env) \<longrightarrow> reads_stream (e_lib env) base cs bytes"
  have t: "length (ep_put x) < 2 ^ 31" "tx_ok (?P (ep_put x)) (seq_at base (length (ep_put x))) (ep_conn x)"
    using assms(2) by (simp_all add: tx_stream_def)
  from assms(1) show ?thesis
  proof cases
    case (ep_internal oper)
    with stream_wire.tx_conn_do [OF internal_numbers t(2)] t(1) show ?thesis by (simp add: tx_stream_def)
  next
    case (ep_receive m pkt pick)
    have "tx_ok (?P (ep_put x)) (seq_at base (length (ep_put x))) (conn_do env (Deliver pick pkt) (ep_conn x))"
      by (rule stream_wire.tx_conn_do [OF _ t(2)]) simp
    with ep_receive t(1) show ?thesis by (simp add: tx_stream_def)
  next
    case (ep_write chunk sw)
    obtain s w s' w' where c: "ep_conn x = (s, w)" "sw = (s', w')" by (metis surj_pair)
    have q: "sendSeq s = seq_at base (length (ep_put x))" using t(2) by (simp add: tx_ok_def c)
    have "tx_ok (?P (ep_put x @ [chunk])) (seq_at base (length (ep_put x))) (s, w)"
      using t(2) unfolding c by (rule tx_ok_mono) (simp add: reads_stream_more)
    from tx_ok_sendDataChunk [OF this _ ep_write(5) [unfolded c]] dataPacket_reads [OF q, of "e_lib env" chunk] ep_write(6)
    show ?thesis by (simp add: ep_write(1) tx_stream_def c seq_at_Suc)
  next
    case (ep_read n data sw)
    with stream_wire.tx_Read [OF t(2)] t(1) show ?thesis by (simp add: tx_stream_def)
  qed
qed

section \<open>Steps of the receiving side\<close>

lemma rx_stream_data:
  assumes "circ_ok (e_circ env)" and "length cs < 2 ^ 31" and "rx_stream env base sz cs y"
    and "stream_packet base (\<lambda>i. cs ! i) (length cs) j p"
  shows "rx_stream env base sz cs (y\<lparr>ep_conn := handleDataLocked env p (ep_conn y)\<rparr>)"
proof -
  obtain s w s' w' where sw: "ep_conn y = (s, w)" and h: "handleDataLocked env p (s, w) = (s', w')" by (metis surj_pair)
  from assms(3) obtain k u where k: "rx_stable env base (\<lambda>i. cs ! i) (length cs) sz k u s"
    "ep_got y @ u = concat (map (\<lambda>i. cs ! i) [0..<k])" and q: "\<forall>p\<in>set (recvChan s). of_stream base cs p"
    by (auto simp: rx_stream_def sw)
  from handleData_step [OF assms(1,2) k(1) assms(4), of w] obtain k' where k': "k \<le> k'"
    "rx_stable env base (\<lambda>i. cs ! i) (length cs) sz k' (u @ concat (map (\<lambda>i. cs ! i) [k..<k'])) s'"
    unfolding h fst_conv by blast
  have "data_inv s" using k(1) by (simp add: rx_stable_def rx_inv_def data_inv_def)
  from handleData_quiet(2) [OF this, of env p w] have c: "recvChan s' = recvChan s" by (simp add: h quiet_def id_same_def)
  have "[0..<k'] = [0..<k] @ [k..<k']" using k'(1) by (metis le0 le_iff_add upt_add_eq_append)
  then have "ep_got y @ u @ concat (map (\<lambda>i. cs ! i) [k..<k']) = concat (map (\<lambda>i. cs ! i) [0..<k'])"
    using k(2) by (simp flip: append_assoc)
  with k'(2) q c show ?thesis unfolding rx_stream_def by (auto simp: sw h)
qed

lemma rx_stream_Receive:
  assumes "circ_ok (e_circ env)" and "length cs < 2 ^ 31" and "live y" and "rx_stream env base sz cs y"
  shows "rx_stream env base sz cs (y\<lparr>ep_conn := conn_do env (Receive pick) (ep_conn y)\<rparr>)"
proof (cases "receiveLoop_round env pick (ep_conn y)")
  case None
  with assms(4) show ?thesis by simp
next
  case (Some sw')
  obtain s w where sw: "ep_conn y = (s, w)" by fastforce
  from Some obtain p ps where p: "recvChan s = p # ps" "sw' = snd (processPacket env p (s\<lparr>recvChan := ps\<rparr>, w))"
    by (auto simp: sw receiveLoop_round_def split: list.splits if_splits)
  define y0 where "y0 = y\<lparr>ep_conn := (s\<lparr>recvChan := ps, lastActivity := w_now w\<rparr>, w)\<rparr>"
  have sw': "sw' = snd (dispatchPacketByFlags env p (ep_conn y0))" by (simp add: p(2) processPacket_def y0_def)
  have "core (s\<lparr>recvChan := ps, lastActivity := w_now w\<rparr>) = core s" by (simp add: core_def)
  from rx_stable_core [OF this, where env = env, THEN conjunct1] assms(4) p(1) have y0: "rx_stream env base sz cs y0" and pk: "of_stream base cs p"
    by (simp_all add: rx_stream_def sw y0_def)
  have "conn_state (fst (ep_conn y0)) \<noteq> StateSynSent" using assms(3) by (simp add: live_def sw y0_def)
  from rxv_dispatch [OF this, of env p] show ?thesis
  proof (elim disjE conjE)
    assume "rxv (snd (dispatchPacketByFlags env p (ep_conn y0))) = rxv (ep_conn y0)"
    with y0 rx_stream_rxv [of "y\<lparr>ep_conn := sw'\<rparr>" y0 env] Some show ?thesis by (simp add: sw' y0_def)
  next
    assume d: "Payload p \<noteq> []" "snd (dispatchPacketByFlags env p (ep_conn y0)) = handleDataLocked env p (ep_conn y0)"
    with pk obtain j where "stream_packet base (\<lambda>i. cs ! i) (length cs) j p" by (auto simp: of_stream_def)
    from rx_stream_data [OF assms(1,2) y0 this] d(2) Some show ?thesis by (simp add: sw' y0_def)
  qed
qed

lemma rxv_internal:
  assumes "internal oper" and "\<And>pick. oper \<noteq> Receive pick"
  shows "rxv (conn_do env oper sw) = rxv sw"
proof -
  obtain s w where sw: "sw = (s, w)" by fastforce
  obtain r s1 w1 where c: "checkRetransmissions env (s, w) = (r, s1, w1)" by (metis prod_cases3)
  have "rxv (s1, w1) = rxv (s, w)" using rxv_checkRetransmissions [of env "(s, w)"] by (simp add: c)
  then have "rxv (retransmitTick env (s, w)) = rxv (s, w)" by (cases r) (simp_all add: retransmitTick_def c)
  moreover have "rxv (s, w\<lparr>w_now := i\<rparr>) = rxv (s, w)" for i by (rule rxv_world)
  ultimately show ?thesis using assms
    by (cases oper) (auto simp: sw rxv_inactivity rxv_reports SetDeadline_def SetWriteDeadline_def SetReadDeadline_def SetInactivityTimeout_def)
qed

lemma rx_stream_read:
  assumes "circ_ok (e_circ env)" and "rx_stream env base sz cs y" and "conn_Read env [] n (ep_conn y) = Some (data, None, sw)"
    and "cb_TotalWritten (e_circ env) (recvBuf (fst (ep_conn y))) \<le> cb_Size (e_circ env) (recvBuf (fst (ep_conn y)))"
  shows "rx_stream env base sz cs (y\<lparr>ep_conn := sw, ep_got := ep_got y @ data\<rparr>)"
proof -
  obtain s w s' w' where c: "ep_conn y = (s, w)" "sw = (s', w')" by (metis surj_pair)
  from assms(2) obtain k u where k: "rx_stable env base (\<lambda>i. cs ! i) (length cs) sz k u s"
    "ep_got y @ u = concat (map (\<lambda>i. cs ! i) [0..<k])" and q: "\<forall>p\<in>set (recvChan s). of_stream base cs p"
    by (auto simp: rx_stream_def c)
  have "int (length u) \<le> sz" "data_inv s" using k(1) assms(4) by (simp_all add: c rx_stable_def rx_inv_def data_inv_def)
  with read_step [OF assms(1) k(1) _ assms(3) [unfolded c]] Read_quiet [OF assms(3) [unfolded c]]
  have "data = take n u" "rx_stable env base (\<lambda>i. cs ! i) (length cs) sz k (drop n u) s'" "recvChan s' = recvChan s"
    by (simp_all add: quiet_def id_same_def)
  with k(2) q show ?thesis unfolding rx_stream_def by (auto simp: c intro!: exI [of _ k] exI [of _ "drop n u"])
qed

lemma rx_step:
  assumes "circ_ok (e_circ env)" and "length cs < 2 ^ 31" and "live y" and "rx_stream env base sz cs y"
    and "ep_step env inc y y'" and "\<forall>m\<in>set inc. reads_stream (e_lib env) base cs (msg_data m)"
  shows "rx_stream env base sz cs y'"
  using assms(5)
proof cases
  case (ep_internal oper)
  show ?thesis
  proof (cases "\<exists>pick. oper = Receive pick")
    case True
    with rx_stream_Receive [OF assms(1-4)] ep_internal(1) show ?thesis by auto
  next
    case False
    with rxv_internal [OF ep_internal(2), of env "ep_conn y"] rx_stream_rxv [of y' y env] assms(4) show ?thesis
      by (simp add: ep_internal(1))
  qed
next
  case (ep_receive m pkt pick)
  obtain s w where sw: "ep_conn y = (s, w)" by fastforce
  have g: "of_stream base cs pkt" using assms(6) ep_receive(2,3) by (simp add: reads_stream_def)
  have "core (snd (handleIncomingPacket pick pkt s)) = core s"
    "set (recvChan (snd (handleIncomingPacket pick pkt s))) \<subseteq> insert pkt (set (recvChan s))"
    by (auto simp: handleIncomingPacket_def core_def)
  with g assms(4) rx_stable_core [of "snd (handleIncomingPacket pick pkt s)" s env, THEN conjunct1] show ?thesis
    unfolding rx_stream_def ep_receive(1) by (auto simp: sw)
next
  case (ep_write chunk sw)
  with rx_stream_rxv [of y' y env] rxv_sendDataChunk [OF ep_write(5)] assms(4) show ?thesis by simp
next
  case (ep_read n data sw)
  with rx_stream_read [OF assms(1,4) ep_read(2,3)] show ?thesis by simp
qed

section \<open>Links\<close>

lemma fresh_tx: "ep_fresh env e \<Longrightarrow> live e \<and> tx_stream env (sendSeq (fst (ep_conn e))) e"
  unfolding ep_fresh_def
  by (auto simp: live_def tx_stream_def tx_ok_def reads_stream_def of_stream_def seq_at_def)

lemma fresh_rx:
  "ep_fresh env e \<Longrightarrow> rx_stream env (recvSeq (fst (ep_conn e))) (cb_Size (e_circ env) (recvBuf (fst (ep_conn e)))) [] e"
  unfolding ep_fresh_def
  by (auto simp: rx_stream_def rx_stable_def rx_inv_def seq_at_def lastn_def buffered_def)

lemma link_invariant:
  assumes "link_reach ea eb a0 b0 a b" and "lib_ok (e_lib ea)" and "e_lib eb = e_lib ea"
    and "circ_ok (e_circ ea)" and "circ_ok (e_circ eb)" and "link_start ea eb a0 b0"
    and "base = sendSeq (fst (ep_conn a0))" and "base' = sendSeq (fst (ep_conn b0))"
    and "sz = cb_Size (e_circ eb) (recvBuf (fst (ep_conn b0)))" and "sz' = cb_Size (e_circ ea) (recvBuf (fst (ep_conn a0)))"
  shows "live a \<and> live b \<and> tx_stream ea base a \<and> rx_stream eb base sz (ep_put a) b \<and>
    tx_stream eb base' b \<and> rx_stream ea base' sz' (ep_put b) a"
  using assms(1)
proof (induction rule: link_reach.induct)
  case link_begin
  have "ep_put a0 = []" "ep_put b0 = []" using assms(6) by (simp_all add: link_start_def ep_fresh_def)
  with fresh_tx [of ea a0] fresh_tx [of eb b0] fresh_rx [of ea a0] fresh_rx [of eb b0] assms(6-) show ?case by (simp add: link_start_def)
next
  case (link_left a b a')
  have "\<forall>m\<in>set (w_wire (snd (ep_conn b))). reads_stream (e_lib ea) base' (ep_put b) (msg_data m)"
    using link_left.IH assms(2,3) by (simp add: tx_stream_def tx_ok_def)
  moreover have "length (ep_put b) < 2 ^ 31" using link_left.IH by (simp add: tx_stream_def)
  ultimately have r: "rx_stream ea base' sz' (ep_put b) a'"
    using link_left rx_step [OF assms(4)] by blast
  have "live a'" "tx_stream ea base a'" using link_left live_step tx_step by blast+
  moreover have "rx_stream eb base sz (ep_put a') b"
    using link_left.hyps(2) by cases (use link_left.IH in \<open>simp_all add: rx_stream_more\<close>)
  ultimately show ?case using r link_left.IH by simp
next
  case (link_right a b b')
  have "\<forall>m\<in>set (w_wire (snd (ep_conn a))). reads_stream (e_lib eb) base (ep_put a) (msg_data m)"
    using link_right.IH assms(2,3) by (simp add: tx_stream_def tx_ok_def)
  moreover have "length (ep_put a) < 2 ^ 31" using link_right.IH by (simp add: tx_stream_def)
  ultimately have r: "rx_stream eb base sz (ep_put a) b'"
    using link_right rx_step [OF assms(5)] by blast
  have "live b'" "tx_stream eb base' b'" using link_right live_step tx_step by blast+
  moreover have "rx_stream ea base' sz' (ep_put b') a"
    using link_right.hyps(2) by cases (use link_right.IH in \<open>simp_all add: rx_stream_more\<close>)
  ultimately show ?case using r link_right.IH by simp
qed

section \<open>The abstract pipe\<close>

text \<open>A pipe is what has been written into it and what has been read from it: writing appends, reading takes the next bytes.\<close>

inductive pipe_step :: "byte list \<times> byte list \<Rightarrow> byte list \<times> byte list \<Rightarrow> bool" where
  pipe_write: "pipe_step (written, got) (written @ chunk, got)"
| pipe_read: "pipe_step (written, got) (written, got @ data)" if "prefix (got @ data) written"

definition pipe :: "('d, 'b) endpoint \<Rightarrow> ('d, 'b) endpoint \<Rightarrow> byte list \<times> byte list" where
  "pipe x y = (concat (ep_put x), ep_got y)"

lemma pipe_prefix: "pipe_step\<^sup>*\<^sup>* ([], []) (written, got) \<Longrightarrow> prefix got written"
  by (induction rule: rtranclp_induct2) (auto elim!: pipe_step.cases)

lemma rx_stream_prefix:
  assumes "rx_stream env base sz cs y" and "length cs < 2 ^ 31"
  shows "prefix (ep_got y) (concat cs)"
    and "recvSeq (fst (ep_conn y)) = seq_at base (length cs) \<Longrightarrow> cb_TotalWritten (e_circ env) (recvBuf (fst (ep_conn y))) = 0 \<Longrightarrow>
      ep_got y = concat cs"
proof -
  from assms(1) obtain k u where k: "rx_stable env base (\<lambda>i. cs ! i) (length cs) sz k u (fst (ep_conn y))"
    "ep_got y @ u = concat (map (\<lambda>i. cs ! i) [0..<k])" by (auto simp: rx_stream_def)
  have i: "k \<le> length cs" "recvSeq (fst (ep_conn y)) = seq_at base k"
    "cb_TotalWritten (e_circ env) (recvBuf (fst (ep_conn y))) = int (length u)" using k(1) by (simp_all add: rx_stable_def rx_inv_def)
  have "map (\<lambda>i. cs ! i) [0..<k] = take k cs" using i(1) by (simp add: list_eq_iff_nth_eq)
  then have g: "ep_got y @ u = concat (take k cs)" using k(2) by simp
  have "concat cs = concat (take k cs) @ concat (drop k cs)" by (metis append_take_drop_id concat_append)
  with g show "prefix (ep_got y) (concat cs)" by (metis append.assoc prefix_def)
  show "ep_got y = concat cs" if "recvSeq (fst (ep_conn y)) = seq_at base (length cs)"
    "cb_TotalWritten (e_circ env) (recvBuf (fst (ep_conn y))) = 0"
  proof -
    have "k = length cs" using that(1) i(1,2) assms(2) seq_at_inj [of k "length cs" base] by simp
    with g that(2) i(3) show ?thesis by simp
  qed
qed

text \<open>A step of an endpoint writes to the one pipe, reads from the other, or does neither.\<close>

lemma ep_step_pipe:
  assumes "ep_step env inc e e'" and "prefix (ep_got e') (concat (ep_put y))"
  shows "pipe_step\<^sup>=\<^sup>= (pipe e y) (pipe e' y) \<and> pipe_step\<^sup>=\<^sup>= (pipe y e) (pipe y e')"
  using assms(1)
proof cases
  case (ep_write chunk sw)
  then show ?thesis using pipe_write [of "concat (ep_put e)" "ep_got y" chunk] by (simp add: pipe_def)
next
  case (ep_read n data sw)
  then show ?thesis using pipe_read [of "ep_got e" data "concat (ep_put y)"] assms(2) by (simp add: pipe_def)
qed (simp_all add: pipe_def)

lemma link_pipes:
  assumes "link_reach ea eb a0 b0 a b" and "lib_ok (e_lib ea)" and "e_lib eb = e_lib ea"
    and "circ_ok (e_circ ea)" and "circ_ok (e_circ eb)" and "link_start ea eb a0 b0"
  shows "pipe_step\<^sup>*\<^sup>* ([], []) (pipe a b) \<and> pipe_step\<^sup>*\<^sup>* ([], []) (pipe b a)"
  using assms(1)
proof (induction rule: link_reach.induct)
  case link_begin
  show ?case using assms(6) by (simp add: link_start_def ep_fresh_def pipe_def)
next
  case (link_left a b a')
  note i = link_invariant [OF link_reach.link_left [OF link_left.hyps] assms(2-6) refl refl refl refl]
  then have "prefix (ep_got a') (concat (ep_put b))" by (auto intro: rx_stream_prefix(1) simp: tx_stream_def)
  from ep_step_pipe [OF link_left.hyps(2) this] link_left.IH show ?case by (auto intro: rtranclp.rtrancl_into_rtrancl)
next
  case (link_right a b b')
  note i = link_invariant [OF link_reach.link_right [OF link_right.hyps] assms(2-6) refl refl refl refl]
  then have "prefix (ep_got b') (concat (ep_put a))" by (auto intro: rx_stream_prefix(1) simp: tx_stream_def)
  from ep_step_pipe [OF link_right.hyps(2) this] link_right.IH show ?case by (auto intro: rtranclp.rtrancl_into_rtrancl)
qed

section \<open>A whole Write on a link\<close>

text \<open>What the goroutines of an endpoint do while a writer waits: steps of the endpoint that write and read nothing.\<close>

definition quiet_run :: "('d, 'c, 'k, 'b) env \<Rightarrow> 'd message list \<Rightarrow> ('d, 'b) conn_world \<Rightarrow> ('d, 'b) conn_world \<Rightarrow> bool" where
  "quiet_run env inc sw sw' \<longleftrightarrow> (\<forall>cs g. (ep_step env inc)\<^sup>*\<^sup>* \<lparr>ep_conn = sw, ep_put = cs, ep_got = g\<rparr> \<lparr>ep_conn = sw', ep_put = cs, ep_got = g\<rparr>)"

lemma quiet_run_order: "reflp (quiet_run env inc)" "transp (quiet_run env inc)"
proof -
  show "reflp (quiet_run env inc)" by (simp add: reflp_def quiet_run_def)
  show "transp (quiet_run env inc)" unfolding transp_def quiet_run_def by (meson rtranclp_trans)
qed

lemma ep_write_step:
  assumes "validateWriteStateLocked sw = None" and "\<not> windowFull_send (fst sw)" and "chunk \<noteq> []"
    and "sendDataChunk env chunk sw = (None, sw')" and "length cs + 1 < 2 ^ 31"
  shows "ep_step env inc \<lparr>ep_conn = sw, ep_put = cs, ep_got = g\<rparr> \<lparr>ep_conn = sw', ep_put = cs @ [chunk], ep_got = g\<rparr>"
  using ep_write [where e = "\<lparr>ep_conn = sw, ep_put = cs, ep_got = g\<rparr>" and chunk = chunk and sw = sw' and env = env and incoming = inc] assms
  by simp

lemma writeChunks_link:
  assumes "0 < mtu" and "writeChunksLocked env waits data totalLen mtu sw = Some (n, None, sw')"
    and "validateWriteStateLocked sw = None" and "\<And>f sw. f \<in> set waits \<Longrightarrow> quiet_run env inc sw (f sw)"
    and "length cs + length data < 2 ^ 31"
  shows "\<exists>ds. (ep_step env inc)\<^sup>*\<^sup>* \<lparr>ep_conn = sw, ep_put = cs, ep_got = g\<rparr> \<lparr>ep_conn = sw', ep_put = cs @ ds, ep_got = g\<rparr> \<and> concat ds = data"
  using assms(2-)
proof (induction "length data" arbitrary: data waits sw cs rule: less_induct)
  case less
  show ?case
  proof (cases "data = []")
    case True
    with less.prems(1) show ?thesis by (intro exI [of _ "[]"]) (simp add: writeChunksLocked.simps)
  next
    case False
    obtain ws sw1 sw2 where ww: "wait_loop (\<lambda>sw. windowFull_send (fst sw)) waits sw = Some (None, ws, sw1)"
      and sd: "sendDataChunk env (take mtu data) sw1 = (None, sw2)"
      and rec: "writeChunksLocked env ws (drop mtu data) totalLen mtu sw2 = Some (n, None, sw')"
      using writeChunks_round [OF less.prems(1) False] unfolding waits_are_loops by metis
    from wait_loop_rely [OF ww, of "quiet_run env inc"] less.prems(3) quiet_run_order [of env inc] have
      q: "quiet_run env inc sw sw1" and ws: "set ws \<subseteq> set waits" by auto
    note free = wait_loop_free [OF ww less.prems(2)]
    have ne: "take mtu data \<noteq> []" using False assms(1) by simp
    have v2: "validateWriteStateLocked sw2 = None"
      using sd free by (cases sw1; cases sw2) (auto simp: validate_ok checkWriteDeadlineLocked_def elim!: sendDataChunk_sent)
    have l: "length (drop mtu data) < length data" "length (cs @ [take mtu data]) + length (drop mtu data) < 2 ^ 31" "length cs + 1 < 2 ^ 31"
      using False assms(1) less.prems(4) by (cases data; simp)+
    have w: "ep_step env inc \<lparr>ep_conn = sw1, ep_put = cs, ep_got = g\<rparr> \<lparr>ep_conn = sw2, ep_put = cs @ [take mtu data], ep_got = g\<rparr>"
      by (rule ep_write_step [OF _ _ ne sd l(3)]) (use free in simp_all)
    from less.hyps [OF l(1) rec v2 _ l(2)] ws less.prems(3) obtain ds where
      "(ep_step env inc)\<^sup>*\<^sup>* \<lparr>ep_conn = sw2, ep_put = cs @ [take mtu data], ep_got = g\<rparr> \<lparr>ep_conn = sw', ep_put = (cs @ [take mtu data]) @ ds, ep_got = g\<rparr>"
      "concat ds = drop mtu data" by blast
    moreover have "(ep_step env inc)\<^sup>*\<^sup>* \<lparr>ep_conn = sw, ep_put = cs, ep_got = g\<rparr> \<lparr>ep_conn = sw2, ep_put = cs @ [take mtu data], ep_got = g\<rparr>"
      using q [unfolded quiet_run_def] w by (meson rtranclp.rtrancl_into_rtrancl)
    ultimately show ?thesis by (intro exI [of _ "take mtu data # ds"]) (auto intro: rtranclp_trans)
  qed
qed

lemma Write_link:
  assumes "conn_Write env waits data sw = Some (n, None, sw')" and "0 < getNegotiatedMTULocked (fst sw)"
    and "\<And>f sw. f \<in> set waits \<Longrightarrow> quiet_run env inc sw (f sw) \<and>
      (0 < getNegotiatedMTULocked (fst sw) \<longrightarrow> 0 < getNegotiatedMTULocked (fst (f sw)))"
    and "length cs + length data < 2 ^ 31"
  shows "\<exists>ds. (ep_step env inc)\<^sup>*\<^sup>* \<lparr>ep_conn = sw, ep_put = cs, ep_got = g\<rparr> \<lparr>ep_conn = sw', ep_put = cs @ ds, ep_got = g\<rparr> \<and> concat ds = data"
  using assms(1)
proof (cases rule: conn_Write_cases)
  case (sent ws sw1)
  let ?R = "\<lambda>a b. 0 < getNegotiatedMTULocked (fst a) \<longrightarrow> 0 < getNegotiatedMTULocked (fst b)"
  have "?R sw sw1" using wait_loop_rely [OF sent(2), of ?R] assms(3) by (auto simp: reflp_def transp_def)
  then have mtu: "0 < unat (getNegotiatedMTULocked (fst sw1))" using assms(2) by (simp add: word_less_nat_alt)
  from wait_loop_rely [OF sent(2), of "quiet_run env inc"] assms(3) quiet_run_order [of env inc] have
    q: "quiet_run env inc sw sw1" and ws: "set ws \<subseteq> set waits" by auto
  have "\<exists>ds. (ep_step env inc)\<^sup>*\<^sup>* \<lparr>ep_conn = sw1, ep_put = cs, ep_got = g\<rparr> \<lparr>ep_conn = sw', ep_put = cs @ ds, ep_got = g\<rparr> \<and> concat ds = data"
    by (rule writeChunks_link [OF mtu sent(3) _ _ assms(4)]) (use wait_loop_free [OF sent(2,1)] ws assms(3) in blast)+
  then obtain ds where ds: "(ep_step env inc)\<^sup>*\<^sup>* \<lparr>ep_conn = sw1, ep_put = cs, ep_got = g\<rparr> \<lparr>ep_conn = sw', ep_put = cs @ ds, ep_got = g\<rparr>"
    "concat ds = data" by auto
  from rtranclp_trans [OF q [unfolded quiet_run_def, rule_format] ds(1)] ds(2) show ?thesis by (intro exI [of _ ds]) simp
qed auto

lemma link_left_run:
  "(ep_step ea (w_wire (snd (ep_conn b))))\<^sup>*\<^sup>* a a' \<Longrightarrow> link_reach ea eb a0 b0 a b \<Longrightarrow> link_reach ea eb a0 b0 a' b"
  by (induction rule: rtranclp_induct) (auto intro: link_left)

end
