(* ===== verification/Link_Props.thy ===== *)
theory Link_Props
  imports Stream_Link
begin

text \<open>
  The properties of a link: each direction is a byte pipe, a \<^verbatim>\<open>Write\<close> is a run of its steps, and the two sends that break
  the stream: one that I2CP has refused, and a probe of the persist timer.
\<close>

section \<open>A concrete link\<close>

definition demo_left :: "(byte, byte list \<times> int \<times> int) endpoint" where
  "demo_left = \<lparr>ep_conn = (demo_conn\<lparr>sentPackets := []\<rparr>, demo_world), ep_put = [], ep_got = []\<rparr>"

definition demo_right :: "(byte, byte list \<times> int \<times> int) endpoint" where
  "demo_right = \<lparr>ep_conn = (demo_conn\<lparr>sentPackets := [], sendSeq := 500, recvSeq := 104\<rparr>, demo_world), ep_put = [], ep_got = []\<rparr>"

definition demo_sent :: "(byte, byte list \<times> int \<times> int) conn_world" where
  "demo_sent = snd (sendDataChunk demo_env [7, 8] (ep_conn demo_left))"

definition demo_arrival :: "byte Packet" where
  "demo_arrival = (case Unmarshal byte_lib emptyPacket (msg_data (hd (w_wire (snd demo_sent)))) of Ok p \<Rightarrow> p | _ \<Rightarrow> emptyPacket)"

definition demo_received :: "(byte, byte list \<times> int \<times> int) conn_world" where
  "demo_received = conn_do demo_env (Receive True) (conn_do demo_env (Deliver True demo_arrival) (ep_conn demo_right))"

lemma demo_link_start: "link_start demo_env demo_env demo_left demo_right"
  by (simp add: link_start_def ep_fresh_def demo_left_def demo_right_def)
    (simp add: demo_conn_def conn_inv_def cc_inv_def window_ok_def MaxWindowSize_def data_inv_def life_ok_def demo_world_def
      MinRTO_def MaxRTO_def)

lemma demo_arrival_fields: "SequenceNum demo_arrival = 104" "Flags demo_arrival = 0" "Payload demo_arrival = [7, 8]"
  by code_simp+

lemma demo_received_buffer: "recvBuf (fst demo_received) = ([7, 8], 2, 65536)" "outOfOrderPackets (fst demo_received) = []"
proof -
  define s where "s = demo_conn\<lparr>sentPackets := [], sendSeq := 500, recvSeq := 104, recvChan := [], lastActivity := w_now demo_world\<rparr>"
  have "recvChan demo_conn = []" "ctxDone demo_conn = False" by (simp_all add: demo_conn_def)
  then have r: "demo_received = handleDataLocked demo_env demo_arrival (s, demo_world)"
    using demo_arrival_fields
    by (simp add: demo_received_def demo_right_def handleIncomingPacket_def recvChanSize_def receiveLoop_round_def processPacket_def
        dispatchPacketByFlags_def s_def)
  have "core (fst demo_received) = core (deliverBufferedPacketsLocked demo_env (removeFromNACKListLocked 104
      (s\<lparr>recvBuf := ([7, 8], 2, 65536), recvSeq := 105, totalBytesReceived := totalBytesReceived s + 2\<rparr>)))"
    using inSequence_core [of demo_env s demo_arrival 2 "([7, 8], 2, 65536)" 104 demo_world] demo_arrival_fields
    by (simp add: r handleDataLocked_def s_def list_circ_def numeral_2_eq_2)
  then show "recvBuf (fst demo_received) = ([7, 8], 2, 65536)" "outOfOrderPackets (fst demo_received) = []"
    by (simp_all add: core_def deliverBufferedPacketsLocked_def removeFromNACKListLocked_def s_def)
qed

lemma ok_value: "case x of Ok p \<Rightarrow> True | _ \<Rightarrow> False \<Longrightarrow> x = Ok (case x of Ok p \<Rightarrow> p | _ \<Rightarrow> d)"
  by (cases x) auto

lemma demo_write_step: "ep_step demo_env inc demo_left (demo_left\<lparr>ep_conn := demo_sent, ep_put := [[7, 8]]\<rparr>)"
proof -
  have s: "sendDataChunk demo_env [7, 8] (ep_conn demo_left) = (None, demo_sent)"
    unfolding demo_sent_def by (rule prod_eqI) (code_simp, simp)
  have v: "validateWriteStateLocked (ep_conn demo_left) = None" "\<not> windowFull_send (fst (ep_conn demo_left))" by code_simp+
  from ep_write [OF v _ s] show ?thesis by (simp add: demo_left_def)
qed

lemma demo_receive_steps:
  "ep_step demo_env (w_wire (snd demo_sent)) demo_right (demo_right\<lparr>ep_conn := conn_do demo_env (Deliver True demo_arrival) (ep_conn demo_right)\<rparr>)"
  "ep_step demo_env inc (demo_right\<lparr>ep_conn := conn_do demo_env (Deliver True demo_arrival) (ep_conn demo_right)\<rparr>)
     (demo_right\<lparr>ep_conn := demo_received\<rparr>)"
proof -
  have "length (w_wire (snd demo_sent)) = 1" by code_simp
  then have m: "hd (w_wire (snd demo_sent)) \<in> set (w_wire (snd demo_sent))" by (cases "w_wire (snd demo_sent)") auto
  have "case Unmarshal byte_lib emptyPacket (msg_data (hd (w_wire (snd demo_sent)))) of Ok p \<Rightarrow> True | _ \<Rightarrow> False" by code_simp
  then have u: "Unmarshal (e_lib demo_env) emptyPacket (msg_data (hd (w_wire (snd demo_sent)))) = Ok demo_arrival"
    unfolding demo_arrival_def demo_env_simps by (rule ok_value)
  show "ep_step demo_env (w_wire (snd demo_sent)) demo_right (demo_right\<lparr>ep_conn := conn_do demo_env (Deliver True demo_arrival) (ep_conn demo_right)\<rparr>)"
    by (rule ep_receive [OF m u])
  show "ep_step demo_env inc (demo_right\<lparr>ep_conn := conn_do demo_env (Deliver True demo_arrival) (ep_conn demo_right)\<rparr>)
     (demo_right\<lparr>ep_conn := demo_received\<rparr>)"
    using ep_internal [of "Receive True" demo_env inc "demo_right\<lparr>ep_conn := conn_do demo_env (Deliver True demo_arrival) (ep_conn demo_right)\<rparr>"]
    by (simp add: demo_received_def)
qed

lemma demo_read:
  assumes "2 \<le> n"
  obtains sw where "conn_Read demo_env [] n demo_received = Some ([7, 8], None, sw)"
proof -
  obtain s w where c: "demo_received = (s, w)" by fastforce
  note b = demo_received_buffer [unfolded c fst_conv]
  have "min n (length [7, 8 :: byte]) = 2" using assms by (simp add: min_def)
  then have "consumeBufferDataLocked demo_env n s = ([7, 8], None, s\<lparr>recvBuf := cb_Reset list_circ (recvBuf s)\<rparr>)"
    using b by (simp add: consumeBufferDataLocked_def Let_def)
  with b that show thesis by (simp add: c conn_Read_def validateReadStateLocked_def)
qed

lemma demo_no_overflow:
  "cb_TotalWritten (e_circ demo_env) (recvBuf (fst demo_received)) \<le> cb_Size (e_circ demo_env) (recvBuf (fst demo_received))"
  by (simp add: demo_received_buffer)

lemma demo_link_run:
  "\<exists>sw. link_reach demo_env demo_env demo_left demo_right (demo_left\<lparr>ep_conn := demo_sent, ep_put := [[7, 8]]\<rparr>)
      (demo_right\<lparr>ep_conn := sw, ep_got := [7, 8]\<rparr>)"
proof -
  note 1 = link_left [OF link_begin demo_write_step, of demo_env demo_right]
  have "w_wire (snd (ep_conn (demo_left\<lparr>ep_conn := demo_sent, ep_put := [[7, 8]]\<rparr>))) = w_wire (snd demo_sent)" by simp
  note 3 = link_right [OF link_right [OF 1, unfolded this, OF demo_receive_steps(1)], unfolded this, OF demo_receive_steps(2)]
  obtain sw where r: "conn_Read demo_env [] 4 demo_received = Some ([7, 8], None, sw)" by (rule demo_read [of 4]) auto
  from link_right [OF 3 ep_read [of demo_env 4 "demo_right\<lparr>ep_conn := demo_received\<rparr>"]] r demo_no_overflow show ?thesis
    by (intro exI [of _ sw]) (simp add: demo_right_def)
qed

section \<open>Sends that break the stream\<close>

text \<open>A receiver with nothing buffered takes the packet it expects, and drops another one with the same number.\<close>

lemma first_then_duplicate:
  assumes "circ_ok (e_circ env)" and "SequenceNum p = recvSeq t" and "SequenceNum p' = recvSeq t"
    and "outOfOrderPackets t = []" and "nackList t = []" and "cb_Bytes (e_circ env) (recvBuf t) = []"
    and "cb_TotalWritten (e_circ env) (recvBuf t) = 0" and "int (length (Payload p)) \<le> cb_Size (e_circ env) (recvBuf t)"
    and "t' = fst (arrive_all env [p, p'] (t, v))" and "t1 = fst (arrive_all env [p] (t, v))"
  shows "cb_Bytes (e_circ env) (recvBuf t') = Payload p" and "recvSeq t' = recvSeq t + 1"
    and "cb_Bytes (e_circ env) (recvBuf t1) = Payload p" and "recvSeq t1 = recvSeq t + 1"
proof -
  obtain t2 v2 where h: "handleDataLocked env p (t, v) = (t2, v2)" by (metis surj_pair)
  have "list_all2 (stream_packet (recvSeq t) (\<lambda>_. Payload p) 1) [0] [p]"
    using assms(2) by (simp add: stream_packet_def seq_at_def)
  moreover have "1 = (LEAST i. i \<notin> set [0 :: nat])" by (rule Least_equality [symmetric]) (auto simp: Suc_le_eq)
  ultimately have "cb_Bytes (e_circ env) (recvBuf t1) = lastn (nat (cb_Size (e_circ env) (recvBuf t))) (concat (map (\<lambda>_. Payload p) [0..<1])) \<and>
      recvSeq t1 = recvSeq t + of_nat 1"
    using arrive_all_delivers [OF assms(1) _ _ refl assms(4-7,10), of 1 "\<lambda>_. Payload p" "[0]" 1] by simp
  then show 1: "cb_Bytes (e_circ env) (recvBuf t1) = Payload p" "recvSeq t1 = recvSeq t + 1"
    using assms(8) by (simp_all add: lastn_all nat_le_iff le_nat_iff)
  have "t1 = t2" using assms(10) h by (simp add: arrive_all_def)
  moreover have "seqLessThan (recvSeq t) (recvSeq t + 1)" "recvSeq t \<noteq> recvSeq t + 1"
    using seq.lt_window [of 0 1 "recvSeq t"] by simp_all
  ultimately have "t' = t1" using assms(3,9) 1(2) h by (simp add: arrive_all_def handleDataLocked_def Let_def)
  with 1 show "cb_Bytes (e_circ env) (recvBuf t') = Payload p" "recvSeq t' = recvSeq t + 1" by simp_all
qed

lemma dataPacket_read:
  "lib_ok lib \<Longrightarrow> Unmarshal lib emptyPacket (wire_format lib (dataPacket s c)) = Ok (wire_view lib (dataPacket s c))"
  by (rule received_packet) (simp_all add: hasFlag_def marshalable_def)

lemma sendDataChunk_refused:
  assumes "sendDataChunk env c (s, w) = (Some e, s1, w1)" and "c \<noteq> []"
  obtains i where "map_of (sentPackets s1) (sendSeq s) = Some i" and "sp_data i = wire_format (e_lib env) (dataPacket s c)"
proof -
  have "s1 = trackPacketForRetransmission (w_now w) s (dataPacket s c) (wire_format (e_lib env) (dataPacket s c))"
    using assms(1) by (auto simp: sendDataChunk_def sendPacketLocked_def dataPacket_marshal Let_def split: option.splits prod.splits)
  then show thesis
    using that [of "\<lparr>sp_data = wire_format (e_lib env) (dataPacket s c), sentTime = w_now w, retryCount = 0\<rparr>"] assms(2)
    by (simp add: trackPacketForRetransmission_def update_conv')
qed

lemma retransmit_sends:
  assumes "retransmitPacketLocked env q (s, w) = (None, s', w')" and "map_of (sentPackets s) q = Some i"
  obtains m where "w_wire w' = w_wire w @ [m]" and "msg_data m = sp_data i" and "sendSeq s' = sendSeq s"
proof -
  obtain w1 where sm: "SendMessage env (conn_dest s) (localPort s) (remotePort s) (sp_data i) 0 w = (None, w1)" "w' = w1" "sendSeq s' = sendSeq s"
    using assms by (auto simp: retransmitPacketLocked_def split: prod.splits option.splits)
  from SendMessage_sent [OF sm(1)] sm that show thesis by blast
qed

section \<open>Properties\<close>

text \<open>
  C1. A connection is a byte pipe in both directions, as long as I2CP takes the packets of \<^verbatim>\<open>Write\<close>, the persist timer sends no probe, fewer than \<open>2 ^ 31\<close>
  packets are sent in a direction and reads come before unread bytes are overwritten: let two connections that have finished a handshake do what
  else they do, with I2CP losing, repeating and reordering their messages: packets of \<^verbatim>\<open>Write\<close>, reads, packets delivered and processed in any order,
  acknowledgements, NACKs, retransmissions, choking, closing, time passing, in any interleaving.  Then every step is a step of an ideal pipe, which
  appends what is written and hands it out in order and once; and in a state in which a side expects the next sequence number of the other and its
  buffer is empty, it has read all the other has written.  That such a state is reached is not claimed.
\<close>

theorem link_refines_pipe:
  assumes "link_reach ea eb a0 b0 a b" and "link_start ea eb a0 b0" and "lib_ok (e_lib ea)" and "e_lib eb = e_lib ea"
    and "circ_ok (e_circ ea)" and "circ_ok (e_circ eb)"
  shows "pipe_step\<^sup>*\<^sup>* ([], []) (pipe a b) \<and> pipe_step\<^sup>*\<^sup>* ([], []) (pipe b a) \<and>
    (recvSeq (fst (ep_conn b)) = sendSeq (fst (ep_conn a)) \<and> cb_TotalWritten (e_circ eb) (recvBuf (fst (ep_conn b))) = 0 \<longrightarrow>
       ep_got b = concat (ep_put a)) \<and>
    (recvSeq (fst (ep_conn a)) = sendSeq (fst (ep_conn b)) \<and> cb_TotalWritten (e_circ ea) (recvBuf (fst (ep_conn a))) = 0 \<longrightarrow>
       ep_got a = concat (ep_put b))"
proof -
  note i = link_invariant [OF assms(1,3-6,2) refl refl refl refl]
  then have "ep_got b = concat (ep_put a)" if "recvSeq (fst (ep_conn b)) = sendSeq (fst (ep_conn a))"
    "cb_TotalWritten (e_circ eb) (recvBuf (fst (ep_conn b))) = 0"
    using that by (intro rx_stream_prefix(2)) (auto simp: tx_stream_def tx_ok_def)
  moreover from i have "ep_got a = concat (ep_put b)" if "recvSeq (fst (ep_conn a)) = sendSeq (fst (ep_conn b))"
    "cb_TotalWritten (e_circ ea) (recvBuf (fst (ep_conn a))) = 0"
    using that by (intro rx_stream_prefix(2)) (auto simp: tx_stream_def tx_ok_def)
  ultimately show ?thesis using link_pipes [OF assms(1,3-6,2)] by simp
qed

theorem link_refines_pipe_witness:
  "\<exists>a b. link_reach demo_env demo_env demo_left demo_right a b \<and> pipe_step\<^sup>*\<^sup>* ([], []) (pipe a b) \<and> pipe a b = ([7, 8], [7, 8])"
proof -
  obtain sw where r: "link_reach demo_env demo_env demo_left demo_right (demo_left\<lparr>ep_conn := demo_sent, ep_put := [[7, 8]]\<rparr>)
      (demo_right\<lparr>ep_conn := sw, ep_got := [7, 8]\<rparr>)" using demo_link_run by blast
  let ?a = "demo_left\<lparr>ep_conn := demo_sent, ep_put := [[7, 8]]\<rparr>" and ?b = "demo_right\<lparr>ep_conn := sw, ep_got := [7, 8]\<rparr>"
  have "pipe_step\<^sup>*\<^sup>* ([], []) (pipe ?a ?b)"
    using link_refines_pipe [OF r demo_link_start] byte_lib_ok list_circ_ok by simp
  with r show ?thesis by (intro exI [of _ ?a] exI [of _ ?b]) (simp add: pipe_def)
qed




text \<open>
  C33. Bytes that \<^verbatim>\<open>Write\<close> reports as not written replace later ones: a packet that I2CP refuses is already tracked for retransmission,
  and its number is used again.  When the timer retransmits it and the next packet of \<^verbatim>\<open>Write\<close> is sent after that, the receiver
  gets the refused bytes, takes the new packet for a duplicate, and considers everything received: the bytes of the
  successful \<^verbatim>\<open>Write\<close> never reach the reader.
\<close>

theorem refused_bytes_replace_written:
  assumes "lib_ok (e_lib env)" and "e_lib re = e_lib env" and "circ_ok (e_circ re)" and "c \<noteq> []"
    and "sendDataChunk env c (s, w) = (Some e, s1, w1)"
    and "retransmitPacketLocked env (sendSeq s) (s1, w1) = (None, s2, w2)"
    and "sendDataChunk env d (s2, w2) = (None, s3, w3)"
    and "recvSeq t = sendSeq s" and "outOfOrderPackets t = []" and "nackList t = []" and "cb_Bytes (e_circ re) (recvBuf t) = []"
    and "cb_TotalWritten (e_circ re) (recvBuf t) = 0" and "int (length c) \<le> cb_Size (e_circ re) (recvBuf t)"
  shows "\<exists>m1 m2 p1 p2. w_wire w3 = w_wire w @ [m1, m2] \<and> Unmarshal (e_lib re) emptyPacket (msg_data m1) = Ok p1 \<and>
    Unmarshal (e_lib re) emptyPacket (msg_data m2) = Ok p2 \<and> Payload p1 = c \<and> Payload p2 = d \<and>
    cb_Bytes (e_circ re) (recvBuf (fst (arrive_all re [p1, p2] (t, v)))) = c \<and>
    recvSeq (fst (arrive_all re [p1, p2] (t, v))) = sendSeq s3"
proof -
  note f = sendDataChunk_failed [OF assms(5)]
  obtain i where i: "map_of (sentPackets s1) (sendSeq s) = Some i" "sp_data i = wire_format (e_lib env) (dataPacket s c)"
    by (rule sendDataChunk_refused [OF assms(5,4)])
  obtain m1 where m1: "w_wire w2 = w_wire w1 @ [m1]" "msg_data m1 = sp_data i" "sendSeq s2 = sendSeq s1"
    by (rule retransmit_sends [OF assms(6) i(1)])
  obtain m2 where m2: "w_wire w3 = w_wire w2 @ [m2]" "msg_data m2 = wire_format (e_lib env) (dataPacket s2 d)" "sendSeq s3 = sendSeq s2 + 1"
    using assms(7) by (auto elim!: sendDataChunk_sent)
  let ?p1 = "wire_view (e_lib env) (dataPacket s c)" and ?p2 = "wire_view (e_lib env) (dataPacket s2 d)"
  have u: "Unmarshal (e_lib re) emptyPacket (msg_data m1) = Ok ?p1" "Unmarshal (e_lib re) emptyPacket (msg_data m2) = Ok ?p2"
    using dataPacket_read [OF assms(1)] m1(2) m2(2) i(2) assms(2) by simp_all
  have "SequenceNum ?p1 = recvSeq t" "SequenceNum ?p2 = recvSeq t" "Payload ?p1 = c" using m1(3) f assms(8) by simp_all
  from first_then_duplicate(1,2) [OF assms(3) this(1,2) assms(9-12) _ refl refl, of v] this(3) assms(13) u m1(1,3) m2(1,3) f assms(8)
  show ?thesis by (intro exI [of _ m1] exI [of _ m2] exI [of _ ?p1] exI [of _ ?p2]) simp
qed

text \<open>An I2CP session that refuses the first message.\<close>

definition demo_refusing :: "(byte, unit, byte, byte list \<times> int \<times> int) env" where
  "demo_refusing = demo_env\<lparr>e_session := demo_session\<lparr>ses_SendMessage := (\<lambda>h m. if h = [] then Some (Errorf ''busy'' []) else None)\<rparr>\<rparr>"

theorem refused_bytes_replace_written_witness:
  "\<exists>e s1 w1 s2 w2 s3 w3 p1 p2. sendDataChunk demo_refusing [1] (ep_conn demo_left) = (Some e, s1, w1) \<and>
     retransmitPacketLocked demo_refusing 104 (s1, w1) = (None, s2, w2) \<and> sendDataChunk demo_refusing [2] (s2, w2) = (None, s3, w3) \<and>
     Payload p2 = [2] \<and> cb_Bytes list_circ (recvBuf (fst (arrive_all demo_env [p1, p2] (ep_conn demo_right)))) = [1]"
proof -
  obtain r1 s1 w1 where 1: "sendDataChunk demo_refusing [1] (ep_conn demo_left) = (r1, s1, w1)" by (metis prod_cases3)
  obtain r2 s2 w2 where 2: "retransmitPacketLocked demo_refusing 104 (s1, w1) = (r2, s2, w2)" by (metis prod_cases3)
  obtain r3 s3 w3 where 3: "sendDataChunk demo_refusing [2] (s2, w2) = (r3, s3, w3)" by (metis prod_cases3)
  have "fst (sendDataChunk demo_refusing [1] (ep_conn demo_left)) \<noteq> None"
    "fst (retransmitPacketLocked demo_refusing 104 (snd (sendDataChunk demo_refusing [1] (ep_conn demo_left)))) = None"
    "fst (sendDataChunk demo_refusing [2] (snd (retransmitPacketLocked demo_refusing 104 (snd (sendDataChunk demo_refusing [1] (ep_conn demo_left)))))) = None"
    by code_simp+
  then obtain e where r: "r1 = Some e" "r2 = None" "r3 = None" by (auto simp: 1 2 3)
  let ?s = "demo_conn\<lparr>sentPackets := []\<rparr>" and ?t = "demo_conn\<lparr>sentPackets := [], sendSeq := 500, recvSeq := 104\<rparr>"
  have l: "e_lib demo_refusing = byte_lib" "e_lib demo_env = byte_lib" "sendSeq ?s = 104" by (simp_all add: demo_refusing_def)
  have c: "ep_conn demo_left = (?s, demo_world)" "ep_conn demo_right = (?t, demo_world)" by (simp_all add: demo_left_def demo_right_def)
  have "\<exists>m1 m2 p1 p2. w_wire w3 = w_wire demo_world @ [m1, m2] \<and> Unmarshal (e_lib demo_env) emptyPacket (msg_data m1) = Ok p1 \<and>
    Unmarshal (e_lib demo_env) emptyPacket (msg_data m2) = Ok p2 \<and> Payload p1 = [1] \<and> Payload p2 = [2] \<and>
    cb_Bytes (e_circ demo_env) (recvBuf (fst (arrive_all demo_env [p1, p2] (?t, demo_world)))) = [1] \<and>
    recvSeq (fst (arrive_all demo_env [p1, p2] (?t, demo_world))) = sendSeq s3"
    by (rule refused_bytes_replace_written [OF _ _ _ _ 1 [unfolded r(1) c] 2 [folded l(3), unfolded r(2)] 3 [unfolded r(3)]])
      (simp_all add: l byte_lib_ok list_circ_ok)
  with 1 2 3 r c show ?thesis by auto
qed

text \<open>
  C34. A probe of the persist timer is data: the timer that should only provoke an acknowledgement sends a packet with the next sequence number and
  a zero byte as payload.  If it arrives, the reader gets a byte that nobody wrote; if it is lost, its number is
  used up, but the packet is not tracked, so neither a NACK nor the retransmission timer can ever send it again, and the receiver waits for it forever.
\<close>

theorem probe_breaks_stream:
  assumes "lib_ok (e_lib env)" and "e_lib re = e_lib env" and "circ_ok (e_circ re)"
    and "choked s" and "\<not> conn_closed s" and "persistTimer s" and "persistTimerFires env (s, w) = (s1, w1)" and "w_wire w1 \<noteq> w_wire w"
    and "map_of (sentPackets s) (sendSeq s) = None"
    and "recvSeq t = sendSeq s" and "outOfOrderPackets t = []" and "nackList t = []" and "cb_Bytes (e_circ re) (recvBuf t) = []"
    and "cb_TotalWritten (e_circ re) (recvBuf t) = 0" and "1 \<le> cb_Size (e_circ re) (recvBuf t)"
  shows "(\<exists>m p. w_wire w1 = w_wire w @ [m] \<and> Unmarshal (e_lib re) emptyPacket (msg_data m) = Ok p \<and>
      cb_Bytes (e_circ re) (recvBuf (fst (arrive_all re [p] (t, v)))) = [0]) \<and>
    sendSeq s1 = sendSeq s + 1 \<and> retransmitPacketLocked env (sendSeq s) (s1, w1) = (None, s1, w1)"
proof -
  let ?p = "probePacket s :: 'a Packet"
  have p: "marshalable (e_lib env) ?p" "SequenceNum ?p = sendSeq s" "Payload ?p = [0]"
    by (simp_all add: marshalable_def hasFlag_def probePacket_def emptyPacket_def)
  have e: "s1 = s\<lparr>sendSeq := sendSeq s + 1\<rparr>"
    "w1 = snd (SendMessage env (conn_dest s) (localPort s) (remotePort s) (wire_format (e_lib env) ?p) 0 w)"
    using assms(4-7) Marshal_marshalable [OF p(1)] by (simp_all add: persistTimerFires_def sendProbePacketLocked_def Let_def split_beta)
  have "fst (SendMessage env (conn_dest s) (localPort s) (remotePort s) (wire_format (e_lib env) ?p) 0 w) = None"
    using assms(8) unfolding e(2) by (simp add: SendMessage_def Let_def split: if_splits)
  then have "SendMessage env (conn_dest s) (localPort s) (remotePort s) (wire_format (e_lib env) ?p) 0 w = (None, w1)"
    using e(2) by (simp add: prod_eq_iff)
  from SendMessage_sent [OF this] obtain m where m: "w_wire w1 = w_wire w @ [m]" "msg_data m = wire_format (e_lib env) ?p" by blast
  have u: "Unmarshal (e_lib re) emptyPacket (msg_data m) = Ok (wire_view (e_lib env) ?p)"
    unfolding m(2) assms(2) by (rule received_packet [OF assms(1) p(1)]) (simp_all add: hasFlag_def probePacket_def emptyPacket_def)
  have "SequenceNum (wire_view (e_lib env) ?p) = recvSeq t" using p(2) assms(10) by simp
  from first_then_duplicate(3) [OF assms(3) this this assms(11-14) _ refl refl, of v] assms(15) p(3)
  have "cb_Bytes (e_circ re) (recvBuf (fst (arrive_all re [wire_view (e_lib env) ?p] (t, v)))) = [0]" by simp
  with m(1) u e(1) assms(9) show ?thesis by (auto simp: retransmitPacketLocked_def)
qed

theorem probe_breaks_stream_witness:
  "\<exists>s1 w1 p. persistTimerFires demo_env ((fst (ep_conn demo_left))\<lparr>choked := True, persistTimer := True\<rparr>, demo_world) = (s1, w1) \<and>
     cb_Bytes list_circ (recvBuf (fst (arrive_all demo_env [p] (ep_conn demo_right)))) = [0]"
proof -
  let ?s = "demo_conn\<lparr>sentPackets := [], choked := True, persistTimer := True\<rparr>" and ?t = "demo_conn\<lparr>sentPackets := [], sendSeq := 500, recvSeq := 104\<rparr>"
  obtain s1 w1 where f: "persistTimerFires demo_env (?s, demo_world) = (s1, w1)" by (metis surj_pair)
  have "length (w_wire (snd (persistTimerFires demo_env (?s, demo_world)))) = 1" by code_simp
  then have "w_wire w1 \<noteq> []" by (auto simp: f)
  then have w: "w_wire w1 \<noteq> w_wire demo_world" by (simp add: demo_world_def)
  have c: "ep_conn demo_left = (demo_conn\<lparr>sentPackets := []\<rparr>, demo_world)" "ep_conn demo_right = (?t, demo_world)"
    by (simp_all add: demo_left_def demo_right_def)
  have "(\<exists>m p. w_wire w1 = w_wire demo_world @ [m] \<and> Unmarshal (e_lib demo_env) emptyPacket (msg_data m) = Ok p \<and>
      cb_Bytes (e_circ demo_env) (recvBuf (fst (arrive_all demo_env [p] (?t, demo_world)))) = [0]) \<and>
    sendSeq s1 = sendSeq ?s + 1 \<and> retransmitPacketLocked demo_env (sendSeq ?s) (s1, w1) = (None, s1, w1)"
    by (rule probe_breaks_stream [OF _ _ _ _ _ _ f w]) (simp_all add: byte_lib_ok list_circ_ok)
  with f c show ?thesis by auto
qed

section \<open>Packets that are acknowledged and missing\<close>











end
