(* ===== verification/Echo.thy ===== *)
theory Echo
  imports Link_Props
begin

text \<open>
  The echo server and client of \<^verbatim>\<open>examples/echo\<close>, the programs in the repository that use a connection as a \<^verbatim>\<open>net.Conn\<close>, on the
  link of \<open>Stream_Link\<close>.

  The server handles a connection with one goroutine: it reads up to 4096 bytes, writes them back, and reads again.  The model is that program at the
  granularity of the connection's lock: a read is one step, a write is one step for each of its packets, and between two steps everything
  else happens: the other goroutines of the connection, the client, the network.  What the goroutine has read and not yet written is the
  state of the program.
\<close>

section \<open>The server\<close>

datatype echo_pc =
    Reading
  | Echoing "byte list"
  | Stopped

record ('d, 'b) echo_server =
  es_ep :: "('d, 'b) endpoint"
  es_pc :: echo_pc

definition readDeadlineAfter :: duration where "readDeadlineAfter = 90 * Second"

definition bufSize :: nat where "bufSize = 4096"

text \<open>\<^verbatim>\<open>readFromClient\<close>: the bytes read and whether the connection is done.\<close>

definition readFromClient :: "byte list \<Rightarrow> goerror option \<Rightarrow> byte list \<times> bool" where
  "readFromClient data err = (case err of Some e \<Rightarrow> ([], True) | None \<Rightarrow> (data, False))"

definition closeConnection :: "('d, 'c, 'k, 'b) env \<Rightarrow> ('d, 'b) conn_world \<Rightarrow> ('d, 'b) conn_world" where
  "closeConnection env sw = conn_Close env sw"

definition extendReadDeadline :: "('d, 'b) conn_world \<Rightarrow> ('d, 'b) conn_world" where
  "extendReadDeadline sw = (SetReadDeadline (Some (w_now (snd sw) + readDeadlineAfter)) (fst sw), snd sw)"

text \<open>
  One step of \<^verbatim>\<open>handleConnection\<close>, or of another goroutine of the connection (\<open>echo_other\<close>): a read; a packet of the \<^verbatim>\<open>Write\<close>
  in \<^verbatim>\<open>echoToClient\<close>, however \<^verbatim>\<open>Write\<close> cuts the data; the end after a read error; the end after \<^verbatim>\<open>Write\<close> has reported an error (the
  server sets no write deadline, and links on which I2CP refuses a message are left out); and the end at the top of the loop when the server
  shuts down.  Between the start and the first read lies only a deadline, which is a step of \<open>echo_other\<close>.
\<close>

inductive server_step :: "('d, 'c, 'k, 'b) env \<Rightarrow> 'd message list \<Rightarrow> ('d, 'b) echo_server \<Rightarrow> ('d, 'b) echo_server \<Rightarrow> bool"
  for env incoming where
  echo_other: "server_step env incoming v (v\<lparr>es_ep := e'\<rparr>)"
    if "ep_step env incoming (es_ep v) e'" and "ep_put e' = ep_put (es_ep v)" and "ep_got e' = ep_got (es_ep v)"
| echo_read: "server_step env incoming v (v\<lparr>es_ep := (es_ep v)\<lparr>ep_conn := sw, ep_got := ep_got (es_ep v) @ data\<rparr>,
      es_pc := (if data = [] then Reading else Echoing data)\<rparr>)"
    if "es_pc v = Reading" and "conn_Read env [] bufSize (ep_conn (es_ep v)) = Some (raw, err, sw)"
      and "readFromClient raw err = (data, False)"
      and "cb_TotalWritten (e_circ env) (recvBuf (fst (ep_conn (es_ep v)))) \<le> cb_Size (e_circ env) (recvBuf (fst (ep_conn (es_ep v))))"
| echo_chunk: "server_step env incoming v (v\<lparr>es_ep := (es_ep v)\<lparr>
        ep_conn := (if rest = [] then extendReadDeadline sw else sw), ep_put := ep_put (es_ep v) @ [chunk]\<rparr>,
      es_pc := (if rest = [] then Reading else Echoing rest)\<rparr>)"
    if "es_pc v = Echoing (chunk @ rest)" and "chunk \<noteq> []"
      and "validateWriteStateLocked (ep_conn (es_ep v)) = None" and "\<not> windowFull_send (fst (ep_conn (es_ep v)))"
      and "sendDataChunk env chunk (ep_conn (es_ep v)) = (None, sw)" and "length (ep_put (es_ep v)) + 1 < 2 ^ 31"
| echo_end: "server_step env incoming v (v\<lparr>es_ep := (es_ep v)\<lparr>ep_conn := closeConnection env sw\<rparr>, es_pc := Stopped\<rparr>)"
    if "es_pc v = Reading" and "conn_Read env [] bufSize (ep_conn (es_ep v)) = Some (raw, err, sw)"
      and "readFromClient raw err = ([], True)"
| echo_give_up: "server_step env incoming v (v\<lparr>es_ep := (es_ep v)\<lparr>ep_conn := closeConnection env (ep_conn (es_ep v))\<rparr>, es_pc := Stopped\<rparr>)"
    if "es_pc v = Echoing data" and "validateWriteStateLocked (ep_conn (es_ep v)) \<noteq> None"
| echo_shutdown: "server_step env incoming v (v\<lparr>es_ep := (es_ep v)\<lparr>ep_conn := closeConnection env (ep_conn (es_ep v))\<rparr>, es_pc := Stopped\<rparr>)"
    if "es_pc v = Reading"

text \<open>
  The accept loop of the server, on rounds given by the state of the shutdown context at the top of the loop and by what happens to the listener
  while \<^verbatim>\<open>Accept\<close> waits: the connections a handler was started for, whether the loop still runs, and the listener; \<open>None\<close> while it waits in \<^verbatim>\<open>Accept\<close>.
  \<^verbatim>\<open>acceptConnection\<close> looks at the context only to decide whether to log the error.
\<close>

definition acceptConnection :: "(StreamListener \<Rightarrow> StreamListener) list \<Rightarrow> StreamListener \<Rightarrow> (conn_id option \<times> StreamListener) option" where
  "acceptConnection waits l = (case Accept waits l of
      None \<Rightarrow> None
    | Some (Inl err, l) \<Rightarrow> Some (None, l)
    | Some (Inr c, l) \<Rightarrow> Some (Some c, l))"

fun runAcceptLoop :: "(bool \<times> (StreamListener \<Rightarrow> StreamListener) list) list \<Rightarrow> StreamListener \<Rightarrow> (conn_id list \<times> bool \<times> StreamListener) option" where
  "runAcceptLoop [] l = Some ([], True, l)"
| "runAcceptLoop ((shutdown, waits) # rounds) l =
     (if shutdown then Some ([], False, l)
      else case acceptConnection waits l of
        None \<Rightarrow> None
      | Some (None, l) \<Rightarrow> runAcceptLoop rounds l
      | Some (Some c, l) \<Rightarrow> map_option (\<lambda>(cs, r). (c # cs, r)) (runAcceptLoop rounds l))"

text \<open>
  The loop starts one handler for each queued connection, in the order in which they were queued.  After the listener has been closed, the
  connections still in its queue are never handled, and until the shutdown the loop goes round without waiting.
\<close>

lemma runAcceptLoop_serves:
  assumes "\<not> l_closed l" and "acceptChan l = cs @ ds"
  shows "runAcceptLoop (replicate (length cs) (False, [])) l = Some (cs, True, l\<lparr>acceptChan := ds\<rparr>)"
  using assms
proof (induction cs arbitrary: l)
  case (Cons c cs)
  then have "acceptConnection [] l = Some (Some c, l\<lparr>acceptChan := cs @ ds\<rparr>)"
    by (simp add: acceptConnection_def Accept_def receiveAccepted.simps)
  with Cons.IH [of "l\<lparr>acceptChan := cs @ ds\<rparr>"] Cons.prems show ?case by simp
qed auto

lemma runAcceptLoop_closed:
  assumes "l_closed l"
  shows "runAcceptLoop rounds l = Some ([], \<not> (\<exists>r\<in>set rounds. fst r), l)"
  using assms by (induction rounds) (auto simp: acceptConnection_def Accept_def)

section \<open>The client\<close>

text \<open>The outcome of one test: success, an error, or the error of a mismatch with the two texts it prints.\<close>

datatype echo_outcome =
    EchoVerified
  | EchoFailed goerror
  | EchoMismatch "byte list" "byte list"

definition verifyEchoResponse :: "byte list \<Rightarrow> byte list \<Rightarrow> (byte list \<times> byte list) option" where
  "verifyEchoResponse sent response = (if response \<noteq> sent then Some (sent, response) else None)"

text \<open>The errors of \<^verbatim>\<open>sendTestMessage\<close> and of \<^verbatim>\<open>readEchoResponse\<close>, which has read \<open>totalRead\<close> bytes so far.\<close>

definition sendTestMessage :: "goerror \<Rightarrow> echo_outcome" where
  "sendTestMessage err = EchoFailed (Wrap ''write failed'' err)"

definition readEchoError :: "nat \<Rightarrow> goerror \<Rightarrow> echo_outcome" where
  "readEchoError totalRead err =
     EchoFailed (if err = EOF then Errorf ''unexpected EOF after %d bytes'' [int totalRead] else Wrap ''read failed'' err)"

definition responseDeadline :: duration where "responseDeadline = 30 * Second"

text \<open>
  Where \<^verbatim>\<open>runEchoTest\<close> is: between two tests; in the \<^verbatim>\<open>Write\<close> of a message, with the bytes not yet sent; in \<^verbatim>\<open>readEchoResponse\<close>, with the bytes
  read so far; or at its end.
\<close>

datatype client_pc =
    Between
  | Sending "byte list" "byte list"
  | Awaiting "byte list" "byte list"
  | Ended echo_outcome

record ('d, 'b) echo_client =
  ec_ep :: "('d, 'b) endpoint"
  ec_pc :: client_pc
  ec_todo :: "byte list list"

definition awaitResponse :: "('d, 'b) conn_world \<Rightarrow> ('d, 'b) conn_world" where
  "awaitResponse sw = (SetReadDeadline (Some (w_now (snd sw) + responseDeadline)) (fst sw), snd sw)"

text \<open>
  One step of \<^verbatim>\<open>runEchoTest\<close>, or of another goroutine of the connection (\<open>client_other\<close>): the next message; a packet of its \<^verbatim>\<open>Write\<close>, after the last
  of which the read deadline is set; the end after \<^verbatim>\<open>Write\<close> has reported an error; a read of \<^verbatim>\<open>readEchoResponse\<close> into the rest of its buffer of
  4096 bytes; the end after a read error; the comparison once enough bytes are there, which ends all tests when it fails; and the end when no
  message is left.
\<close>

inductive client_step :: "('d, 'c, 'k, 'b) env \<Rightarrow> 'd message list \<Rightarrow> ('d, 'b) echo_client \<Rightarrow> ('d, 'b) echo_client \<Rightarrow> bool"
  for env incoming where
  client_other: "client_step env incoming c (c\<lparr>ec_ep := e'\<rparr>)"
    if "ep_step env incoming (ec_ep c) e'" and "ep_put e' = ep_put (ec_ep c)" and "ep_got e' = ep_got (ec_ep c)"
| client_next: "client_step env incoming c (c\<lparr>ec_pc := Sending msg msg, ec_todo := msgs\<rparr>)"
    if "ec_pc c = Between" and "ec_todo c = msg # msgs"
| client_chunk: "client_step env incoming c (c\<lparr>ec_ep := (ec_ep c)\<lparr>ep_conn := sw, ep_put := ep_put (ec_ep c) @ [chunk]\<rparr>,
      ec_pc := Sending msg rest\<rparr>)"
    if "ec_pc c = Sending msg (chunk @ rest)" and "chunk \<noteq> []"
      and "validateWriteStateLocked (ep_conn (ec_ep c)) = None" and "\<not> windowFull_send (fst (ep_conn (ec_ep c)))"
      and "sendDataChunk env chunk (ep_conn (ec_ep c)) = (None, sw)" and "length (ep_put (ec_ep c)) + 1 < 2 ^ 31"
| client_sent: "client_step env incoming c (c\<lparr>ec_ep := (ec_ep c)\<lparr>ep_conn := awaitResponse (ep_conn (ec_ep c))\<rparr>, ec_pc := Awaiting msg []\<rparr>)"
    if "ec_pc c = Sending msg []"
| client_unsent: "client_step env incoming c (c\<lparr>ec_pc := Ended (sendTestMessage err)\<rparr>)"
    if "ec_pc c = Sending msg rest" and "validateWriteStateLocked (ep_conn (ec_ep c)) = Some err"
| client_read: "client_step env incoming c (c\<lparr>ec_ep := (ec_ep c)\<lparr>ep_conn := sw, ep_got := ep_got (ec_ep c) @ data\<rparr>,
      ec_pc := Awaiting msg (buf @ data)\<rparr>)"
    if "ec_pc c = Awaiting msg buf" and "length buf < length msg"
      and "conn_Read env [] (bufSize - length buf) (ep_conn (ec_ep c)) = Some (data, None, sw)"
      and "cb_TotalWritten (e_circ env) (recvBuf (fst (ep_conn (ec_ep c)))) \<le> cb_Size (e_circ env) (recvBuf (fst (ep_conn (ec_ep c))))"
| client_unread: "client_step env incoming c (c\<lparr>ec_ep := (ec_ep c)\<lparr>ep_conn := sw\<rparr>, ec_pc := Ended (readEchoError (length buf) err)\<rparr>)"
    if "ec_pc c = Awaiting msg buf" and "length buf < length msg"
      and "conn_Read env [] (bufSize - length buf) (ep_conn (ec_ep c)) = Some (data, Some err, sw)"
| client_verify: "client_step env incoming c (c\<lparr>ec_pc :=
      (case verifyEchoResponse msg buf of Some (sent, got) \<Rightarrow> Ended (EchoMismatch sent got) | None \<Rightarrow> Between)\<rparr>)"
    if "ec_pc c = Awaiting msg buf" and "\<not> length buf < length msg"
| client_done: "client_step env incoming c (c\<lparr>ec_pc := Ended EchoVerified\<rparr>)"
    if "ec_pc c = Between" and "ec_todo c = []"

section \<open>An echo session\<close>

inductive echo_reach :: "('d, 'c, 'k, 'b) env \<Rightarrow> ('d, 'c, 'k, 'b) env \<Rightarrow> ('d, 'b) echo_client \<Rightarrow> ('d, 'b) echo_server \<Rightarrow>
    ('d, 'b) echo_client \<Rightarrow> ('d, 'b) echo_server \<Rightarrow> bool"
  for ec es c0 v0 where
  echo_begin: "echo_reach ec es c0 v0 c0 v0"
| echo_client: "echo_reach ec es c0 v0 c' v"
    if "echo_reach ec es c0 v0 c v" and "client_step ec (w_wire (snd (ep_conn (es_ep v)))) c c'"
| echo_server: "echo_reach ec es c0 v0 c v'"
    if "echo_reach ec es c0 v0 c v" and "server_step es (w_wire (snd (ep_conn (ec_ep c)))) v v'"

text \<open>
  What the client has written and read, at each point of its program.  The messages \<open>msgs\<close> are the ones of the whole run; a mismatch cannot
  happen while what was read is a prefix of what was written.
\<close>

definition tested :: "byte list list \<Rightarrow> ('d, 'b) echo_client \<Rightarrow> bool" where
  "tested msgs c \<longleftrightarrow>
     (let put = concat (ep_put (ec_ep c)); got = ep_got (ec_ep c) in
      case ec_pc c of
        Between \<Rightarrow> got = put \<and> put @ concat (ec_todo c) = concat msgs
      | Sending msg rest \<Rightarrow> put @ rest = got @ msg \<and> put @ rest @ concat (ec_todo c) = concat msgs
      | Awaiting msg buf \<Rightarrow> (\<exists>before. put = before @ msg \<and> got = before @ buf) \<and> put @ concat (ec_todo c) = concat msgs
      | Ended EchoVerified \<Rightarrow> got = put \<and> put = concat msgs
      | Ended (EchoFailed e) \<Rightarrow> True
      | Ended (EchoMismatch sent got) \<Rightarrow> False)"

lemma client_tested:
  assumes "client_step env inc c c'" and "tested msgs c" and "prefix (ep_got (ec_ep c)) (concat (ep_put (ec_ep c)))"
  shows "tested msgs c'"
  using assms(1)
proof cases
  case (client_verify msg buf)
  from assms(2) client_verify obtain before where b: "concat (ep_put (ec_ep c)) = before @ msg" "ep_got (ec_ep c) = before @ buf"
    by (auto simp: tested_def Let_def)
  with assms(3) client_verify have "buf = msg" by (auto simp: prefix_def)
  with client_verify assms(2) show ?thesis by (auto simp: tested_def verifyEchoResponse_def Let_def)
qed (use assms(2) in \<open>auto simp: tested_def sendTestMessage_def readEchoError_def Let_def split: client_pc.splits echo_outcome.splits\<close>)

text \<open>What the server has read is what it has written and what it is about to write.\<close>

definition echoes :: "('d, 'b) echo_server \<Rightarrow> bool" where
  "echoes v \<longleftrightarrow> (case es_pc v of
      Reading \<Rightarrow> ep_got (es_ep v) = concat (ep_put (es_ep v))
    | Echoing data \<Rightarrow> ep_got (es_ep v) = concat (ep_put (es_ep v)) @ data
    | Stopped \<Rightarrow> prefix (concat (ep_put (es_ep v))) (ep_got (es_ep v)))"

lemma server_echoes: "server_step env inc v v' \<Longrightarrow> echoes v \<Longrightarrow> echoes v'"
  by (induction rule: server_step.induct) (auto simp: echoes_def split: echo_pc.splits)

text \<open>A failed read changes nothing, so every step of the server is a run of steps of its endpoint.\<close>

lemma read_error:
  assumes "circ_ok (e_circ env)" and "conn_Read env [] n sw = Some (d, Some e, sw')"
  shows "sw' = sw"
proof -
  have "fst (snd (consumeBufferDataLocked env n s)) = None" for s
  proof -
    obtain k b where "cb_Write (e_circ env) (cb_Reset (e_circ env) (recvBuf s)) (drop n (cb_Bytes (e_circ env) (recvBuf s))) = (k, None, b)"
      using circ_write [OF assms(1)] by metis
    then show ?thesis by (simp add: consumeBufferDataLocked_def Let_def)
  qed
  then have "consumeBufferDataLocked env n s \<noteq> (x, Some y, z)" for s x y z by (metis fst_conv option.distinct(1) snd_conv)
  with assms(2) show ?thesis
    by (auto simp: conn_Read_def waitForReadDataLocked.simps [of env "[]"] split: option.splits if_splits prod.splits)
qed

lemma server_link:
  assumes "server_step env inc v v'" and "circ_ok (e_circ env)"
  shows "(ep_step env inc)\<^sup>*\<^sup>* (es_ep v) (es_ep v')"
  using assms(1)
proof cases
  case (echo_other e')
  then show ?thesis by (simp add: r_into_rtranclp)
next
  case (echo_read raw err sw data)
  then have "err = None" "raw = data" by (auto simp: readFromClient_def split: option.splits)
  with echo_read ep_read [of env bufSize "es_ep v" data sw inc] show ?thesis by (simp add: r_into_rtranclp)
next
  case (echo_chunk chunk rest sw)
  let ?e = "(es_ep v)\<lparr>ep_conn := sw, ep_put := ep_put (es_ep v) @ [chunk]\<rparr>"
  have 1: "ep_step env inc (es_ep v) ?e" using echo_chunk ep_write [of "es_ep v" chunk env sw inc] by simp
  have 2: "ep_step env inc ?e (?e\<lparr>ep_conn := extendReadDeadline sw\<rparr>)"
    using ep_internal [of "ReadDeadline (Some (w_now (snd sw) + readDeadlineAfter))" env inc ?e] by (simp add: extendReadDeadline_def)
  have "?e\<lparr>ep_conn := extendReadDeadline sw\<rparr> = (es_ep v)\<lparr>ep_conn := extendReadDeadline sw, ep_put := ep_put (es_ep v) @ [chunk]\<rparr>" by simp
  with 1 2 echo_chunk(1) show ?thesis by (cases "rest = []") (simp_all add: r_into_rtranclp rtranclp.rtrancl_into_rtrancl [OF r_into_rtranclp])
next
  case (echo_end raw err sw)
  then obtain e where "err = Some e" by (auto simp: readFromClient_def split: option.splits)
  with echo_end read_error [OF assms(2)] have "sw = ep_conn (es_ep v)" by blast
  with echo_end ep_internal [of CloseConn env inc "es_ep v"] show ?thesis by (simp add: closeConnection_def r_into_rtranclp)
next
  case (echo_give_up data)
  with ep_internal [of CloseConn env inc "es_ep v"] show ?thesis by (simp add: closeConnection_def r_into_rtranclp)
next
  case echo_shutdown
  with ep_internal [of CloseConn env inc "es_ep v"] show ?thesis by (simp add: closeConnection_def r_into_rtranclp)
qed

lemma link_right_run:
  "(ep_step eb (w_wire (snd (ep_conn a))))\<^sup>*\<^sup>* b b' \<Longrightarrow> link_reach ea eb a0 b0 a b \<Longrightarrow> link_reach ea eb a0 b0 a b'"
  by (induction rule: rtranclp_induct) (auto intro: link_right)

lemma client_link:
  assumes "client_step env inc c c'" and "circ_ok (e_circ env)"
  shows "(ep_step env inc)\<^sup>*\<^sup>* (ec_ep c) (ec_ep c')"
  using assms(1)
proof cases
  case (client_other e')
  then show ?thesis by (simp add: r_into_rtranclp)
next
  case (client_chunk msg chunk rest sw)
  with ep_write [of "ec_ep c" chunk env sw inc] show ?thesis by (simp add: r_into_rtranclp)
next
  case (client_sent msg)
  with ep_internal [of "ReadDeadline (Some (w_now (snd (ep_conn (ec_ep c))) + responseDeadline))" env inc "ec_ep c"]
  show ?thesis by (simp add: awaitResponse_def r_into_rtranclp)
next
  case (client_read msg buf data sw)
  with ep_read [of env "bufSize - length buf" "ec_ep c" data sw inc] show ?thesis by (simp add: r_into_rtranclp)
next
  case (client_unread msg buf data err sw)
  with read_error [OF assms(2)] have "sw = ep_conn (ec_ep c)" by blast
  with client_unread show ?thesis by simp
qed simp_all

lemma echo_link:
  assumes "echo_reach ec es c0 v0 c v" and "circ_ok (e_circ ec)" and "circ_ok (e_circ es)"
  shows "link_reach ec es (ec_ep c0) (es_ep v0) (ec_ep c) (es_ep v)"
  using assms(1)
proof (induction rule: echo_reach.induct)
  case (echo_client c v c')
  then show ?case using client_link [OF _ assms(2)] by (blast intro: link_left_run)
next
  case (echo_server c v v')
  then show ?case using server_link [OF _ assms(3)] by (blast intro: link_right_run)
qed (rule link_begin)

lemma echo_inv: "echo_reach ec es c0 v0 c v \<Longrightarrow> echoes v0 \<Longrightarrow> echoes v"
  by (induction rule: echo_reach.induct) (auto intro: server_echoes)

lemma echoes_prefix: "echoes v \<Longrightarrow> prefix (concat (ep_put (es_ep v))) (ep_got (es_ep v))"
  by (auto simp: echoes_def split: echo_pc.splits)

lemma echo_got_prefix:
  assumes "echo_reach ec es c0 v0 c v" and "link_start ec es (ec_ep c0) (es_ep v0)" and "es_pc v0 = Reading" and "lib_ok (e_lib ec)"
    and "e_lib es = e_lib ec" and "circ_ok (e_circ ec)" and "circ_ok (e_circ es)"
  shows "prefix (ep_got (ec_ep c)) (concat (ep_put (ec_ep c)))"
proof -
  note i = link_invariant [OF echo_link [OF assms(1,6,7)] assms(4,5,6,7,2) refl refl refl refl]
  have "echoes v0" using assms(2,3) by (simp add: echoes_def link_start_def ep_fresh_def)
  then have e: "echoes v" by (rule echo_inv [OF assms(1)])
  have "prefix (ep_got (ec_ep c)) (concat (ep_put (es_ep v)))" "prefix (ep_got (es_ep v)) (concat (ep_put (ec_ep c)))"
    using i by (auto intro: rx_stream_prefix(1) simp: tx_stream_def)
  with echoes_prefix [OF e] show ?thesis by (meson prefix_order.trans)
qed

lemma echo_tested:
  assumes "echo_reach ec es c0 v0 c v" and "link_start ec es (ec_ep c0) (es_ep v0)" and "es_pc v0 = Reading" and "lib_ok (e_lib ec)"
    and "e_lib es = e_lib ec" and "circ_ok (e_circ ec)" and "circ_ok (e_circ es)" and "ec_pc c0 = Between"
  shows "tested (ec_todo c0) c"
  using assms(1)
proof (induction rule: echo_reach.induct)
  case echo_begin
  then show ?case using assms(2,8) by (simp add: tested_def link_start_def ep_fresh_def)
next
  case (echo_client c v c')
  from client_tested [OF echo_client(2,3) echo_got_prefix [OF echo_client(1) assms(2-7)]] show ?case .
qed

section \<open>Properties\<close>

text \<open>
  C5. The echo client never sees a mismatch: let \<^verbatim>\<open>runEchoTest\<close> send its messages over a connection to \<^verbatim>\<open>handleConnection\<close> of the server.  However
  client, server, their goroutines and timers interleave and whatever the network loses, repeats and reorders, as long as no probe of the persist
  timer is sent, I2CP refuses no data packet, no unread byte is overwritten in a receive buffer and fewer than \<open>2 ^ 31\<close> packets are sent in a
  direction: what the client has read is always a prefix of what it has written, its tests do not end with a mismatch, and when they end
  successfully it has written exactly its messages and read them all back.
\<close>

theorem echo_verified:
  assumes "echo_reach ec es c0 v0 c v" and "link_start ec es (ec_ep c0) (es_ep v0)" and "es_pc v0 = Reading" and "lib_ok (e_lib ec)"
    and "e_lib es = e_lib ec" and "circ_ok (e_circ ec)" and "circ_ok (e_circ es)" and "ec_pc c0 = Between"
  shows "prefix (ep_got (ec_ep c)) (concat (ep_put (ec_ep c))) \<and> ec_pc c \<noteq> Ended (EchoMismatch sent got) \<and>
    (ec_pc c = Ended EchoVerified \<longrightarrow> concat (ep_put (ec_ep c)) = concat (ec_todo c0) \<and> ep_got (ec_ep c) = concat (ec_todo c0))"
  using echo_got_prefix [OF assms(1-7)] echo_tested [OF assms] by (auto simp: tested_def Let_def)

theorem echo_verified_witness:
  "\<exists>c v. echo_reach demo_env demo_env \<lparr>ec_ep = demo_left, ec_pc = Between, ec_todo = [[7, 8]]\<rparr> \<lparr>es_ep = demo_right, es_pc = Reading\<rparr> c v \<and>
     ec_pc c = Sending [7, 8] [] \<and> es_pc v = Echoing [7, 8] \<and> prefix (ep_got (ec_ep c)) (concat (ep_put (ec_ep c)))"
proof -
  let ?v0 = "\<lparr>es_ep = demo_right, es_pc = Reading\<rparr>" and ?start = "\<lparr>ec_ep = demo_left, ec_pc = Between, ec_todo = [[7, 8]]\<rparr>"
  let ?sending = "?start\<lparr>ec_pc := Sending [7, 8] [7, 8], ec_todo := []\<rparr>"
  let ?c = "\<lparr>ec_ep = demo_left\<lparr>ep_conn := demo_sent, ep_put := [[7, 8]]\<rparr>, ec_pc = Sending [7, 8] [], ec_todo = []\<rparr>"
  let ?R = "echo_reach demo_env demo_env ?start ?v0"
  have w: "w_wire (snd (ep_conn (ec_ep ?c))) = w_wire (snd demo_sent)" by simp
  have 0: "?R ?sending ?v0" by (rule echo_client [OF echo_begin client_next]) simp_all
  have s: "validateWriteStateLocked (ep_conn demo_left) = None" "\<not> windowFull_send (fst (ep_conn demo_left))" "ep_put demo_left = []"
    by code_simp+
  obtain sw where sd: "sendDataChunk demo_env [7, 8] (ep_conn demo_left) = (None, sw)"
    using sendDataChunk_accepted [of demo_env "[7, 8]" "ep_conn demo_left"] by (auto simp: demo_session_def)
  then have "sw = demo_sent" by (simp add: demo_sent_def)
  with 0 s sd echo_client [OF 0 client_chunk [of ?sending "[7, 8]" "[7, 8]" "[]" demo_env demo_sent]] have 1: "?R ?c ?v0" by simp
  let ?e = "demo_right\<lparr>ep_conn := conn_do demo_env (Deliver True demo_arrival) (ep_conn demo_right)\<rparr>" and ?e' = "demo_right\<lparr>ep_conn := demo_received\<rparr>"
  have 2: "?R ?c (?v0\<lparr>es_ep := ?e\<rparr>)"
    using echo_server [OF 1 echo_other [of demo_env _ ?v0 ?e]] demo_receive_steps(1) by (simp add: w)
  have 3: "?R ?c (?v0\<lparr>es_ep := ?e'\<rparr>)"
    using echo_server [OF 2 echo_other [of demo_env _ "?v0\<lparr>es_ep := ?e\<rparr>" ?e']] demo_receive_steps(2) by simp
  obtain sw' where r: "conn_Read demo_env [] bufSize demo_received = Some ([7, 8], None, sw')" by (rule demo_read [of bufSize]) (auto simp: bufSize_def)
  have 4: "?R ?c (?v0\<lparr>es_ep := ?e'\<lparr>ep_conn := sw', ep_got := ep_got demo_right @ [7, 8]\<rparr>, es_pc := Echoing [7, 8]\<rparr>)"
    using echo_server [OF 3 echo_read [of "?v0\<lparr>es_ep := ?e'\<rparr>" demo_env "[7, 8]" None sw' "[7, 8]"]] r demo_no_overflow by (simp add: readFromClient_def)
  from echo_verified [OF 4 _ _ _ refl] demo_link_start byte_lib_ok list_circ_ok
  have "prefix (ep_got (ec_ep ?c)) (concat (ep_put (ec_ep ?c)))" by simp
  with 4 show ?thesis by (intro exI [of _ ?c] exI) (rule conjI, assumption, simp)
qed

end
