(* ===== verification/Timers.thy ===== *)
theory Timers
  imports Lifecycle
begin

text \<open>
  The timers behind the waits of \<^verbatim>\<open>Read\<close> and \<^verbatim>\<open>Write\<close> in \<^verbatim>\<open>stream.go\<close>.

  A timer is the time until it fires, computed when the wait begins; when it fires, a goroutine broadcasts on the condition variable.  A
  wake-up by the timer is thus a function of the state in which the wait began: time has passed until the timer fired, plus the delay
  of the scheduler.  With these functions as the wake-ups, the waits of \<^verbatim>\<open>Read\<close> and \<^verbatim>\<open>Write\<close> end.
\<close>

section \<open>Timers\<close>

definition Nanosecond :: duration where "Nanosecond = 1"

text \<open>\<^verbatim>\<open>time.Until\<close>; the zero time is long ago.\<close>

definition timerFor :: "instant \<Rightarrow> instant option \<Rightarrow> duration" where
  "timerFor now t = (case t of None \<Rightarrow> Nanosecond
     | Some t \<Rightarrow> let timeout = t - now in if timeout \<le> 0 then Nanosecond else timeout)"

definition createChokeTimer :: "instant \<Rightarrow> ('d, 'b) StreamConn \<Rightarrow> duration" where
  "createChokeTimer now s =
     (if writeDeadline s \<noteq> None then timerFor now (writeDeadline s) else timerFor now (chokedUntil s))"

definition setupWindowWaitTimer :: "instant \<Rightarrow> ('d, 'b) StreamConn \<Rightarrow> duration option" where
  "setupWindowWaitTimer now s =
     (if writeDeadline s = None then None else Some (timerFor now (writeDeadline s)))"

definition setupReadTimer :: "instant \<Rightarrow> ('d, 'b) StreamConn \<Rightarrow> duration option" where
  "setupReadTimer now s =
     (case readDeadline s of None \<Rightarrow> None
      | Some t \<Rightarrow> let timeout = t - now in if timeout \<le> 0 then None else Some timeout)"

text \<open>The goroutine of \<^verbatim>\<open>waitWithTimerSignal\<close>, and the one in \<^verbatim>\<open>setupReadTimer\<close>, when the timer fires \<open>late\<close> nanoseconds late.\<close>

definition waitWithTimerSignal :: "duration \<Rightarrow> nat \<Rightarrow> ('d, 'b) interference" where
  "waitWithTimerSignal timeout late sw =
     (broadcast_send (fst sw), (snd sw)\<lparr>w_now := w_now (snd sw) + timeout + int late\<rparr>)"

definition chokeTimerFires :: "nat \<Rightarrow> ('d, 'b) interference" where
  "chokeTimerFires late sw = waitWithTimerSignal (createChokeTimer (w_now (snd sw)) (fst sw)) late sw"

definition windowTimerFires :: "nat \<Rightarrow> ('d, 'b) interference" where
  "windowTimerFires late sw =
     (case setupWindowWaitTimer (w_now (snd sw)) (fst sw) of None \<Rightarrow> sw
      | Some timeout \<Rightarrow> waitWithTimerSignal timeout late sw)"

definition readTimerFires :: "nat \<Rightarrow> ('d, 'b) interference" where
  "readTimerFires late sw =
     (case setupReadTimer (w_now (snd sw)) (fst sw) of None \<Rightarrow> sw
      | Some timeout \<Rightarrow> (broadcast_recv (fst sw), (snd sw)\<lparr>w_now := w_now (snd sw) + timeout + int late\<rparr>))"

text \<open>
  \<^verbatim>\<open>waitForChokeFallback\<close> sleeps without the lock; \<open>f\<close> is what happens meanwhile.
\<close>

definition waitForChokeFallback :: "('d, 'b) interference \<Rightarrow> ('d, 'b) conn_world \<Rightarrow> goerror option \<times> ('d, 'b) conn_world" where
  "waitForChokeFallback f sw =
     (let (s, w) = sw;
          waitDuration = (case chokedUntil s of None \<Rightarrow> 0 | Some t \<Rightarrow> t - w_now w);
          waitDuration = (case writeDeadline s of None \<Rightarrow> waitDuration
             | Some d \<Rightarrow> let timeUntilDeadline = d - w_now w
                         in if timeUntilDeadline < waitDuration then timeUntilDeadline else waitDuration)
      in if waitDuration \<le> 0 then (Some TimeoutError, sw)
         else
           let (s, w) = f sw; w = w\<lparr>w_now := w_now w + waitDuration\<rparr>; sw = (s, w)
           in if checkWriteDeadlineLocked sw \<noteq> None then (checkWriteDeadlineLocked sw, sw)
              else (validateWriteStateLocked sw, sw))"

section \<open>What a timer does\<close>

text \<open>With a write deadline both timers of a writer wait for it.\<close>

lemma write_timers:
  assumes "writeDeadline (fst sw) = Some t"
  shows "chokeTimerFires late sw = windowTimerFires late sw"
    and "fst (windowTimerFires late sw) = broadcast_send (fst sw)"
    and "w_now (snd (windowTimerFires late sw)) = max t (w_now (snd sw) + 1) + int late \<or>
      w_now (snd (windowTimerFires late sw)) = t + int late \<and> w_now (snd sw) < t"
  using assms
  by (auto simp: chokeTimerFires_def windowTimerFires_def createChokeTimer_def setupWindowWaitTimer_def waitWithTimerSignal_def
      timerFor_def Nanosecond_def Let_def max_def)

section \<open>A wait for a deadline ends\<close>

text \<open>Waiting with more wake-ups in stock goes on where it was.\<close>

lemma wait_loop_more:
  "wait_loop blocks ws sw = Some (r, ws', sw') \<Longrightarrow> wait_loop blocks (ws @ xs) sw = Some (r, ws' @ xs, sw')"
proof (induction ws arbitrary: sw)
  case Nil
  then show ?case by (auto simp: wait_loop.simps [of blocks "[]"] wait_loop.simps [of blocks xs] split: if_splits)
next
  case (Cons f fs)
  then show ?case by (auto simp: wait_loop.simps [of blocks "f # fs"] wait_loop.simps [of blocks "f # fs @ xs"] Let_def split: if_splits)
qed

text \<open>A wait that uses up its wake-ups is blocked in a state that the last of them left.\<close>

lemma wait_loop_blocked:
  assumes "wait_loop blocks ws sw = None" and "\<And>f sw. f \<in> set ws \<Longrightarrow> R sw (f sw)" and "reflp R" and "transp R"
    and "validateWriteStateLocked sw = None"
  obtains sw1 where "R sw sw1" and "blocks sw1" and "validateWriteStateLocked sw1 = None"
    and "\<And>xs. wait_loop blocks (ws @ xs) sw = wait_loop blocks xs sw1"
proof -
  have "\<exists>sw1. R sw sw1 \<and> blocks sw1 \<and> validateWriteStateLocked sw1 = None \<and>
      (\<forall>xs. wait_loop blocks (ws @ xs) sw = wait_loop blocks xs sw1)"
    using assms(1,2,5)
  proof (induction ws arbitrary: sw)
    case Nil
    then show ?case using reflpD [OF assms(3)]
      by (intro exI [of _ sw]) (auto simp: wait_loop.simps [of blocks "[]"] split: if_splits)
  next
    case (Cons f fs)
    have b: "blocks sw" "checkWriteDeadlineLocked sw = None" "checkWriteDeadlineLocked (f sw) = None"
      "validateWriteStateLocked (f sw) = None" "wait_loop blocks fs (f sw) = None"
      using Cons.prems(1) unfolding wait_loop.simps [of blocks "f # fs"] by (auto simp: Let_def split: if_splits)
    from Cons.IH [OF b(5) _ b(4)] Cons.prems(2) obtain sw1 where sw1: "R (f sw) sw1" "blocks sw1" "validateWriteStateLocked sw1 = None"
      "\<forall>xs. wait_loop blocks (fs @ xs) (f sw) = wait_loop blocks xs sw1" by auto
    have "wait_loop blocks ((f # fs) @ xs) sw = wait_loop blocks (fs @ xs) (f sw)" for xs
      using b by (simp add: wait_loop.simps [of blocks "f # fs @ xs"] Let_def)
    moreover have "R sw sw1" using sw1(1) Cons.prems(2) transpD [OF assms(4)] by (meson list.set_intros(1))
    ultimately show ?case using sw1 by (intro exI [of _ sw1]) simp
  qed
  then show thesis using that by blast
qed

text \<open>The timer of the wait a writer is in.\<close>

definition writeTimerFires :: "nat \<Rightarrow> ('d, 'b) interference" where
  "writeTimerFires late sw = (if chokeBlocks sw then chokeTimerFires late sw else windowTimerFires late sw)"

lemma write_timer:
  assumes "writeDeadline (fst sw) = Some t"
  shows "fst (writeTimerFires late sw) = broadcast_send (fst sw)" and "t \<le> w_now (snd (writeTimerFires late sw))"
    and "t \<le> w_now (snd sw) \<Longrightarrow> t < w_now (snd (writeTimerFires late sw))"
  using write_timers [OF assms, of late] by (auto simp: writeTimerFires_def)

lemma after_deadline: "writeDeadline (fst sw) = Some t \<Longrightarrow> checkWriteDeadlineLocked sw = (if t < w_now (snd sw) then Some TimeoutError else None)"
  by (simp add: checkWriteDeadlineLocked_def deadlineExceeded_def)

lemma wait_loop_late:
  assumes "writeDeadline (fst sw) = Some t" and "t \<le> w_now (snd sw)"
  obtains r ws sw' where "wait_loop blocks (writeTimerFires a # xs) sw = Some (r, ws, sw')"
    and "r = None \<Longrightarrow> ws = writeTimerFires a # xs \<and> sw' = sw"
proof -
  have d: "writeDeadline (fst (writeTimerFires a sw)) = Some t" using write_timer(1) [OF assms(1), of a] assms(1) by (simp add: broadcast_send_def)
  from after_deadline [OF this] write_timer(3) [OF assms, of a] have c: "checkWriteDeadlineLocked (writeTimerFires a sw) = Some TimeoutError" by simp
  show thesis
  proof (cases "blocks sw \<and> checkWriteDeadlineLocked sw = None")
    case True
    with that c show thesis by (simp add: wait_loop.simps [of blocks] Let_def)
  next
    case False
    with that show thesis by (cases "blocks sw") (simp_all add: wait_loop.simps [of blocks])
  qed
qed

text \<open>At its deadline a writer needs one more wake-up at most, to be one nanosecond late.\<close>

lemma writeChunks_late:
  assumes "0 < mtu" and "writeDeadline (fst sw) = Some t" and "t \<le> w_now (snd sw)"
  shows "writeChunksLocked env (writeTimerFires a # xs) data totalLen mtu sw \<noteq> None"
  using assms(2,3)
proof (induction "length data" arbitrary: data sw rule: less_induct)
  case less
  show ?case
  proof (cases "data = []")
    case True
    then show ?thesis by (simp add: writeChunksLocked.simps)
  next
    case False
    obtain r ws sw1 where w: "waitForWindowSpace (writeTimerFires a # xs) sw = Some (r, ws, sw1)"
      and n: "r = None \<Longrightarrow> ws = writeTimerFires a # xs \<and> sw1 = sw"
      unfolding waits_are_loops by (rule wait_loop_late [OF less.prems, of "\<lambda>sw. windowFull_send (fst sw)" a xs]) auto
    define c where "c = (if mtu < length data then take mtu data else data)"
    obtain r2 s2 w2 where sd: "sendDataChunk env c sw = (r2, s2, w2)" by (metis prod_cases3)
    have l: "length (drop (length c) data) < length data" using False assms(1) by (auto simp: c_def)
    have "writeDeadline s2 = Some t" "t \<le> w_now w2" if "r2 = None"
      using sd less.prems that by (cases sw; auto elim!: sendDataChunk_sent)+
    with less.hyps [OF l, of "(s2, w2)"] n sd w False show ?thesis
      unfolding writeChunksLocked.simps [of env "writeTimerFires a # xs" data]
      by (cases r; cases r2) (auto simp: c_def [symmetric] Let_def)
  qed
qed

lemma wait_loop_two:
  assumes "writeDeadline (fst sw) = Some t" and "validateWriteStateLocked sw = None" and "blocks sw"
  obtains r ws sw' where "wait_loop blocks (writeTimerFires a # writeTimerFires b # xs) sw = Some (r, ws, sw')"
    and "r = None \<Longrightarrow> ws = writeTimerFires b # xs \<and> writeDeadline (fst sw') = Some t \<and> t \<le> w_now (snd sw')"
proof -
  let ?s = "writeTimerFires a sw"
  have d: "writeDeadline (fst ?s) = Some t" "t \<le> w_now (snd ?s)"
    using write_timer(1,2) [OF assms(1), of a] assms(1) by (simp_all add: broadcast_send_def)
  have v: "validateWriteStateLocked ?s = checkWriteDeadlineLocked ?s"
    using assms(2) [unfolded validate_ok] write_timer(1) [OF assms(1), of a]
    by (simp add: validateWriteStateLocked_def checkWriteDeadlineLocked_def broadcast_send_def)
  have c: "checkWriteDeadlineLocked sw = None" using assms(2) by (simp add: validate_ok)
  obtain r ws sw' where w: "wait_loop blocks (writeTimerFires b # xs) ?s = Some (r, ws, sw')"
    "r = None \<Longrightarrow> ws = writeTimerFires b # xs \<and> sw' = ?s" by (rule wait_loop_late [OF d, of blocks b xs]) auto
  show thesis
  proof (cases "checkWriteDeadlineLocked ?s")
    case None
    with w d v c assms(3) that show thesis by (simp add: wait_loop.simps [of blocks "writeTimerFires a # writeTimerFires b # xs"] Let_def)
  next
    case (Some e)
    with c assms(3) that show thesis by (simp add: wait_loop.simps [of blocks "writeTimerFires a # writeTimerFires b # xs"] Let_def)
  qed
qed

lemma writeChunks_deadline:
  assumes "0 < mtu" and "writeChunksLocked env waits data totalLen mtu sw = None" and "validateWriteStateLocked sw = None"
    and "\<And>f sw. f \<in> set waits \<Longrightarrow> writeDeadline (fst (f sw)) = writeDeadline (fst sw)" and "writeDeadline (fst sw) = Some t"
  shows "writeChunksLocked env (waits @ [writeTimerFires a, writeTimerFires b]) data totalLen mtu sw \<noteq> None"
  using assms(2-)
proof (induction "length data" arbitrary: data waits sw rule: less_induct)
  case less
  let ?R = "\<lambda>x y. writeDeadline (fst y) = writeDeadline (fst x)" and ?B = "\<lambda>sw. windowFull_send (fst sw)"
  have R: "reflp ?R" "transp ?R" by (auto simp: reflp_def transp_def)
  have ne: "data \<noteq> []" using less.prems(1) by (auto simp: writeChunksLocked.simps)
  define c where "c = (if mtu < length data then take mtu data else data)"
  have l: "length (drop (length c) data) < length data" using ne assms(1) by (auto simp: c_def)
  show ?case
  proof (cases "wait_loop ?B waits sw")
    case None
    then obtain sw1 where sw1: "?R sw sw1" "?B sw1" "validateWriteStateLocked sw1 = None"
      "\<And>xs. wait_loop ?B (waits @ xs) sw = wait_loop ?B xs sw1"
      by (rule wait_loop_blocked [where R = ?R]) (use less.prems R in auto)
    have d: "writeDeadline (fst sw1) = Some t" using sw1(1) less.prems(4) by simp
    obtain r ws sw2 where w: "wait_loop ?B [writeTimerFires a, writeTimerFires b] sw1 = Some (r, ws, sw2)"
      "r = None \<Longrightarrow> ws = [writeTimerFires b] \<and> writeDeadline (fst sw2) = Some t \<and> t \<le> w_now (snd sw2)"
      by (rule wait_loop_two [OF d sw1(3), of ?B a b "[]"]) (use sw1(2) in auto)
    obtain r2 s3 w3 where sd: "sendDataChunk env c sw2 = (r2, s3, w3)" by (metis prod_cases3)
    have "writeChunksLocked env [writeTimerFires b] (drop (length c) data) totalLen mtu (s3, w3) \<noteq> None" if "r = None" "r2 = None"
      by (rule writeChunks_late [OF assms(1), of _ t]) (use w(2) that sd in \<open>cases sw2; auto elim!: sendDataChunk_sent\<close>)+
    with w sd ne sw1(4) show ?thesis
      unfolding writeChunksLocked.simps [of env "waits @ _" data] waits_are_loops
      by (cases r; cases r2) (auto simp: c_def [symmetric] Let_def)
  next
    case (Some x)
    obtain r ws sw1 where x: "wait_loop ?B waits sw = Some (r, ws, sw1)" using Some by (cases x) auto
    from wait_loop_rely [OF x, of ?R] less.prems(3) R have rel: "?R sw sw1" "set ws \<subseteq> set waits" by auto
    obtain r2 s2 w2 where sd: "sendDataChunk env c sw1 = (r2, s2, w2)" by (metis prod_cases3)
    have n: "r = None" "r2 = None" "writeChunksLocked env ws (drop (length c) data) totalLen mtu (s2, w2) = None"
      using less.prems(1) ne x sd unfolding writeChunksLocked.simps [of env waits data] waits_are_loops
      by (auto simp: c_def [symmetric] Let_def split: option.splits)
    have v: "validateWriteStateLocked (s2, w2) = None" "writeDeadline s2 = Some t"
      using wait_loop_free [OF x [unfolded n(1)] less.prems(2)] sd n(2) rel(1) less.prems(4)
      by (cases sw1; auto simp: validate_ok checkWriteDeadlineLocked_def elim!: sendDataChunk_sent)+
    have "writeChunksLocked env (ws @ [writeTimerFires a, writeTimerFires b]) (drop (length c) data) totalLen mtu (s2, w2) \<noteq> None"
      by (rule less.hyps [OF l n(3) v(1)]) (use rel(2) less.prems(3) v(2) in auto)
    with wait_loop_more [OF x, of "[writeTimerFires a, writeTimerFires b]"] n sd ne show ?thesis
      unfolding writeChunksLocked.simps [of env "waits @ _" data] waits_are_loops by (auto simp: c_def [symmetric] Let_def)
  qed
qed

lemma Write_deadline:
  assumes "conn_Write env waits data sw = None" and "writeDeadline (fst sw) = Some t"
    and "\<And>f sw. f \<in> set waits \<Longrightarrow> writeDeadline (fst (f sw)) = writeDeadline (fst sw) \<and>
      (0 < getNegotiatedMTULocked (fst sw) \<longrightarrow> 0 < getNegotiatedMTULocked (fst (f sw)))"
    and "0 < getNegotiatedMTULocked (fst sw)"
  shows "conn_Write env (waits @ [writeTimerFires a, writeTimerFires b]) data sw \<noteq> None"
proof -
  let ?R = "\<lambda>x y. writeDeadline (fst y) = writeDeadline (fst x) \<and> (0 < getNegotiatedMTULocked (fst x) \<longrightarrow> 0 < getNegotiatedMTULocked (fst y))"
  have R: "reflp ?R" "transp ?R" by (auto simp: reflp_def transp_def)
  have v: "validateWriteStateLocked sw = None" using assms(1) by (auto simp: conn_Write_def split: option.splits)
  have wd: "writeDataLocked env ws data x = None \<longleftrightarrow>
      writeChunksLocked env ws data (length data) (unat (getNegotiatedMTULocked (fst x))) x = None" for ws x
    by (auto simp: writeDataLocked_def Let_def split: option.splits)
  show ?thesis
  proof (cases "wait_loop chokeBlocks waits sw")
    case None
    then obtain sw1 where sw1: "?R sw sw1" "chokeBlocks sw1" "validateWriteStateLocked sw1 = None"
      "\<And>xs. wait_loop chokeBlocks (waits @ xs) sw = wait_loop chokeBlocks xs sw1"
      by (rule wait_loop_blocked [where R = ?R]) (use assms(3) R v in auto)
    have d: "writeDeadline (fst sw1) = Some t" using sw1(1) assms(2) by simp
    obtain r ws sw2 where w: "wait_loop chokeBlocks [writeTimerFires a, writeTimerFires b] sw1 = Some (r, ws, sw2)"
      "r = None \<Longrightarrow> ws = [writeTimerFires b] \<and> writeDeadline (fst sw2) = Some t \<and> t \<le> w_now (snd sw2)"
      by (rule wait_loop_two [OF d sw1(3), of chokeBlocks a b "[]"]) (use sw1(2) in auto)
    have m: "0 < unat (getNegotiatedMTULocked (fst sw2))"
    proof -
      have f: "getNegotiatedMTULocked (fst (writeTimerFires l x)) = getNegotiatedMTULocked (fst x)" for l and x :: "('a, 'b) conn_world"
        by (auto simp: writeTimerFires_def chokeTimerFires_def windowTimerFires_def waitWithTimerSignal_def broadcast_send_def
            getNegotiatedMTULocked_def split: option.split)
      from wait_loop_rely [OF w(1), of "\<lambda>x y. getNegotiatedMTULocked (fst y) = getNegotiatedMTULocked (fst x)"] f
      have "getNegotiatedMTULocked (fst sw2) = getNegotiatedMTULocked (fst sw1)" by (auto simp: reflp_def transp_def)
      then show ?thesis using sw1(1) assms(4) by (simp add: word_less_nat_alt)
    qed
    have "writeChunksLocked env [writeTimerFires b] data (length data) (unat (getNegotiatedMTULocked (fst sw2))) sw2 \<noteq> None" if "r = None"
      by (rule writeChunks_late [OF m, of _ t]) (use w(2) that in auto)
    with w v sw1(4) show ?thesis
      by (cases r) (auto simp: conn_Write_def handleChokeWait_loop wd simp del: not_None_eq)
  next
    case (Some x)
    obtain r ws sw1 where x: "wait_loop chokeBlocks waits sw = Some (r, ws, sw1)" using Some by (cases x) auto
    from wait_loop_rely [OF x, of ?R] assms(3) R have rel: "?R sw sw1" "set ws \<subseteq> set waits" by auto
    have n: "r = None" "writeChunksLocked env ws data (length data) (unat (getNegotiatedMTULocked (fst sw1))) sw1 = None"
      using assms(1) x v by (auto simp: conn_Write_def handleChokeWait_loop wd [symmetric] split: option.splits)
    have "0 < unat (getNegotiatedMTULocked (fst sw1))" using rel(1) assms(4) by (simp add: word_less_nat_alt)
    from writeChunks_deadline [OF this n(2), of t a b] wait_loop_free [OF x [unfolded n(1)] v] rel assms(2,3)
    have "writeChunksLocked env (ws @ [writeTimerFires a, writeTimerFires b]) data (length data) (unat (getNegotiatedMTULocked (fst sw1))) sw1 \<noteq> None"
      by (simp add: subset_iff)
    with wait_loop_more [OF x, of "[writeTimerFires a, writeTimerFires b]"] n(1) v show ?thesis
      by (simp add: conn_Write_def handleChokeWait_loop wd del: not_None_eq)
  qed
qed

section \<open>A read with a deadline ends\<close>

declare waitForReadDataLocked.simps [simp del]

lemma read_wait_blocked:
  assumes "waitForReadDataLocked env ws sw = None"
    and "\<And>f sw. f \<in> set ws \<Longrightarrow> readDeadline (fst (f sw)) = readDeadline (fst sw)"
  obtains sw1 where "readDeadline (fst sw1) = readDeadline (fst sw)" and "cb_TotalWritten (e_circ env) (recvBuf (fst sw1)) = 0"
    and "\<not> conn_closed (fst sw1)" and "checkReadDeadlineLocked sw1 = None" and "\<And>t. readDeadline (fst sw1) = Some t \<Longrightarrow> w_now (snd sw1) < t"
    and "\<And>xs. waitForReadDataLocked env (ws @ xs) sw = waitForReadDataLocked env xs sw1"
proof -
  have "\<exists>sw1. readDeadline (fst sw1) = readDeadline (fst sw) \<and> cb_TotalWritten (e_circ env) (recvBuf (fst sw1)) = 0 \<and>
      \<not> conn_closed (fst sw1) \<and> checkReadDeadlineLocked sw1 = None \<and> (\<forall>t. readDeadline (fst sw1) = Some t \<longrightarrow> w_now (snd sw1) < t) \<and>
      (\<forall>xs. waitForReadDataLocked env (ws @ xs) sw = waitForReadDataLocked env xs sw1)"
    using assms
  proof (induction ws arbitrary: sw)
    case Nil
    then show ?case unfolding waitForReadDataLocked.simps [of env "[]"]
      by (intro exI [of _ sw]) (auto split: if_splits option.splits)
  next
    case (Cons f fs)
    have b: "cb_TotalWritten (e_circ env) (recvBuf (fst sw)) = 0 \<and> \<not> conn_closed (fst sw)" "checkReadDeadlineLocked sw = None"
      "\<not> (case readDeadline (fst sw) of None \<Rightarrow> False | Some t \<Rightarrow> t - w_now (snd sw) \<le> 0)"
      "checkReadDeadlineLocked (f sw) = None" "waitForReadDataLocked env fs (f sw) = None"
      using Cons.prems(1) unfolding waitForReadDataLocked.simps [of env "f # fs"] by (auto simp: Let_def split: if_splits)
    have "waitForReadDataLocked env ((f # fs) @ xs) sw = waitForReadDataLocked env (fs @ xs) (f sw)" for xs
      using b unfolding waitForReadDataLocked.simps [of env "(f # fs) @ xs"] by (simp add: Let_def)
    with Cons.IH [OF b(5)] Cons.prems(2) show ?case by auto
  qed
  then show thesis using that by blast
qed

lemma Read_deadline:
  assumes "conn_Read env waits n sw = None" and "readDeadline (fst sw) = Some t"
    and "\<And>f sw. f \<in> set waits \<Longrightarrow> readDeadline (fst (f sw)) = readDeadline (fst sw)"
  shows "\<exists>sw'. conn_Read env (waits @ [readTimerFires late]) n sw = Some ([], Some TimeoutError, sw') \<and> t \<le> w_now (snd sw')"
proof -
  have v: "validateReadStateLocked env (fst sw) = None" "waitForReadDataLocked env waits sw = None"
    using assms(1) by (auto simp: conn_Read_def split: option.splits prod.splits)
  from v(2) obtain sw1 where sw1: "readDeadline (fst sw1) = readDeadline (fst sw)" "cb_TotalWritten (e_circ env) (recvBuf (fst sw1)) = 0"
    "\<not> conn_closed (fst sw1)" "checkReadDeadlineLocked sw1 = None" "\<And>t. readDeadline (fst sw1) = Some t \<Longrightarrow> w_now (snd sw1) < t"
    "\<And>xs. waitForReadDataLocked env (waits @ xs) sw = waitForReadDataLocked env xs sw1"
    by (rule read_wait_blocked) (use assms(3) in blast)+
  have d: "readDeadline (fst sw1) = Some t" "w_now (snd sw1) < t" using sw1(1,5) assms(2) by simp_all
  let ?sw = "readTimerFires late sw1"
  have f: "fst ?sw = broadcast_recv (fst sw1)" "w_now (snd ?sw) = t + int late"
    using d by (simp_all add: readTimerFires_def setupReadTimer_def)
  have "waitForReadDataLocked env [readTimerFires late] sw1 = Some (Some TimeoutError, ?sw)"
  proof (cases late)
    case 0
    with f d sw1(2,3,4) have "waitForReadDataLocked env [] ?sw = Some (Some TimeoutError, ?sw)" "checkReadDeadlineLocked ?sw = None"
      by (simp_all add: waitForReadDataLocked.simps [of env "[]"] checkReadDeadlineLocked_def deadlineExceeded_def broadcast_recv_def)
    with d sw1(2,3,4) show ?thesis by (simp add: waitForReadDataLocked.simps [of env "[readTimerFires late]"] Let_def)
  next
    case (Suc k)
    with f d have "checkReadDeadlineLocked ?sw = Some TimeoutError" by (simp add: checkReadDeadlineLocked_def deadlineExceeded_def broadcast_recv_def)
    with d sw1(2,3,4) show ?thesis by (simp add: waitForReadDataLocked.simps [of env "[readTimerFires late]"] Let_def)
  qed
  with v(1) sw1(6) f(2) show ?thesis by (simp add: conn_Read_def)
qed

section \<open>Properties\<close>

text \<open>
  C24. Deadlines end every wait: a \<^verbatim>\<open>Read\<close> with a deadline that is still blocked after any wake-ups returns a time-out error, not before
  the deadline, when the timer it has set fires, however late; and a blocked \<^verbatim>\<open>Write\<close> with a deadline
  returns after its timer has fired twice, the second time because a wake-up exactly at the deadline is one nanosecond early.
\<close>

theorem deadlines_end_waits:
  assumes "readDeadline (fst sw) = Some t" and "\<And>f sw. f \<in> set rwaits \<Longrightarrow> readDeadline (fst (f sw)) = readDeadline (fst sw)"
    and "conn_Read env rwaits len sw = None"
    and "writeDeadline (fst sw') = Some t'" and "0 < getNegotiatedMTULocked (fst sw')"
    and "\<And>f sw. f \<in> set wwaits \<Longrightarrow> writeDeadline (fst (f sw)) = writeDeadline (fst sw) \<and>
      (0 < getNegotiatedMTULocked (fst sw) \<longrightarrow> 0 < getNegotiatedMTULocked (fst (f sw)))"
    and "conn_Write env wwaits data sw' = None"
  shows "(\<exists>x. conn_Read env (rwaits @ [readTimerFires late]) len sw = Some ([], Some TimeoutError, x) \<and> t \<le> w_now (snd x)) \<and>
    (\<exists>n r y. conn_Write env (wwaits @ [writeTimerFires a, writeTimerFires b]) data sw' = Some (n, r, y))"
proof -
  have "\<exists>x. conn_Read env (rwaits @ [readTimerFires late]) len sw = Some ([], Some TimeoutError, x) \<and> t \<le> w_now (snd x)"
    by (rule Read_deadline [OF assms(3,1)]) (rule assms(2))
  moreover have "conn_Write env (wwaits @ [writeTimerFires a, writeTimerFires b]) data sw' \<noteq> None"
    by (rule Write_deadline [OF assms(7,4)]) (use assms(5,6) in auto)
  ultimately show ?thesis by (cases "conn_Write env (wwaits @ [writeTimerFires a, writeTimerFires b]) data sw'") auto
qed

lemma demo_blocked:
  "conn_Read demo_env [] 4 (demo_conn\<lparr>readDeadline := Some 5\<rparr>, demo_world) = None"
  "conn_Write demo_env [] [7] (demo_conn\<lparr>writeDeadline := Some 5, cwnd := 3\<rparr>, demo_world) = None"
  by code_simp (simp add: conn_Write_def validateWriteStateLocked_def deadlineExceeded_def handleChokeWaitLocked_def chokeBlocks_def
      writeDataLocked_def writeChunksLocked.simps [of demo_env "[]"] waitForWindowSpace.simps [of "[]"] windowFull_send_def
      checkWriteDeadlineLocked_def Let_def demo_conn_def demo_world_def)

theorem deadlines_end_waits_witness:
  "(\<exists>x. conn_Read demo_env [readTimerFires 2] 4 (demo_conn\<lparr>readDeadline := Some 5\<rparr>, demo_world) = Some ([], Some TimeoutError, x)) \<and>
   (\<exists>n r y. conn_Write demo_env [writeTimerFires 0, writeTimerFires 0] [7] (demo_conn\<lparr>writeDeadline := Some 5, cwnd := 3\<rparr>, demo_world) = Some (n, r, y))"
  using deadlines_end_waits [of "(demo_conn\<lparr>readDeadline := Some 5\<rparr>, demo_world)" 5 "[]" demo_env 4
      "(demo_conn\<lparr>writeDeadline := Some 5, cwnd := 3\<rparr>, demo_world)" 5 "[]" "[7]" 2 0 0] demo_blocked
  by (auto simp: getNegotiatedMTULocked_def)

text \<open>
  With a write deadline the end of a choke goes unnoticed: a writer that waits for the end of a choke sets its timer to the deadline, so unless
  something else wakes it, it sleeps past the end of the choke and then reports a time-out with nothing written, although the peer would have taken
  its data.
\<close>

theorem deadline_outlasts_choke:
  assumes "validateWriteStateLocked (s, w) = None" and "choked s" and "chokedUntil s = Some c" and "w_now w < c" and "c < t"
    and "writeDeadline s = Some t" and "0 < late"
  shows "createChokeTimer (w_now w) s = t - w_now w \<and> \<not> chokeBlocks (s, w\<lparr>w_now := c\<rparr>) \<and>
    conn_Write env (chokeTimerFires late # waits) data (s, w) = Some (0, Some TimeoutError, chokeTimerFires late (s, w))"
proof -
  let ?sw = "chokeTimerFires late (s, w)"
  have b: "chokeBlocks (s, w)" "checkWriteDeadlineLocked (s, w) = None" using assms(1-4) by (auto simp: chokeBlocks_def validate_ok)
  have c: "createChokeTimer (w_now w) s = t - w_now w" using assms(4,5,6) by (simp add: createChokeTimer_def timerFor_def)
  then have f: "writeDeadline (fst ?sw) = Some t" "w_now (snd ?sw) = t + int late"
    using assms(6) by (simp_all add: chokeTimerFires_def waitWithTimerSignal_def broadcast_send_def)
  have "checkWriteDeadlineLocked ?sw = Some TimeoutError" using after_deadline [OF f(1)] f(2) assms(7) by simp
  then have "conn_Write env (chokeTimerFires late # waits) data (s, w) = Some (0, Some TimeoutError, ?sw)"
    using b assms(1) by (simp add: conn_Write_def handleChokeWaitLocked_def waitForChokeCondVar.simps [of "chokeTimerFires late # waits"] Let_def)
  with c show ?thesis by (simp add: chokeBlocks_def assms(3))
qed

theorem deadline_outlasts_choke_witness:
  "conn_Write demo_env [chokeTimerFires 1] [7] (demo_conn\<lparr>choked := True, chokedUntil := Some 3, writeDeadline := Some 5\<rparr>, demo_world) =
     Some (0, Some TimeoutError, chokeTimerFires 1 (demo_conn\<lparr>choked := True, chokedUntil := Some 3, writeDeadline := Some 5\<rparr>, demo_world))"
  using deadline_outlasts_choke [of "demo_conn\<lparr>choked := True, chokedUntil := Some 3, writeDeadline := Some 5\<rparr>" demo_world 3 5 1 demo_env "[]" "[7]"]
  by (simp add: validate_ok checkWriteDeadlineLocked_def deadlineExceeded_def demo_world_def)

end
