(* ===== verification/Goroutines.thy ===== *)
theory Goroutines
  imports Conn_Identity
begin

text \<open>
  The goroutines of a connection (\<^verbatim>\<open>startConnectionGoroutines\<close>, \<^verbatim>\<open>receiveLoop\<close>, \<^verbatim>\<open>retransmitTimer\<close> and
  \<^verbatim>\<open>inactivityTimer\<close> in \<^verbatim>\<open>stream.go\<close>) as loops over a \<^verbatim>\<open>select\<close>, and how they run and end.

  A round of a goroutine takes one case of its \<^verbatim>\<open>select\<close>; \<open>quit\<close> says that this is the case of the cancelled context.
  A round is \<open>None\<close> when the case is not ready.  The other cases, a tick or a packet, may be taken even when the
  context has been cancelled, since \<^verbatim>\<open>select\<close> chooses freely among the ready ones.  The handlers run under the lock of
  the connection, so the goroutines interleave round by round, with each other and with the callers of the connection.
\<close>

datatype goroutine = ReceiveLoop | RetransmitTimer | InactivityTimer

definition startConnectionGoroutines :: "goroutine list" where
  "startConnectionGoroutines = [ReceiveLoop, RetransmitTimer, InactivityTimer]"

text \<open>A round gives whether the goroutine goes on, and the state it leaves.\<close>

definition receiveLoop ::
  "('d, 'c, 'k, 'b) env \<Rightarrow> bool \<Rightarrow> ('d, 'b) conn_world \<Rightarrow> (bool \<times> ('d, 'b) conn_world) option" where
  "receiveLoop env quit sw =
     (if quit then (if ctxDone (fst sw) then Some (False, sw) else None)
      else case recvChan (fst sw) of
        [] \<Rightarrow> None
      | pkt # pkts \<Rightarrow> Some (True, snd (processPacket env pkt ((fst sw)\<lparr>recvChan := pkts\<rparr>, snd sw))))"

definition retransmitTimer ::
  "('d, 'c, 'k, 'b) env \<Rightarrow> bool \<Rightarrow> ('d, 'b) conn_world \<Rightarrow> (bool \<times> ('d, 'b) conn_world) option" where
  "retransmitTimer env quit sw =
     (if quit then (if ctxDone (fst sw) then Some (False, sw) else None)
      else case checkRetransmissions env sw of
        (Some err, sw) \<Rightarrow> Some (False, conn_Close env sw)
      | (None, sw) \<Rightarrow> Some (True, sw))"

definition inactivityTimer ::
  "('d, 'c, 'k, 'b) env \<Rightarrow> bool \<Rightarrow> ('d, 'b) conn_world \<Rightarrow> (bool \<times> ('d, 'b) conn_world) option" where
  "inactivityTimer env quit sw =
     (if quit then (if ctxDone (fst sw) then Some (False, sw) else None)
      else Some (True, checkInactivity env sw))"

fun goroutine_round ::
  "('d, 'c, 'k, 'b) env \<Rightarrow> goroutine \<Rightarrow> bool \<Rightarrow> ('d, 'b) conn_world \<Rightarrow> (bool \<times> ('d, 'b) conn_world) option" where
  "goroutine_round env ReceiveLoop quit sw = receiveLoop env quit sw"
| "goroutine_round env RetransmitTimer quit sw = retransmitTimer env quit sw"
| "goroutine_round env InactivityTimer quit sw = inactivityTimer env quit sw"

lemmas round_defs = receiveLoop_def retransmitTimer_def inactivityTimer_def

text \<open>The goroutines still running, with the connection; the callers of the connection may do anything in between.\<close>

inductive run :: "('d, 'c, 'k, 'b) env \<Rightarrow> goroutine list \<times> ('d, 'b) conn_world \<Rightarrow> goroutine list \<times> ('d, 'b) conn_world \<Rightarrow> bool"
  for env where
  run_start: "run env st st"
| run_round: "run env st (if alive then gs else remove1 g gs, sw')"
    if "run env st (gs, sw)" and "g \<in> set gs" and "goroutine_round env g quit sw = Some (alive, sw')"
| run_caller: "run env st (gs, conn_do env oper sw)" if "run env st (gs, sw)"

section \<open>Rounds are operations\<close>

lemma round_is_operation:
  assumes "goroutine_round env g quit sw = Some (alive, sw')"
  shows "sw' = sw \<and> ctxDone (fst sw) \<and> \<not> alive \<or> (\<exists>oper. sw' = conn_do env oper sw)"
proof (cases quit)
  case True
  then show ?thesis using assms by (cases g) (auto simp: round_defs split: if_splits)
next
  case False
  show ?thesis
  proof (cases g)
    case ReceiveLoop
    then have "sw' = conn_do env (Receive True) sw"
      using assms False by (auto simp: round_defs receiveLoop_round_def split: list.splits)
    then show ?thesis by blast
  next
    case RetransmitTimer
    then have "sw' = conn_do env (RetransmitTick True) sw"
      using assms False by (auto simp: round_defs retransmitTick_def split: prod.splits option.splits)
    then show ?thesis by blast
  next
    case InactivityTimer
    then have "sw' = conn_do env (InactivityTick True) sw"
      using assms False by (simp add: round_defs)
    then show ?thesis by blast
  qed
qed

lemma run_reach:
  assumes "run env st st'"
  shows "conn_reach env (snd st) (snd st')"
  using assms
proof (induction rule: run.induct)
  case (run_round st gs sw g quit alive sw')
  then show ?case using round_is_operation [OF run_round(3)] by (auto intro: conn_reach.conn_step)
qed (auto intro: conn_reach.intros)

text \<open>Which goroutine may end although the context is not cancelled.\<close>

lemma round_ends:
  assumes "goroutine_round env g quit sw = Some (False, sw')"
  shows "ctxDone (fst sw) \<or> g = RetransmitTimer"
  using assms by (cases g) (auto simp: round_defs split: if_splits list.splits)

section \<open>Properties\<close>

lemma quit_when_done:
  assumes "ctxDone (fst sw)"
  shows "goroutine_round env g True sw = Some (False, sw)"
  using assms by (cases g) (simp_all add: round_defs)

lemma run_trans:
  assumes "run env b c" and "run env a b"
  shows "run env a c"
  using assms
proof (induction rule: run.induct)
  case (run_round st gs sw g quit alive sw')
  show ?case by (rule run.run_round [OF run_round(4) [OF run_round(5)] run_round(2,3)])
qed (auto intro: run.intros)

lemma run_quit_all:
  assumes "ctxDone (fst sw)"
  shows "run env (gs, sw) ([], sw)"
proof (induction gs)
  case (Cons g gs)
  have "run env (g # gs, sw) (if False then g # gs else remove1 g (g # gs), sw)"
    by (rule run_round [OF run_start]) (use quit_when_done [OF assms] in auto)
  with Cons show ?case by (auto intro: run_trans)
qed (rule run_start)

lemma Close_done:
  assumes "\<not> conn_closed (fst sw)"
  shows "ctxDone (fst (conn_Close env sw)) \<and> conn_closed (fst (conn_Close env sw))"
  using assms
  by (cases "sendCloseIfEstablished env sw")
    (simp add: conn_Close_def cleanupConnectionLocked_def wakeBlockedGoroutines_def broadcast_send_def broadcast_recv_def Let_def)

text \<open>
  Closing a connection ends its goroutines: in whatever state \<^verbatim>\<open>Close\<close> finds an open connection, after it every goroutine
  can take the case of the cancelled context, now and after any further steps of the other goroutines and of the callers, so
  a run in which each of them takes that case ends all of them.
\<close>

theorem Close_ends_goroutines:
  assumes "conn_inv (fst sw)" and "\<not> conn_closed (fst sw)" and "run env (gs, conn_Close env sw) (gs', sw')"
  shows "(\<forall>g. goroutine_round env g True sw' = Some (False, sw')) \<and> run env (gs', sw') ([], sw')"
proof -
  have "conn_inv (fst (conn_Close env sw))"
    using conn_do_advances [of sw env CloseConn] assms(1) by (simp add: advances_def)
  then have "ident sw' = ident (conn_Close env sw)"
    using closed_reach_ident [OF run_reach [OF assms(3), unfolded snd_conv]] Close_done [OF assms(2), of env] by simp
  then have "ctxDone (fst sw')" using Close_done [OF assms(2), of env] by (simp add: ident_def)
  then show ?thesis by (simp add: quit_when_done run_quit_all)
qed

theorem Close_ends_goroutines_witness:
  "run demo_env (startConnectionGoroutines, conn_Close demo_env (demo_conn, demo_world)) ([], conn_Close demo_env (demo_conn, demo_world))"
  using Close_ends_goroutines [of "(demo_conn, demo_world)" demo_env startConnectionGoroutines startConnectionGoroutines,
      OF _ _ run_start] demo_conn_inv by simp

text \<open>
  C27. A connection closed by its peer is never released: after a \<^verbatim>\<open>CLOSE\<close> or \<^verbatim>\<open>RESET\<close> packet has closed an established
  connection, and whatever its goroutines and its callers do from then on, calls of \<^verbatim>\<open>Close\<close> included, the manager still routes
  packets to it, the connection limiter still counts it, and its receive loop and its inactivity timer never end.
\<close>

theorem peer_close_leaks:
  assumes "conn_inv s" and "conn_state s = StateEstablished" and "\<not> ctxDone s" and "verifyIfSigned env pkt = None"
    and "hasFlag pkt FlagCLOSE \<or> hasFlag pkt FlagRESET" and "\<not> hasFlag pkt FlagSYN"
    and "processPacket env pkt (s, w) = (r, s1, w1)"
    and "run env (startConnectionGoroutines, s1, w1) (gs, s2, w2)"
  shows "conn_closed s2 \<and> \<not> ctxDone s2 \<and> w_connections w2 = w_connections w \<and> w_limiter w2 = w_limiter w \<and>
    {ReceiveLoop, InactivityTimer} \<subseteq> set gs"
proof -
  have "conn_closed s1"
    using assms(2,4-7) by (auto simp: processPacket_def dispatchPacketByFlags_def handleCloseLocked_def handleResetLocked_def hasFlag_def
        broadcast_recv_def setState_def Let_def split: if_splits prod.splits)
  moreover have i: "conn_inv s1" using processPacket_advances [of "(s, w)" env pkt] assms(1,7) by (simp add: advances_def)
  moreover have "ident (s1, w1) = ident (s, w)"
    using ident_dispatch [of env pkt "(s\<lparr>lastActivity := w_now w\<rparr>, w)"] assms(7)
    by (simp add: processPacket_def del: ident_dispatch)
  ultimately have keep: "ident sw' = ident (s, w) \<and> conn_closed (fst sw')" if "conn_reach env (s1, w1) sw'" for sw'
    using closed_reach_ident [OF that] by simp
  have "{ReceiveLoop, InactivityTimer} \<subseteq> set (fst st')" if "run env (startConnectionGoroutines, s1, w1) st'" for st'
    using that
  proof (induction "(startConnectionGoroutines, s1, w1)" st' rule: run.induct)
    case (run_round gs sw g quit alive sw')
    have "\<not> ctxDone (fst sw)" using keep [OF run_reach [OF run_round(1), unfolded snd_conv]] assms(3) by (simp add: ident_def)
    then have "\<not> alive \<Longrightarrow> g = RetransmitTimer" using round_ends [of env g quit sw sw'] run_round(4) by auto
    with run_round(2) show ?case by (auto simp: in_set_remove1)
  qed (auto simp: startConnectionGoroutines_def)
  from this [OF assms(8)] keep [OF run_reach [OF assms(8), unfolded snd_conv]] assms(3) show ?thesis by (simp add: ident_def)
qed

theorem peer_close_leaks_witness:
  "\<exists>r s1 w1. processPacket demo_env (emptyPacket\<lparr>Flags := FlagCLOSE\<rparr>) (demo_conn, demo_world) = (r, s1, w1) \<and>
     run demo_env (startConnectionGoroutines, s1, w1) (startConnectionGoroutines, conn_Close demo_env (s1, w1)) \<and>
     \<not> ctxDone (fst (conn_Close demo_env (s1, w1)))"
proof -
  let ?p = "emptyPacket\<lparr>Flags := FlagCLOSE\<rparr> :: byte Packet"
  obtain r s1 w1 where p: "processPacket demo_env ?p (demo_conn, demo_world) = (r, s1, w1)" by (metis prod_cases3)
  obtain s2 w2 where c: "conn_Close demo_env (s1, w1) = (s2, w2)" by (metis surj_pair)
  have run: "run demo_env (startConnectionGoroutines, s1, w1) (startConnectionGoroutines, s2, w2)"
    using run_caller [OF run_start, of demo_env startConnectionGoroutines "(s1, w1)" CloseConn] by (simp add: c)
  have "\<not> ctxDone demo_conn" "verifyIfSigned demo_env ?p = None" "hasFlag ?p FlagCLOSE" "\<not> hasFlag ?p FlagSYN"
    by (simp_all add: demo_conn_def verifyIfSigned_def hasFlag_def flag_defs)
  then have "\<not> ctxDone s2" using peer_close_leaks [OF demo_conn_inv _ _ _ _ _ p run] by simp
  with p c run show ?thesis by auto
qed

end
