(* ===== verification/Ping.thy ===== *)
theory Ping
  imports Connect
begin

text \<open>
  Ping and pong, \<^verbatim>\<open>ping.go\<close>: the table of pings that wait for an answer, the packet that asks, the answer of the
  other side, and \<^verbatim>\<open>Ping\<close> with its wait for the answer, the time-out or the end of its context.

  Every call of \<^verbatim>\<open>Ping\<close> makes a result channel of capacity one; a channel is a number and its contents are in
  \<open>resultChans\<close>.  What happens while a call waits is a list of rounds, like the waits of the handshake.
\<close>

section \<open>State\<close>

definition MaxPingPayloadSize :: nat where "MaxPingPayloadSize = 32"

record PingResult =
  pr_RTT :: duration
  pr_Payload :: "byte list"
  pr_Err :: "goerror option"

record pendingPing =
  pp_streamID :: u32
  pp_payload :: "byte list"
  pp_sentAt :: instant
  pp_resultCh :: nat

record PingConfig =
  AnswerPings :: bool
  PingTimeout :: duration

definition DefaultPingConfig :: PingConfig where
  "DefaultPingConfig = \<lparr>AnswerPings = True, PingTimeout = 30 * Second\<rparr>"

record pingManager =
  ping_config :: PingConfig
  pendingPings :: "(u32, pendingPing) gomap"
  resultChans :: "(nat, PingResult list) gomap"

definition newPingManager :: "PingConfig option \<Rightarrow> pingManager" where
  "newPingManager config =
     \<lparr>ping_config = (case config of None \<Rightarrow> DefaultPingConfig | Some c \<Rightarrow> c), pendingPings = [], resultChans = []\<rparr>"

definition chan_contents :: "pingManager \<Rightarrow> nat \<Rightarrow> PingResult list" where
  "chan_contents pm ch = (case map_of (resultChans pm) ch of None \<Rightarrow> [] | Some rs \<Rightarrow> rs)"

definition failedPing :: "goerror \<Rightarrow> PingResult" where
  "failedPing e = \<lparr>pr_RTT = 0, pr_Payload = [], pr_Err = Some e\<rparr>"

type_synonym 'd ping_world = "pingManager \<times> 'd world"

section \<open>Asking\<close>

definition validatePingPrerequisites :: "bool \<Rightarrow> 'd option \<Rightarrow> goerror option" where
  "validatePingPrerequisites hasSession dest =
     (if dest = None then Some (Errorf ''destination is nil'' [])
      else if \<not> hasSession then Some (Errorf ''no I2CP session'' [])
      else None)"

fun ping_generateStreamID :: "randsource \<Rightarrow> ((goerror + u32) \<times> randsource) option" where
  "ping_generateStreamID [] = None"
| "ping_generateStreamID (Inl e # rs) = Some (Inl e, rs)"
| "ping_generateStreamID (Inr streamID # rs) =
     (if streamID \<noteq> 0 then Some (Inr streamID, rs) else ping_generateStreamID rs)"

definition signPingPacket :: "('d, 'c, 'k, 'b) env \<Rightarrow> 'd Packet \<Rightarrow> goerror + 'd Packet" where
  "signPingPacket env pkt =
     (case ses_SigningKeyPair (e_session env) of
        Inl e \<Rightarrow> Inl (Wrap ''get signing key pair'' e)
      | Inr keyPair \<Rightarrow> checked (SignPacket (e_lib env) pkt keyPair))"

definition pingPacket :: "('d, 'c, 'k, 'b) env \<Rightarrow> u32 \<Rightarrow> byte list \<Rightarrow> 'd Packet" where
  "pingPacket env streamID payload =
     emptyPacket\<lparr>SendStreamID := streamID, RecvStreamID := 0, SequenceNum := 0, AckThrough := 0,
       Flags := FlagECHO OR FlagSignatureIncluded OR FlagFromIncluded,
       FromDestination := ses_Destination (e_session env), Payload := payload\<rparr>"

definition sendPingPacket ::
  "('d, 'c, 'k, 'b) env \<Rightarrow> 'd option \<Rightarrow> u32 \<Rightarrow> byte list \<Rightarrow> 'd world \<Rightarrow> goerror option \<times> 'd world" where
  "sendPingPacket env dest streamID payload w =
     (case signPingPacket env (pingPacket env streamID payload) of
        Inl e \<Rightarrow> (Some e, w)
      | Inr pkt \<Rightarrow> sendPacketToDest env pkt dest 0 0 w)"

text \<open>The \<^verbatim>\<open>select\<close> at the end of \<^verbatim>\<open>Ping\<close>; \<open>None\<close> when the rounds leave it waiting.\<close>

datatype 'd ping_round = TakeResult | PingTimesOut | ContextDone goerror | PingMeanwhile "'d ping_world \<Rightarrow> 'd ping_world"

fun awaitPong ::
  "nat \<Rightarrow> instant \<Rightarrow> duration \<Rightarrow> 'd ping_round list \<Rightarrow> 'd ping_world \<Rightarrow> (PingResult \<times> 'd ping_world) option" where
  "awaitPong ch limit timeout [] pw = None"
| "awaitPong ch limit timeout (TakeResult # rounds) pw =
     (case chan_contents (fst pw) ch of
        [] \<Rightarrow> None
      | r # rs \<Rightarrow> Some (r, ((fst pw)\<lparr>resultChans := AList.update ch rs (resultChans (fst pw))\<rparr>, snd pw)))"
| "awaitPong ch limit timeout (PingTimesOut # rounds) pw =
     (if w_now (snd pw) \<ge> limit then Some (failedPing (Errorf ''ping timeout after %v'' [timeout]), pw) else None)"
| "awaitPong ch limit timeout (ContextDone e # rounds) pw = Some (failedPing e, pw)"
| "awaitPong ch limit timeout (PingMeanwhile f # rounds) pw = awaitPong ch limit timeout rounds (f pw)"

text \<open>\<^verbatim>\<open>Ping\<close> up to its wait: the stream ID it has registered, or the result it returns at once.\<close>

definition startPing ::
  "('d, 'c, 'k, 'b) env \<Rightarrow> bool \<Rightarrow> nat \<Rightarrow> 'd option \<Rightarrow> byte list \<Rightarrow> randsource \<Rightarrow> 'd ping_world \<Rightarrow>
     ((PingResult + u32) \<times> 'd ping_world) option" where
  "startPing env hasSession ch dest payload rs pw =
     (let (pm, w) = pw in
      case validatePingPrerequisites hasSession dest of
        Some e \<Rightarrow> Some (Inl (failedPing e), pw)
      | None \<Rightarrow>
          let payload = (if length payload > MaxPingPayloadSize then take MaxPingPayloadSize payload else payload) in
          (case ping_generateStreamID rs of
             None \<Rightarrow> None
           | Some (Inl e, rs) \<Rightarrow> Some (Inl (failedPing (Wrap ''generate stream ID'' e)), pw)
           | Some (Inr streamID, rs) \<Rightarrow>
               let pending = \<lparr>pp_streamID = streamID, pp_payload = payload, pp_sentAt = w_now w, pp_resultCh = ch\<rparr>;
                   pm = pm\<lparr>pendingPings := AList.update streamID pending (pendingPings pm),
                           resultChans := AList.update ch [] (resultChans pm)\<rparr>
               in (case sendPingPacket env dest streamID payload w of
                     (Some e, w) \<Rightarrow>
                       Some (Inl (failedPing (Wrap ''send ping'' e)),
                             (pm\<lparr>pendingPings := AList.delete streamID (pendingPings pm)\<rparr>, w))
                   | (None, w) \<Rightarrow> Some (Inr streamID, (pm, w)))))"

definition Ping ::
  "('d, 'c, 'k, 'b) env \<Rightarrow> bool \<Rightarrow> nat \<Rightarrow> instant option \<Rightarrow> 'd option \<Rightarrow> byte list \<Rightarrow> randsource \<Rightarrow> 'd ping_round list \<Rightarrow>
     'd ping_world \<Rightarrow> (PingResult \<times> 'd ping_world) option" where
  "Ping env hasSession ch ctxDeadline dest payload rs rounds pw =
     (case startPing env hasSession ch dest payload rs pw of
        None \<Rightarrow> None
      | Some (Inl r, pw) \<Rightarrow> Some (r, pw)
      | Some (Inr streamID, (pm, w)) \<Rightarrow>
          let timeout = PingTimeout (ping_config pm);
              timeout = (case ctxDeadline of
                  None \<Rightarrow> timeout
                | Some deadline \<Rightarrow> let remaining = deadline - w_now w in if remaining < timeout then remaining else timeout)
          in (case awaitPong ch (w_now w + timeout) timeout rounds (pm, w) of
                None \<Rightarrow> None
              | Some (r, (pm, w)) \<Rightarrow>
                  Some (r, (pm\<lparr>pendingPings := AList.delete streamID (pendingPings pm)\<rparr>, w))))"

section \<open>Answering\<close>

definition handlePong :: "'d Packet \<Rightarrow> 'd ping_world \<Rightarrow> 'd ping_world" where
  "handlePong pkt pw =
     (let (pm, w) = pw in
      if SendStreamID pkt \<noteq> 0 then pw
      else case map_of (pendingPings pm) (RecvStreamID pkt) of
        None \<Rightarrow> pw
      | Some pending \<Rightarrow>
          let rtt = w_now w - pp_sentAt pending;
              result = \<lparr>pr_RTT = rtt, pr_Payload = Payload pkt, pr_Err = None\<rparr>;
              ch = pp_resultCh pending
          in if length (chan_contents pm ch) < 1
             then (pm\<lparr>resultChans := AList.update ch (chan_contents pm ch @ [result]) (resultChans pm)\<rparr>, w)
             else pw)"

definition pongPacket :: "'d Packet \<Rightarrow> 'd Packet" where
  "pongPacket pkt =
     (let payload = (if length (Payload pkt) > MaxPingPayloadSize then take MaxPingPayloadSize (Payload pkt) else Payload pkt)
      in emptyPacket\<lparr>SendStreamID := 0, RecvStreamID := SendStreamID pkt, SequenceNum := 0, AckThrough := 0,
           Flags := FlagECHO, Payload := payload\<rparr>)"

definition handlePing ::
  "('d, 'c, 'k, 'b) env \<Rightarrow> 'd Packet \<Rightarrow> 'd option \<Rightarrow> u16 \<Rightarrow> u16 \<Rightarrow> 'd ping_world \<Rightarrow> 'd ping_world" where
  "handlePing env pkt srcDest srcPort destPort pw =
     (let (pm, w) = pw in
      if \<not> AnswerPings (ping_config pm) then pw
      else if SendStreamID pkt = 0 then pw
      else (pm, snd (sendPacketToDest env (pongPacket pkt) srcDest destPort srcPort w)))"

definition isPingPacket :: "'d Packet \<Rightarrow> bool" where
  "isPingPacket pkt \<longleftrightarrow> Flags pkt AND FlagECHO \<noteq> 0 \<and> SendStreamID pkt > 0"

definition isPongPacket :: "'d Packet \<Rightarrow> bool" where
  "isPongPacket pkt \<longleftrightarrow> Flags pkt AND FlagECHO \<noteq> 0 \<and> SendStreamID pkt = 0"

text \<open>\<^verbatim>\<open>handleEchoPacket\<close> of the manager.\<close>

definition handleEchoPacket ::
  "('d, 'c, 'k, 'b) env \<Rightarrow> 'd Packet \<Rightarrow> 'd option \<Rightarrow> u16 \<Rightarrow> u16 \<Rightarrow> 'd ping_world \<Rightarrow> 'd ping_world" where
  "handleEchoPacket env pkt srcDest srcPort destPort pw =
     (if isPingPacket pkt then handlePing env pkt srcDest srcPort destPort pw
      else if isPongPacket pkt then handlePong pkt pw
      else pw)"

section \<open>A ping and its answer\<close>

lemma sendPacketToDest_sent:
  assumes "sendPacketToDest env p d lp rp w = (None, w')"
  obtains m where "w_wire w' = w_wire w @ [m]" and "msg_data m = wire_format (e_lib env) p" and "marshalable (e_lib env) p"
    and "w_now w' = w_now w"
proof -
  obtain bs where bs: "checked (Marshal (e_lib env) p) = Inr bs" "SendMessage env d lp rp bs 0 w = (None, w')"
    using assms by (auto simp: sendPacketToDest_def split: sum.splits)
  have "w_now w' = w_now w" using bs(2) by (auto simp: SendMessage_def Let_def)
  with SendMessage_sent [OF bs(2)] checked_Marshal [OF bs(1)] that show thesis by metis
qed

lemma ping_generateStreamID_nonzero: "ping_generateStreamID rs = Some (Inr x, rs') \<Longrightarrow> x \<noteq> 0"
  by (induction rs rule: ping_generateStreamID.induct) (auto split: if_splits)

lemma startPing_sent:
  assumes "startPing env hs ch dest payload rs (pm, w) = Some (Inr sid, pm1, w1)"
  obtains m p where "w_wire w1 = w_wire w @ [m]" and "msg_data m = wire_format (e_lib env) p" and "marshalable (e_lib env) p"
    and "p = (pingPacket env sid (take MaxPingPayloadSize payload))\<lparr>Signature := Signature p\<rparr>" and "sid \<noteq> 0"
    and "w_now w1 = w_now w" and "chan_contents pm1 ch = []"
    and "map_of (pendingPings pm1) sid =
      Some \<lparr>pp_streamID = sid, pp_payload = take MaxPingPayloadSize payload, pp_sentAt = w_now w, pp_resultCh = ch\<rparr>"
proof -
  have tk: "(if length payload > MaxPingPayloadSize then take MaxPingPayloadSize payload else payload) = take MaxPingPayloadSize payload"
    by simp
  obtain rs' where g: "ping_generateStreamID rs = Some (Inr sid, rs')"
    and s: "sendPingPacket env dest sid (take MaxPingPayloadSize payload) w = (None, w1)"
    and pm1: "pm1 = pm\<lparr>pendingPings := AList.update sid \<lparr>pp_streamID = sid, pp_payload = take MaxPingPayloadSize payload,
      pp_sentAt = w_now w, pp_resultCh = ch\<rparr> (pendingPings pm), resultChans := AList.update ch [] (resultChans pm)\<rparr>"
    using assms by (auto simp: startPing_def tk Let_def split: option.splits sum.splits prod.splits)
  obtain p k where p: "checked (SignPacket (e_lib env) (pingPacket env sid (take MaxPingPayloadSize payload)) k) = Inr p"
    and sd: "sendPacketToDest env p dest 0 0 w = (None, w1)"
    using s by (auto simp: sendPingPacket_def signPingPacket_def split: sum.splits)
  from sd obtain m where "w_wire w1 = w_wire w @ [m]" "msg_data m = wire_format (e_lib env) p" "marshalable (e_lib env) p"
    "w_now w1 = w_now w" by (rule sendPacketToDest_sent)
  with signed_packet(1) [OF p] ping_generateStreamID_nonzero [OF g] show thesis
    by (intro that [of m p]) (simp_all add: pm1 chan_contents_def update_conv')
qed

text \<open>Any packet of the form of a pong ends the wait for the ping with its number.\<close>

lemma Ping_answered:
  assumes "startPing env hs ch dest payload rs (pm, w) = Some (Inr sid, pm1, w1)" and "isPongPacket pong" and "RecvStreamID pong = sid"
  shows "\<exists>pm' w'. Ping env hs ch ddl dest payload rs
      [PingMeanwhile (\<lambda>(pm, w). handleEchoPacket env pong src sport dport (pm, w\<lparr>w_now := w_now w + dt\<rparr>)), TakeResult] (pm, w) =
    Some (\<lparr>pr_RTT = dt, pr_Payload = Payload pong, pr_Err = None\<rparr>, pm', w') \<and> map_of (pendingPings pm') sid = None"
proof -
  obtain m p where "w_now w1 = w_now w" "chan_contents pm1 ch = []" and
    pend: "map_of (pendingPings pm1) sid =
      Some \<lparr>pp_streamID = sid, pp_payload = take MaxPingPayloadSize payload, pp_sentAt = w_now w, pp_resultCh = ch\<rparr>"
    using assms(1) by (rule startPing_sent)
  then have pong: "handleEchoPacket env pong src sport dport (pm1, w1\<lparr>w_now := w_now w1 + dt\<rparr>) =
    (pm1\<lparr>resultChans := AList.update ch [\<lparr>pr_RTT = dt, pr_Payload = Payload pong, pr_Err = None\<rparr>] (resultChans pm1)\<rparr>,
     w1\<lparr>w_now := w_now w1 + dt\<rparr>)"
    using assms(2,3) by (simp add: handleEchoPacket_def isPingPacket_def isPongPacket_def handlePong_def Let_def)
  show ?thesis
    using assms(1) by (simp add: Ping_def pong chan_contents_def update_conv' delete_conv' Let_def)
qed

text \<open>
  C31. Ping and pong: when a ping has been sent, the other side reads it and answers pings, and its answer is
  read back, \<^verbatim>\<open>Ping\<close> returns without an error, with the first 32 bytes of its payload and the time between sending
  and the answer, and forgets the ping.
\<close>

theorem ping_roundtrip:
  assumes "lib_ok (e_lib ce)" and "e_lib se = e_lib ce"
    and "startPing ce hs ch dest payload rs (pm, w) = Some (Inr sid, pm1, w1)" and "w_wire w1 = w_wire w @ [m1]"
    and "Unmarshal (e_lib se) emptyPacket (msg_data m1) = Ok png" and "AnswerPings (ping_config spm)"
    and "handleEchoPacket se png psrc psport pdport (spm, v) = (spm', v')" and "w_wire v' = w_wire v @ [m2]"
    and "Unmarshal (e_lib ce) emptyPacket (msg_data m2) = Ok pong"
  shows "\<exists>pm' w'. Ping ce hs ch ddl dest payload rs
      [PingMeanwhile (\<lambda>(pm, w). handleEchoPacket ce pong src sport dport (pm, w\<lparr>w_now := w_now w + dt\<rparr>)), TakeResult] (pm, w) =
    Some (\<lparr>pr_RTT = dt, pr_Payload = take MaxPingPayloadSize payload, pr_Err = None\<rparr>, pm', w') \<and>
    map_of (pendingPings pm') sid = None"
proof -
  let ?pl = "take MaxPingPayloadSize payload"
  obtain p where p: "msg_data m1 = wire_format (e_lib ce) p" "marshalable (e_lib ce) p"
    "p = (pingPacket ce sid ?pl)\<lparr>Signature := Signature p\<rparr>" and sid: "sid \<noteq> 0"
    using assms(3) by (rule startPing_sent) (use assms(4) in auto)
  have fl: "hasFlag p f \<longleftrightarrow> hasFlag (pingPacket ce sid ?pl) f" for f by (subst p(3)) simp
  have "Unmarshal (e_lib ce) emptyPacket (wire_format (e_lib ce) p) = Ok (wire_view (e_lib ce) p)"
    by (rule received_packet [OF assms(1) p(2)]) (simp_all add: fl, simp_all add: hasFlag_def pingPacket_def flag_defs)
  then have png: "png = wire_view (e_lib ce) p" using assms(2,5) p(1) by simp
  then have f1: "Flags png = FlagECHO OR FlagSignatureIncluded OR FlagFromIncluded" "SendStreamID png = sid" "Payload png = ?pl"
    by (simp_all add: wire_view_def) (subst p(3), simp add: pingPacket_def)+
  then have "handleEchoPacket se png psrc psport pdport (spm, v) =
      (spm, snd (sendPacketToDest se (pongPacket png) psrc pdport psport v))"
    using sid assms(6) by (simp add: handleEchoPacket_def isPingPacket_def handlePing_def flag_defs word_gt_0)
  then obtain r where sd: "sendPacketToDest se (pongPacket png) psrc pdport psport v = (r, v')"
    using assms(7) by (metis prod.inject prod.collapse)
  have "r = None" using sd assms(8) by (auto simp: sendPacketToDest_def SendMessage_def Let_def split: sum.splits if_splits)
  with sd have "sendPacketToDest se (pongPacket png) psrc pdport psport v = (None, v')" by simp
  then have m2: "msg_data m2 = wire_format (e_lib ce) (pongPacket png)" "marshalable (e_lib ce) (pongPacket png)"
    by (rule sendPacketToDest_sent, use assms(2,8) in auto)+
  have fp: "Flags (pongPacket png) = FlagECHO" by (simp add: pongPacket_def Let_def)
  have "Unmarshal (e_lib ce) emptyPacket (wire_format (e_lib ce) (pongPacket png)) = Ok (wire_view (e_lib ce) (pongPacket png))"
    by (rule received_packet [OF assms(1) m2(2)]) (simp_all add: hasFlag_def fp flag_defs)
  then have pong: "pong = wire_view (e_lib ce) (pongPacket png)" using assms(9) m2(1) by simp
  then have "isPongPacket pong" "RecvStreamID pong = sid" "Payload pong = ?pl"
    using f1 by (simp_all add: wire_view_def isPongPacket_def pongPacket_def Let_def flag_defs)
  from Ping_answered [OF assms(3) this(1,2), of ddl src sport dport dt] this(3) show ?thesis by simp
qed

lemma demo_sendPacketToDest:
  assumes "marshalable byte_lib p"
  obtains w' m where "sendPacketToDest demo_env p d lp rp w = (None, w')" and "w_wire w' = w_wire w @ [m]"
    and "msg_data m = wire_format byte_lib p"
proof -
  obtain w' where w': "SendMessage demo_env d lp rp (wire_format byte_lib p) 0 w = (None, w')" using demo_env_sends by blast
  then have "sendPacketToDest demo_env p d lp rp w = (None, w')"
    using Marshal_marshalable [OF assms] by (simp add: sendPacketToDest_def)
  with SendMessage_sent [OF w'] that show thesis by blast
qed

lemma demo_ping:
  obtains pm1 w1 m1 p where "startPing demo_env True 0 (Some 9) [1, 2, 3] [Inr 0, Inr 55] (newPingManager None, demo_world) = Some (Inr 55, pm1, w1)"
    and "w_wire w1 = w_wire demo_world @ [m1]" and "msg_data m1 = wire_format byte_lib p" and "marshalable byte_lib p"
    and "Flags p = FlagECHO OR FlagSignatureIncluded OR FlagFromIncluded" and "NACKs p = []" and "SendStreamID p = 55"
proof -
  let ?p = "pingPacket demo_env 55 [1, 2, 3]"
  have f: "hasFlag ?p FlagSignatureIncluded" "FromDestination ?p = Some 9" "\<not> hasFlag ?p FlagOfflineSignature"
    by (simp_all add: pingPacket_def hasFlag_def flag_defs demo_session_def)
  have "WriteToMessage byte_lib d = Inr [d]" for d by (simp add: byte_lib_def)
  then have m: "marshalable byte_lib ?p" using f by (simp add: marshalable_def) (simp add: pingPacket_def emptyPacket_def)
  from demo_signs [OF m f(1,2), of 9] obtain p where p: "SignPacket byte_lib ?p 9 = Ok p" "p = ?p\<lparr>Signature := Signature p\<rparr>"
    "marshalable byte_lib p" by auto
  obtain w1 m1 where sd: "sendPacketToDest demo_env p (Some 9) 0 0 demo_world = (None, w1)" "w_wire w1 = w_wire demo_world @ [m1]"
    "msg_data m1 = wire_format byte_lib p" by (rule demo_sendPacketToDest [OF p(3)])
  have "sendPingPacket demo_env (Some 9) 55 [1, 2, 3] demo_world = (None, w1)"
    using p(1) sd(1) by (simp add: sendPingPacket_def signPingPacket_def demo_session_def)
  moreover have "Flags p = FlagECHO OR FlagSignatureIncluded OR FlagFromIncluded" "NACKs p = []" "SendStreamID p = 55"
    by (subst p(2), simp add: pingPacket_def emptyPacket_def)+
  ultimately show thesis using sd p(3)
    by (intro that [of _ w1 m1 p]) (simp_all add: startPing_def validatePingPrerequisites_def MaxPingPayloadSize_def Let_def)
qed

theorem ping_roundtrip_witness:
  "\<exists>pong pm' w'. Ping demo_env True 0 None (Some 9) [1, 2, 3] [Inr 0, Inr 55]
      [PingMeanwhile (\<lambda>(pm, w). handleEchoPacket demo_env pong (Some 9) 0 0 (pm, w\<lparr>w_now := w_now w + 5\<rparr>)), TakeResult]
      (newPingManager None, demo_world) =
    Some (\<lparr>pr_RTT = 5, pr_Payload = [1, 2, 3], pr_Err = None\<rparr>, pm', w') \<and> map_of (pendingPings pm') 55 = None"
proof -
  obtain pm1 w1 m1 p where start: "startPing demo_env True 0 (Some 9) [1, 2, 3] [Inr 0, Inr 55] (newPingManager None, demo_world) = Some (Inr 55, pm1, w1)"
    "w_wire w1 = w_wire demo_world @ [m1]" "msg_data m1 = wire_format byte_lib p" "marshalable byte_lib p"
    and p: "Flags p = FlagECHO OR FlagSignatureIncluded OR FlagFromIncluded" "NACKs p = []" "SendStreamID p = 55" by (rule demo_ping)
  let ?png = "wire_view byte_lib p" and ?pong = "wire_view byte_lib (pongPacket (wire_view byte_lib p))"
  have r1: "Unmarshal byte_lib emptyPacket (msg_data m1) = Ok ?png"
    unfolding start(3) by (rule received_packet [OF byte_lib_ok start(4)]) (simp_all add: hasFlag_def p flag_defs)
  have m: "marshalable byte_lib (pongPacket ?png)"
    by (simp add: marshalable_def hasFlag_def pongPacket_def emptyPacket_def Let_def flag_defs)
  obtain v m2 where sd: "sendPacketToDest demo_env (pongPacket ?png) (Some 9) 0 0 demo_world = (None, v)"
    "w_wire v = w_wire demo_world @ [m2]" "msg_data m2 = wire_format byte_lib (pongPacket ?png)" by (rule demo_sendPacketToDest [OF m])
  have r2: "Unmarshal byte_lib emptyPacket (msg_data m2) = Ok ?pong"
    unfolding sd(3) by (rule received_packet [OF byte_lib_ok m]) (simp_all add: hasFlag_def pongPacket_def Let_def flag_defs)
  have a: "AnswerPings (ping_config (newPingManager None))" by (simp add: newPingManager_def DefaultPingConfig_def)
  have "Flags ?png = Flags p" "SendStreamID ?png = 55" using p(3) by (simp_all add: wire_view_def)
  then have h: "handleEchoPacket demo_env ?png (Some 9) 0 0 (newPingManager None, demo_world) = (newPingManager None, v)"
    using sd(1) a p(1) by (simp add: handleEchoPacket_def isPingPacket_def handlePing_def flag_defs word_gt_0)
  have e: "e_lib demo_env = byte_lib" by simp
  have "take MaxPingPayloadSize [1, 2, 3 :: byte] = [1, 2, 3]" by (simp add: MaxPingPayloadSize_def)
  with ping_roundtrip [of demo_env demo_env, unfolded e, OF byte_lib_ok refl start(1,2) r1 a h sd(2) r2, of None "Some 9" 0 0 5]
  show ?thesis by (intro exI [of _ ?pong]) simp
qed

end
