(* ===== verification/Dial_Steps.thy ===== *)
theory Dial_Steps
  imports Handshake Conn_Identity
begin

text \<open>
  Dialling as single steps.  \<open>DialWithManager\<close> in \<open>Handshake\<close> is one call with a script of what happens while it waits; inside the
  manager the packet processor and the other connections act between its rounds.  Here the call is cut into its start (the new
  connection, its route, the \<^verbatim>\<open>SYN\<close>) and the rounds of its wait, and both forms are shown to be the same.
\<close>

section \<open>Start and rounds\<close>

definition dialStart ::
  "('d, 'c, 'k, 'b) env \<Rightarrow> conn_id \<Rightarrow> bool \<Rightarrow> StreamProfile \<Rightarrow> 'd option \<Rightarrow> u16 \<Rightarrow> u16 \<Rightarrow> randsource \<Rightarrow> 'd world \<Rightarrow>
     (goerror option \<times> ('d, 'b) conn_world) result option" where
  "dialStart env cid hasSession managerProfile dest lport rport rs w =
     (case createConnectionStruct env cid hasSession True managerProfile dest lport rport DefaultMTU rs w of
        None \<Rightarrow> None
      | Some (Err e, rs) \<Rightarrow> Some (Err e)
      | Some (Panic, rs) \<Rightarrow> Some Panic
      | Some (Ok (s, w), rs) \<Rightarrow>
          (case sendSYN env (s, RegisterConnection lport rport cid w) of
             (Some e, (s, w)) \<Rightarrow> Some (Ok (Some (Wrap ''send SYN'' e), (s, UnregisterConnection lport rport w)))
           | (None, (s, w)) \<Rightarrow> Some (Ok (None, (setState s StateSynSent, w)))))"

text \<open>What follows the \<^verbatim>\<open>SYN-ACK\<close>.\<close>

definition dialFinish ::
  "('d, 'c, 'k, 'b) env \<Rightarrow> 'd Packet \<Rightarrow> ('d, 'b) conn_world \<Rightarrow> goerror option \<times> ('d, 'b) conn_world" where
  "dialFinish env synAck sw =
     (case processSynAck synAck (fst sw) of
        (Some e, s) \<Rightarrow> (Some (Wrap ''process SYN-ACK'' e), (s, snd sw))
      | (None, s) \<Rightarrow>
          (case sendACK env (s, snd sw) of
             (Some e, sw) \<Rightarrow> (Some (Wrap ''send ACK'' e), sw)
           | (None, (s, w)) \<Rightarrow> (None, (setState s StateEstablished, w))))"

text \<open>
  One round of the wait: the answer is \<open>None\<close> when the case is not ready; otherwise it says whether the dial has ended, and how.
\<close>

fun dialRound ::
  "('d, 'c, 'k, 'b) env \<Rightarrow> instant \<Rightarrow> ('d, 'b) wait_round \<Rightarrow> ('d, 'b) conn_world \<Rightarrow>
     (goerror option option \<times> ('d, 'b) conn_world) option" where
  "dialRound env limit TimeOut sw =
     (if w_now (snd sw) \<ge> limit
      then Some (Some (Some (Wrap ''wait for SYN-ACK''
             (Wrap ''timeout waiting for SYN-ACK'' (Errorf ''context deadline exceeded'' [])))), sw) else None)"
| "dialRound env limit TakePacket sw =
     (case recvChan (fst sw) of
        [] \<Rightarrow> None
      | pkt # pkts \<Rightarrow>
          let sw = ((fst sw)\<lparr>recvChan := pkts\<rparr>, snd sw)
          in if isSynAckPacket pkt then (case dialFinish env pkt sw of (r, sw) \<Rightarrow> Some (Some r, sw)) else Some (None, sw))"
| "dialRound env limit (Meanwhile f) sw = Some (None, f sw)"

fun dialRounds ::
  "('d, 'c, 'k, 'b) env \<Rightarrow> instant \<Rightarrow> ('d, 'b) wait_round list \<Rightarrow> ('d, 'b) conn_world \<Rightarrow>
     (goerror option \<times> ('d, 'b) conn_world) option" where
  "dialRounds env limit [] sw = None"
| "dialRounds env limit (r # rounds) sw =
     (case dialRound env limit r sw of
        None \<Rightarrow> None
      | Some (Some result, sw) \<Rightarrow> Some (result, sw)
      | Some (None, sw) \<Rightarrow> dialRounds env limit rounds sw)"

text \<open>A round inside the manager: a dial that fails takes its route out.\<close>

definition dialStep ::
  "('d, 'c, 'k, 'b) env \<Rightarrow> instant \<Rightarrow> bool \<Rightarrow> ('d, 'b) conn_world \<Rightarrow> ('d, 'b) conn_world" where
  "dialStep env limit timedOut sw =
     (case dialRound env limit (if timedOut then TimeOut else TakePacket) sw of
        None \<Rightarrow> sw
      | Some (None, sw) \<Rightarrow> sw
      | Some (Some None, sw) \<Rightarrow> sw
      | Some (Some (Some e), (s, w)) \<Rightarrow> (s, UnregisterConnection (localPort s) (remotePort s) w))"

section \<open>The rounds are the call\<close>

lemma completeHandshake_rounds:
  "(case completeHandshake env timeout rounds sw of
      None \<Rightarrow> None | Some (Some e, sw) \<Rightarrow> Some (Some e, sw)
    | Some (None, (s, w)) \<Rightarrow> Some (None, (setState s StateEstablished, w))) =
   dialRounds env (w_now (snd sw) + timeout) rounds sw"
proof -
  define limit where "limit = w_now (snd sw) + timeout"
  have "(case (case waitForSynAck limit rounds sw of
        None \<Rightarrow> None
      | Some (Inl e, sw) \<Rightarrow> Some (Some (Wrap ''wait for SYN-ACK'' e), sw)
      | Some (Inr synAck, (s, w)) \<Rightarrow>
     (case processSynAck synAck s of
        (Some e, s) \<Rightarrow> Some (Some (Wrap ''process SYN-ACK'' e), (s, w))
      | (None, s) \<Rightarrow>
     (case sendACK env (s, w) of
        (Some e, sw) \<Rightarrow> Some (Some (Wrap ''send ACK'' e), sw)
      | (None, sw) \<Rightarrow> Some (None, sw)))) of
      None \<Rightarrow> None | Some (Some e, sw) \<Rightarrow> Some (Some e, sw)
    | Some (None, (s, w)) \<Rightarrow> Some (None, (setState s StateEstablished, w))) =
   dialRounds env limit rounds sw"
  proof (induction limit rounds sw rule: waitForSynAck.induct)
    case (3 limit rounds sw)
    then show ?case
      by (cases "recvChan (fst sw)") (auto simp: dialFinish_def Let_def split: option.split prod.split)
  qed auto
  then show ?thesis unfolding completeHandshake_def limit_def .
qed

text \<open>Dialling through a manager is its start followed by its rounds, and the removal of the route when a round fails.\<close>

lemma DialWithManager_rounds:
  "DialWithManager env cid hasSession True prof dest lport rport rs rounds w =
     (case dialStart env cid hasSession prof dest lport rport rs w of
        Some (Ok (None, sw)) \<Rightarrow>
          map_option (\<lambda>(r, (s, w)). Ok (r, (s, if r = None then w else UnregisterConnection lport rport w)))
            (dialRounds env (w_now (snd sw) + DefaultConnectTimeout) rounds sw)
      | r \<Rightarrow> r)"
  by (auto simp: DialWithManager_def dialStart_def performHandshake_def completeHandshake_rounds [symmetric]
      split: option.split prod.split result.split)

section \<open>What dialling leaves alone\<close>

definition kept :: "('d, 'b) conn_world \<Rightarrow> ('d, 'b) conn_world \<Rightarrow> bool" where
  "kept sw sw' \<longleftrightarrow> ident sw' = ident sw \<and> conn_closed (fst sw') = conn_closed (fst sw)"

lemma kept_refl [simp]: "kept sw sw" by (simp add: kept_def)

lemma kept_trans: "kept a b \<Longrightarrow> kept b c \<Longrightarrow> kept a c" by (simp add: kept_def)

lemma kept_sendSYN: "kept sw (snd (sendSYN env sw))"
proof -
  obtain s w where sw: "sw = (s, w)" by fastforce
  have "ident (s', snd (signAndSendPacket env pkt (s, w))) = ident (s', w)" for pkt s'
    by (simp add: signAndSendPacket_def Let_def split_beta ident_SendMessage split: sum.split)
  then have "signAndSendPacket env pkt (s, w) = (r, w') \<Longrightarrow> ident (s', w') = ident (s', w)" for pkt s' r w'
    by (metis snd_conv)
  then show ?thesis by (auto simp: kept_def sw sendSYN_def split: sum.split prod.split option.split)
qed

lemma kept_dialFinish: "kept sw (snd (dialFinish env synAck sw))"
proof -
  obtain s w where sw: "sw = (s, w)" by fastforce
  obtain r s1 where p: "processSynAck synAck s = (r, s1)" by fastforce
  have 1: "kept (s, w) (s1, w)"
    using p by (auto simp: kept_def ident_def processSynAck_def extractRemoteMTUFromSynAck_def extractRemoteProfileFromSynAck_def Let_def
        split: option.splits if_splits)
  have "sendACK env (s1, w) = (r', s2, w') \<Longrightarrow> kept (s1, w) (s2, w')" for r' s2 w'
    using ident_SendMessage [of s1 env "conn_dest s1" "localPort s1" "remotePort s1" _ 0 w]
    by (auto simp: kept_def sendACK_def Let_def split_beta split: sum.splits)
  with 1 have "sendACK env (s1, w) = (r', s2, w') \<Longrightarrow> kept (s, w) (s2, w')" for r' s2 w' by (blast intro: kept_trans)
  moreover have "kept (s, w) (setState s2 st, w') = kept (s, w) (s2, w')" for s2 st w'
    by (simp add: kept_def) (simp add: setState_def)
  ultimately show ?thesis using 1 by (auto simp: sw dialFinish_def p split: option.split prod.split)
qed

lemma kept_dialRound:
  assumes "dialRound env limit r sw = Some (x, sw')" and "\<And>f. r = Meanwhile f \<Longrightarrow> kept sw (f sw)"
  shows "kept sw sw'"
proof (cases r)
  case TakePacket
  then obtain pkt pkts where c: "recvChan (fst sw) = pkt # pkts" using assms(1) by (cases "recvChan (fst sw)") auto
  have "kept sw ((fst sw)\<lparr>recvChan := pkts\<rparr>, snd sw)" by (simp add: kept_def)
  from kept_trans [OF this kept_dialFinish [of _ env pkt]] this show ?thesis
    using assms(1) TakePacket c by (cases "isSynAckPacket pkt") (auto simp: Let_def split_beta)
qed (use assms in \<open>auto split: if_splits\<close>)

lemma kept_dialRounds:
  assumes "dialRounds env limit rounds sw = Some (r, sw')" and "\<And>f sw. Meanwhile f \<in> set rounds \<Longrightarrow> kept sw (f sw)"
  shows "kept sw sw'"
  using assms
proof (induction rounds arbitrary: sw)
  case (Cons r rounds)
  obtain x sw1 where x: "dialRound env limit r sw = Some (x, sw1)" using Cons.prems(1) by (auto split: option.splits)
  have "kept sw sw1" by (rule kept_dialRound [OF x]) (use Cons.prems(2) in auto)
  then show ?case using Cons.IH [of sw1] Cons.prems x by (cases x) (auto intro: kept_trans)
qed simp

lemma dialStep_unrouted: "unrouted sw (dialStep env limit timedOut sw)"
proof (cases "dialRound env limit (if timedOut then TimeOut else TakePacket) sw")
  case (Some x)
  obtain r s w where x: "x = (r, s, w)" by (metis prod_cases3)
  have "kept sw (s, w)" by (rule kept_dialRound [OF Some [unfolded x]]) (simp split: if_splits)
  then have i: "ident (s, w) = ident sw" by (simp add: kept_def)
  have "unrouted (s, w) (s, UnregisterConnection (localPort s) (remotePort s) w)"
    by (simp add: unrouted_def UnregisterConnection_def)
  with i show ?thesis
    by (auto simp: dialStep_def Some x intro: ident_unrouted unrouted_ident split: option.split)
qed (simp add: dialStep_def ident_unrouted)

text \<open>The connection that a dial has made, and its route.\<close>

lemma createConnectionStruct_new:
  assumes "createConnectionStruct env cid hasSession True prof dest lport rport mtu rs w = Some (Ok (s, w'), rs')"
  shows "ident (s, w') = ((cid, True, lport, rport, False), w_connections w, w_limiter w) \<and> \<not> conn_closed s"
proof -
  obtain isn sid buf s0 where a: "applyCachedTCB env dest (initializeStreamConn cid True dest lport rport mtu isn sid buf (w_now w), w) = (s0, w')"
    and s: "s = s0\<lparr>conn_profile := prof\<rparr>"
    using assms by (auto simp: createConnectionStruct_def Let_def split: option.splits result.splits sum.splits prod.splits)
  show ?thesis using applyCachedTCB_frame [OF a] by (simp add: s ident_def initializeStreamConn_def)
qed

lemma dialStart_new:
  assumes "dialStart env cid hasSession prof dest lport rport rs w = Some (Ok (r, s, w'))"
  shows "ident (s, w') = ((cid, True, lport, rport, False),
      (if r = None then AList.update (lport, rport) cid (w_connections w)
       else AList.delete (lport, rport) (AList.update (lport, rport) cid (w_connections w))), w_limiter w) \<and> \<not> conn_closed s"
proof -
  obtain s0 w0 rs0 where c: "createConnectionStruct env cid hasSession True prof dest lport rport DefaultMTU rs w = Some (Ok (s0, w0), rs0)"
    using assms by (auto simp: dialStart_def split: option.splits result.splits)
  obtain e s1 w1 where y: "sendSYN env (s0, RegisterConnection lport rport cid w0) = (e, s1, w1)" by (metis prod_cases3)
  have "kept (s0, RegisterConnection lport rport cid w0) (s1, w1)" using kept_sendSYN [of _ env] y by (metis snd_conv)
  then have "ident (s1, w1) = ((cid, True, lport, rport, False), AList.update (lport, rport) cid (w_connections w), w_limiter w) \<and> \<not> conn_closed s1"
    using createConnectionStruct_new [OF c] by (auto simp: kept_def ident_def RegisterConnection_def)
  then show ?thesis using assms c y
    by (cases e) (auto simp: dialStart_def ident_def UnregisterConnection_def setState_def)
qed

section \<open>A place that was never taken\<close>

lemma Close_limiter:
  assumes "\<not> conn_closed (fst sw)" and "hasManager (fst sw)"
  shows "w_limiter (snd (conn_Close env sw)) = ConnectionClosed (w_limiter (snd sw))"
proof -
  obtain s1 w1 where c: "sendCloseIfEstablished env sw = (s1, w1)" by fastforce
  have "ident (s1, w1) = ident sw"
    using c by (auto simp: sendCloseIfEstablished_def Let_def split_beta split: if_splits)
  then show ?thesis using assms
    by (simp add: ident_def conn_Close_def c cleanupConnectionLocked_def UnregisterConnection_def Let_def)
qed

text \<open>
  C28. Closing a dialled connection gives back a place it never took: a dial through a manager leaves the connection limiter as it is, so a
  dialled connection is not counted among the active streams, but its \<^verbatim>\<open>Close\<close> lowers their number all the same: after it, the limiter
  counts one accepted connection too few and lets in more than the configured maximum.
\<close>

theorem dialled_Close_frees_slot:
  assumes "DialWithManager env cid hasSession True prof dest lport rport rs rounds w = Some (Ok (None, s, w1))"
    and "\<And>f sw. Meanwhile f \<in> set rounds \<Longrightarrow> ident (f sw) = ident sw \<and> conn_closed (fst (f sw)) = conn_closed (fst sw)"
    and "0 < activeStreams (w_limiter w)"
  shows "w_limiter w1 = w_limiter w \<and>
    activeStreams (w_limiter (snd (conn_Close env (s, w1)))) = activeStreams (w_limiter w) - 1"
proof -
  obtain s0 w0 where d: "dialStart env cid hasSession prof dest lport rport rs w = Some (Ok (None, s0, w0))"
    and r: "dialRounds env (w_now w0 + DefaultConnectTimeout) rounds (s0, w0) = Some (None, s, w1)"
    using assms(1) by (auto simp: DialWithManager_rounds split: option.splits result.splits)
  have "kept (s0, w0) (s, w1)" by (rule kept_dialRounds [OF r]) (use assms(2) in \<open>simp add: kept_def\<close>)
  then have i: "hasManager s" "w_limiter w1 = w_limiter w" "\<not> conn_closed s"
    using dialStart_new [OF d] by (auto simp: kept_def ident_def)
  then show ?thesis using assms(3) by (simp add: Close_limiter ConnectionClosed_def)
qed

definition demo_dial_world :: "byte world" where
  "demo_dial_world = demo_world\<lparr>w_limiter := (newConnectionLimiter None)\<lparr>activeStreams := 1\<rparr>\<rparr>"

definition demo_answer :: "byte Packet" where
  "demo_answer = emptyPacket\<lparr>SendStreamID := 44, RecvStreamID := 11, SequenceNum := 700, AckThrough := 100, Flags := FlagSYN\<rparr>"

definition demo_dial_rounds :: "(byte, byte list \<times> int \<times> int) wait_round list" where
  "demo_dial_rounds = [Meanwhile (\<lambda>(s, w). (snd (handleIncomingPacket True demo_answer s), w)), TakePacket]"

lemma demo_dial:
  "(case DialWithManager demo_env 1 True True 1 (Some 9) 80 4000 [Inr 100, Inr 11] demo_dial_rounds demo_dial_world of
      Some (Ok (None, _)) \<Rightarrow> True | _ \<Rightarrow> False)"
  by code_simp

theorem dialled_Close_frees_slot_witness:
  "\<exists>s w1. DialWithManager demo_env 1 True True 1 (Some 9) 80 4000 [Inr 100, Inr 11] demo_dial_rounds demo_dial_world = Some (Ok (None, s, w1)) \<and>
     activeStreams (w_limiter w1) = 1 \<and> activeStreams (w_limiter (snd (conn_Close demo_env (s, w1)))) = 0"
proof -
  obtain s w1 where d: "DialWithManager demo_env 1 True True 1 (Some 9) 80 4000 [Inr 100, Inr 11] demo_dial_rounds demo_dial_world =
      Some (Ok (None, s, w1))"
    using demo_dial by (auto split: option.splits result.splits prod.splits)
  have "w_limiter w1 = w_limiter demo_dial_world \<and>
      activeStreams (w_limiter (snd (conn_Close demo_env (s, w1)))) = activeStreams (w_limiter demo_dial_world) - 1"
    by (rule dialled_Close_frees_slot [OF d])
      (auto simp: demo_dial_rounds_def demo_dial_world_def handleIncomingPacket_def split_beta)
  with d show ?thesis by (simp add: demo_dial_world_def)
qed

end
