(* ===== verification/Manager.thy ===== *)
theory Manager
  imports Ping Dial_Steps
begin

text \<open>
  The stream manager, \<^verbatim>\<open>manager.go\<close>: the queue between the I2CP callbacks and the packet processor, the dispatch of a
  message to the ping manager, a listener or a connection, the registration of listeners and connections, the settings,
  destination lookups, and \<^verbatim>\<open>Close\<close>.

  Pointers are numbers: \<open>listenerObjs\<close>, \<open>connObjs\<close>, \<open>filterObjs\<close> and \<open>lookupObjs\<close> hold the objects, and
  \<open>nextId\<close> numbers the next connection.  The tracker, the TCB cache, the limiter and the table of connections are in the
  world, where connections reach them too.  \<^verbatim>\<open>sync.Map.Range\<close> visits the keys in the order of the association list, which
  is any order, and skips a key that has been deleted meanwhile.
\<close>

section \<open>State\<close>

record 'd incomingPacket =
  in_protocol :: u8
  in_srcDest :: "'d option"
  in_srcPort :: u16
  in_destPort :: u16
  in_payload :: "byte list"

record 'd lookupResult =
  lr_address :: string
  lr_dest :: "'d option"
  lr_ready :: bool

record ('d, 'b) StreamManager =
  sm_hasSession :: bool
  listeners :: "(u16, nat) gomap"
  listenerObjs :: "(nat, StreamListener) gomap"
  connObjs :: "(conn_id, ('d, 'b) StreamConn) gomap"
  nextId :: conn_id
  pingMgr :: pingManager
  filterObjs :: "(nat, accessFilter) gomap"
  sm_accessFilter :: nat
  profileConfig :: ProfileConfig
  incomingPackets :: "'d incomingPacket list"
  processorRunning :: bool
  sessionReady :: bool
  leaseSetReady :: bool
  sm_closed :: bool
  lookupResults :: "(u32, nat) gomap"
  lookupObjs :: "(nat, 'd lookupResult) gomap"
  sm_world :: "'d world"

definition incomingQueueSize :: nat where "incomingQueueSize = 100"

definition newStreamManagerBase :: "instant \<Rightarrow> ('d, 'b) StreamManager" where
  "newStreamManagerBase now =
     \<lparr>sm_hasSession = False, listeners = [], listenerObjs = [], connObjs = [], nextId = 0,
      pingMgr = newPingManager (Some DefaultPingConfig),
      filterObjs = [(0, newAccessFilter (Some DefaultAccessListConfig))], sm_accessFilter = 0,
      profileConfig = DefaultProfileConfig, incomingPackets = [], processorRunning = False, sessionReady = False,
      leaseSetReady = False, sm_closed = False, lookupResults = [], lookupObjs = [],
      sm_world = \<lparr>w_now = now, w_attempts = [], w_wire = [], w_msgTracker = newMessageStatusTracker,
        w_tcbCache = newTCBCache DefaultTCBCacheConfig,
        w_limiter = newConnectionLimiter (Some DefaultConnectionLimitsConfig), w_connections = []\<rparr>\<rparr>"

definition NewStreamManager :: "bool \<Rightarrow> instant \<Rightarrow> goerror + ('d, 'b) StreamManager" where
  "NewStreamManager client now =
     (if \<not> client then Inl (Errorf ''client cannot be nil'' [])
      else Inr ((newStreamManagerBase now)\<lparr>sm_hasSession := True, processorRunning := True\<rparr>))"

definition NewStreamManagerFromSession :: "bool \<Rightarrow> bool \<Rightarrow> instant \<Rightarrow> goerror + ('d, 'b) StreamManager" where
  "NewStreamManagerFromSession client session now =
     (if \<not> client then Inl (Errorf ''client cannot be nil'' [])
      else if \<not> session then Inl (Errorf ''session cannot be nil'' [])
      else Inr ((newStreamManagerBase now)\<lparr>sm_hasSession := True, sessionReady := True, processorRunning := True\<rparr>))"

definition SetSession :: "bool \<Rightarrow> ('d, 'b) StreamManager \<Rightarrow> goerror option \<times> ('d, 'b) StreamManager" where
  "SetSession session sm =
     (if \<not> session then (Some (Errorf ''session cannot be nil'' []), sm)
      else if sm_closed sm then (Some (Errorf ''stream manager is closed'' []), sm)
      else (None, sm\<lparr>sm_hasSession := True, sessionReady := True\<rparr>))"

text \<open>
  \<^verbatim>\<open>StartSession\<close>: \<open>created\<close> is what \<^verbatim>\<open>CreateSession\<close> of the I2CP client returns, \<open>timedOut\<close> which case of the
  \<^verbatim>\<open>select\<close> is taken; \<open>None\<close> when the session is not ready yet.
\<close>

definition StartSession ::
  "goerror option \<Rightarrow> bool \<Rightarrow> ('d, 'b) StreamManager \<Rightarrow> (goerror option \<times> ('d, 'b) StreamManager) option" where
  "StartSession created timedOut sm =
     (case created of
        Some e \<Rightarrow> Some (Some (Wrap ''create session'' e), sm)
      | None \<Rightarrow>
          if timedOut then Some (None, sm)
          else if sessionReady sm then Some (None, sm\<lparr>sessionReady := False\<rparr>)
          else None)"

section \<open>Registration\<close>

definition RegisterListener :: "u16 \<Rightarrow> nat \<Rightarrow> ('d, 'b) StreamManager \<Rightarrow> ('d, 'b) StreamManager" where
  "RegisterListener port r sm = sm\<lparr>listeners := AList.update port r (listeners sm)\<rparr>"

definition UnregisterListener :: "u16 \<Rightarrow> ('d, 'b) StreamManager \<Rightarrow> ('d, 'b) StreamManager" where
  "UnregisterListener port sm = sm\<lparr>listeners := AList.delete port (listeners sm)\<rparr>"

text \<open>\<^verbatim>\<open>ListenWithManager\<close>: the new listener gets the number \<open>r\<close>.\<close>

definition ListenWithManager :: "nat \<Rightarrow> u16 \<Rightarrow> int \<Rightarrow> ('d, 'b) StreamManager \<Rightarrow> goerror option \<times> ('d, 'b) StreamManager" where
  "ListenWithManager r port mtu sm =
     (case newManagedListener True (sm_accessFilter sm) port mtu of
        Inl e \<Rightarrow> (Some e, sm)
      | Inr l \<Rightarrow> (None, RegisterListener port r (sm\<lparr>listenerObjs := AList.update r l (listenerObjs sm)\<rparr>)))"

definition closeListener :: "nat \<Rightarrow> ('d, 'b) StreamManager \<Rightarrow> ('d, 'b) StreamManager" where
  "closeListener r sm =
     (case map_of (listenerObjs sm) r of
        None \<Rightarrow> sm
      | Some l \<Rightarrow>
          let (l, ls) = l_Close (listeners sm) l
          in sm\<lparr>listeners := ls, listenerObjs := AList.update r l (listenerObjs sm)\<rparr>)"

text \<open>An operation on one connection, inside the manager.\<close>

definition on_conn ::
  "(('d, 'b) conn_world \<Rightarrow> ('d, 'b) conn_world) \<Rightarrow> conn_id \<Rightarrow> ('d, 'b) StreamManager \<Rightarrow> ('d, 'b) StreamManager" where
  "on_conn f c sm =
     (case map_of (connObjs sm) c of
        None \<Rightarrow> sm
      | Some s \<Rightarrow>
          let (s, w) = f (s, sm_world sm)
          in sm\<lparr>connObjs := AList.update c s (connObjs sm), sm_world := w\<rparr>)"

section \<open>Callbacks\<close>

definition handleIncomingMessage ::
  "'d option \<Rightarrow> u8 \<Rightarrow> u16 \<Rightarrow> u16 \<Rightarrow> byte list \<Rightarrow> ('d, 'b) StreamManager \<Rightarrow> ('d, 'b) StreamManager" where
  "handleIncomingMessage srcDest protocol srcPort destPort payload sm =
     (if protocol \<noteq> 6 then sm
      else
        let packet = \<lparr>in_protocol = protocol, in_srcDest = srcDest, in_srcPort = srcPort, in_destPort = destPort,
                      in_payload = payload\<rparr>
        in if length (incomingPackets sm) < incomingQueueSize
           then sm\<lparr>incomingPackets := incomingPackets sm @ [packet]\<rparr> else sm)"

fun notify :: "('d, 'c, 'k, 'b) env \<Rightarrow> notification \<Rightarrow> ('d, 'b) StreamManager \<Rightarrow> ('d, 'b) StreamManager" where
  "notify env (MessageDelivered c q) sm = on_conn (\<lambda>(s, w). (handleMessageDelivered q s, w)) c sm"
| "notify env (MessageFailed c q retriable) sm = on_conn (handleMessageFailed env q retriable) c sm"

definition handleMessageStatus ::
  "('d, 'c, 'k, 'b) env \<Rightarrow> status_lib \<Rightarrow> u32 \<Rightarrow> u8 \<Rightarrow> u32 \<Rightarrow> u32 \<Rightarrow> ('d, 'b) StreamManager \<Rightarrow> ('d, 'b) StreamManager" where
  "handleMessageStatus env slib messageId status sz nonce sm =
     (let w = sm_world sm;
          (notes, t) = HandleStatus slib (w_now w) (w_msgTracker w) messageId status sz nonce
      in fold (notify env) notes (sm\<lparr>sm_world := w\<lparr>w_msgTracker := t\<rparr>\<rparr>))"

text \<open>The receiver of a closed channel is told by closing it; closing it twice panics.\<close>

definition handleDestinationResult ::
  "u32 \<Rightarrow> string \<Rightarrow> 'd option \<Rightarrow> ('d, 'b) StreamManager \<Rightarrow> ('d, 'b) StreamManager result" where
  "handleDestinationResult requestId address dest sm =
     (case map_of (lookupResults sm) requestId of
        None \<Rightarrow> Ok sm
      | Some r \<Rightarrow>
          if (case map_of (lookupObjs sm) r of None \<Rightarrow> False | Some lr \<Rightarrow> lr_ready lr) then Panic
          else Ok (sm\<lparr>lookupObjs := AList.update r \<lparr>lr_address = address, lr_dest = dest, lr_ready = True\<rparr> (lookupObjs sm)\<rparr>))"

text \<open>
  \<^verbatim>\<open>LookupDestination\<close>; \<open>requested\<close> is what the I2CP client returns for the request, \<open>early\<close> what happens before the
  result is stored, \<open>during\<close> what happens until the \<^verbatim>\<open>select\<close> is taken, \<open>cancelled\<close> which case it takes then; \<open>None\<close>
  when no case is ready.
\<close>

definition LookupDestination ::
  "nat \<Rightarrow> goerror + u32 \<Rightarrow> (('d, 'b) StreamManager \<Rightarrow> ('d, 'b) StreamManager) \<Rightarrow> (('d, 'b) StreamManager \<Rightarrow> ('d, 'b) StreamManager) \<Rightarrow>
     goerror option \<Rightarrow> ('d, 'b) StreamManager \<Rightarrow> ((goerror + 'd) \<times> ('d, 'b) StreamManager) option" where
  "LookupDestination r requested early during cancelled sm =
     (let sm = sm\<lparr>lookupObjs := AList.update r \<lparr>lr_address = [], lr_dest = None, lr_ready = False\<rparr> (lookupObjs sm)\<rparr> in
      case requested of
        Inl e \<Rightarrow> Some (Inl (Wrap ''failed to initiate lookup'' e), sm)
      | Inr requestID \<Rightarrow>
          let sm = early sm;
              sm = sm\<lparr>lookupResults := AList.update requestID r (lookupResults sm)\<rparr>;
              sm = during sm;
              done = sm\<lparr>lookupResults := AList.delete requestID (lookupResults sm)\<rparr>
          in (case cancelled of
                Some e \<Rightarrow> Some (Inl e, done)
              | None \<Rightarrow>
                  (case map_of (lookupObjs sm) r of
                     None \<Rightarrow> None
                   | Some lr \<Rightarrow>
                       if \<not> lr_ready lr then None
                       else (case lr_dest lr of
                               None \<Rightarrow> Some (Inl (Errorf ''destination lookup failed for %s'' []), done)
                             | Some d \<Rightarrow> Some (Inr d, done)))))"

definition handleLeaseSet2 :: "('d, 'b) StreamManager \<Rightarrow> ('d, 'b) StreamManager" where
  "handleLeaseSet2 sm = sm\<lparr>leaseSetReady := True\<rparr>"

text \<open>\<^verbatim>\<open>WaitForLeaseSet\<close>: \<open>cancelled\<close> is the error of the context when its case is taken.\<close>

definition WaitForLeaseSet :: "goerror option \<Rightarrow> ('d, 'b) StreamManager \<Rightarrow> goerror option option" where
  "WaitForLeaseSet cancelled sm =
     (case cancelled of
        Some e \<Rightarrow> Some (Some (Wrap ''waiting for LeaseSet publication'' e))
      | None \<Rightarrow> if leaseSetReady sm then Some None else None)"

section \<open>Dispatch\<close>

definition unmarshalIncomingPacket :: "('d, 'c, 'k) i2plib \<Rightarrow> 'd incomingPacket \<Rightarrow> 'd Packet result" where
  "unmarshalIncomingPacket lib incoming = Unmarshal lib emptyPacket (in_payload incoming)"

definition isSynPacket :: "'d Packet \<Rightarrow> bool" where
  "isSynPacket pkt \<longleftrightarrow> Flags pkt AND FlagSYN \<noteq> 0 \<and> SendStreamID pkt = 0"

definition sm_sendResetPacket ::
  "('d, 'c, 'k, 'b) env \<Rightarrow> 'd option \<Rightarrow> u32 \<Rightarrow> u16 \<Rightarrow> u16 \<Rightarrow> ('d, 'b) StreamManager \<Rightarrow> ('d, 'b) StreamManager" where
  "sm_sendResetPacket env dest streamID lport rport sm =
     (case validateResetPrerequisites (sm_hasSession sm) dest of
        Some e \<Rightarrow> sm
      | None \<Rightarrow> sm\<lparr>sm_world := sendResetPacket env dest streamID lport rport (sm_world sm)\<rparr>)"

definition filter_at :: "('d, 'b) StreamManager \<Rightarrow> nat \<Rightarrow> accessFilter" where
  "filter_at sm a = (case map_of (filterObjs sm) a of None \<Rightarrow> newAccessFilter None | Some af \<Rightarrow> af)"

definition handleSynPacket ::
  "('d, 'c, 'k, 'b) env \<Rightarrow> randsource \<Rightarrow> 'd Packet \<Rightarrow> 'd incomingPacket \<Rightarrow> ('d, 'b) StreamManager \<Rightarrow>
     (('d, 'b) StreamManager result \<times> randsource) option" where
  "handleSynPacket env rs pkt incoming sm =
     (case map_of (listeners sm) (in_destPort incoming) of
        None \<Rightarrow> Some (Ok (sm_sendResetPacket env (in_srcDest incoming) (SendStreamID pkt) (in_destPort incoming)
                           (in_srcPort incoming) sm), rs)
      | Some r \<Rightarrow>
     (case map_of (listenerObjs sm) r of
        None \<Rightarrow> Some (Panic, rs)
      | Some l \<Rightarrow>
     (case handleIncomingSYN env (filter_at sm) (nextId sm) (cfgProfile (profileConfig sm)) pkt (in_srcPort incoming)
             (in_srcDest incoming) rs l (sm_world sm) of
        None \<Rightarrow> None
      | Some (Ok (err, l, c, w), rs) \<Rightarrow>
          let sm = sm\<lparr>listenerObjs := AList.update r l (listenerObjs sm), sm_world := w\<rparr>
          in Some (Ok (case c of
                         None \<Rightarrow> sm
                       | Some s \<Rightarrow> sm\<lparr>connObjs := AList.update (nextId sm) s (connObjs sm), nextId := nextId sm + 1\<rparr>), rs)
      | Some (Err e, rs) \<Rightarrow> Some (Err e, rs)
      | Some (Panic, rs) \<Rightarrow> Some (Panic, rs))))"

definition routeToConnection ::
  "('d, 'c, 'k, 'b) env \<Rightarrow> bool \<Rightarrow> 'd Packet \<Rightarrow> 'd incomingPacket \<Rightarrow> ('d, 'b) StreamManager \<Rightarrow> ('d, 'b) StreamManager" where
  "routeToConnection env pick pkt incoming sm =
     (case map_of (w_connections (sm_world sm)) (in_destPort incoming, in_srcPort incoming) of
        Some c \<Rightarrow> on_conn (\<lambda>(s, w). (snd (handleIncomingPacket pick pkt s), w)) c sm
      | None \<Rightarrow> sm_sendResetPacket env (in_srcDest incoming) (SendStreamID pkt) (in_destPort incoming) (in_srcPort incoming) sm)"

definition dispatchPacket ::
  "('d, 'c, 'k, 'b) env \<Rightarrow> bool \<Rightarrow> randsource \<Rightarrow> 'd incomingPacket \<Rightarrow> ('d, 'b) StreamManager \<Rightarrow>
     (('d, 'b) StreamManager result \<times> randsource) option" where
  "dispatchPacket env pick rs incoming sm =
     (case unmarshalIncomingPacket (e_lib env) incoming of
        Err e \<Rightarrow> Some (Ok sm, rs)
      | Panic \<Rightarrow> Some (Panic, rs)
      | Ok pkt \<Rightarrow>
          if Flags pkt AND FlagECHO \<noteq> 0
          then let (pm, w) = handleEchoPacket env pkt (in_srcDest incoming) (in_srcPort incoming) (in_destPort incoming)
                               (pingMgr sm, sm_world sm)
               in Some (Ok (sm\<lparr>pingMgr := pm, sm_world := w\<rparr>), rs)
          else if isSynPacket pkt then handleSynPacket env rs pkt incoming sm
          else Some (Ok (routeToConnection env pick pkt incoming sm), rs))"

text \<open>A round of \<^verbatim>\<open>processPackets\<close>; nothing happens when it is blocked, has returned or was never started.\<close>

definition processPackets_round ::
  "('d, 'c, 'k, 'b) env \<Rightarrow> bool \<Rightarrow> randsource \<Rightarrow> ('d, 'b) StreamManager \<Rightarrow>
     (('d, 'b) StreamManager result \<times> randsource) option" where
  "processPackets_round env pick rs sm =
     (case incomingPackets sm of
        [] \<Rightarrow> Some (Ok sm, rs)
      | packet # packets \<Rightarrow>
          if \<not> processorRunning sm then Some (Ok sm, rs)
          else dispatchPacket env pick rs packet (sm\<lparr>incomingPackets := packets\<rparr>))"

section \<open>Closing\<close>

text \<open>The bodies of the two \<^verbatim>\<open>Range\<close> calls.\<close>

definition closeListenerAt :: "u16 \<Rightarrow> ('d, 'b) StreamManager \<Rightarrow> ('d, 'b) StreamManager" where
  "closeListenerAt port sm = (case map_of (listeners sm) port of None \<Rightarrow> sm | Some r \<Rightarrow> closeListener r sm)"

definition closeRoute ::
  "('d, 'c, 'k, 'b) env \<Rightarrow> u16 \<times> u16 \<Rightarrow> ('d, 'b) StreamManager \<Rightarrow> ('d, 'b) StreamManager" where
  "closeRoute env key sm =
     (case map_of (w_connections (sm_world sm)) key of None \<Rightarrow> sm | Some c \<Rightarrow> on_conn (conn_Close env) c sm)"

definition closeAllConnections :: "('d, 'c, 'k, 'b) env \<Rightarrow> ('d, 'b) StreamManager \<Rightarrow> ('d, 'b) StreamManager" where
  "closeAllConnections env sm =
     (let sm = fold closeListenerAt (map fst (listeners sm)) sm
      in fold (closeRoute env) (map fst (w_connections (sm_world sm))) sm)"

datatype SessionStatus =
  SESSION_STATUS_CREATED | SESSION_STATUS_DESTROYED | SESSION_STATUS_REFUSED | SESSION_STATUS_INVALID
  | SESSION_STATUS_UPDATED | SESSION_STATUS_OTHER

fun handleSessionStatus ::
  "('d, 'c, 'k, 'b) env \<Rightarrow> SessionStatus \<Rightarrow> ('d, 'b) StreamManager \<Rightarrow> ('d, 'b) StreamManager" where
  "handleSessionStatus env SESSION_STATUS_CREATED sm = sm\<lparr>sessionReady := True\<rparr>"
| "handleSessionStatus env SESSION_STATUS_DESTROYED sm = closeAllConnections env sm"
| "handleSessionStatus env _ sm = sm"

text \<open>
  \<^verbatim>\<open>Close\<close> waits until the packet processor has returned; the rounds it still runs while \<^verbatim>\<open>Close\<close> waits are rounds before
  \<open>sm_Close\<close>.
\<close>

definition sm_Close :: "('d, 'c, 'k, 'b) env \<Rightarrow> ('d, 'b) StreamManager \<Rightarrow> ('d, 'b) StreamManager" where
  "sm_Close env sm =
     (if sm_closed sm then sm
      else closeAllConnections env (sm\<lparr>sm_closed := True, processorRunning := False\<rparr>))"

section \<open>Settings\<close>

definition SetPingConfig :: "PingConfig option \<Rightarrow> ('d, 'b) StreamManager \<Rightarrow> ('d, 'b) StreamManager" where
  "SetPingConfig config sm =
     sm\<lparr>pingMgr := (pingMgr sm)\<lparr>ping_config := (case config of None \<Rightarrow> DefaultPingConfig | Some c \<Rightarrow> c)\<rparr>\<rparr>"

definition GetPingConfig :: "('d, 'b) StreamManager \<Rightarrow> PingConfig" where
  "GetPingConfig sm = \<lparr>AnswerPings = AnswerPings (ping_config (pingMgr sm)), PingTimeout = PingTimeout (ping_config (pingMgr sm))\<rparr>"

definition SetConnectionLimits :: "ConnectionLimitsConfig option \<Rightarrow> ('d, 'b) StreamManager \<Rightarrow> ('d, 'b) StreamManager" where
  "SetConnectionLimits config sm =
     sm\<lparr>sm_world := (sm_world sm)\<lparr>w_limiter := SetConfig (w_limiter (sm_world sm)) config\<rparr>\<rparr>"

definition GetConnectionLimits :: "('d, 'b) StreamManager \<Rightarrow> ConnectionLimitsConfig" where
  "GetConnectionLimits sm = GetConfig (w_limiter (sm_world sm))"

definition sm_ActiveStreams :: "('d, 'b) StreamManager \<Rightarrow> int" where
  "sm_ActiveStreams sm = ActiveStreams (w_limiter (sm_world sm))"

text \<open>\<^verbatim>\<open>SetAccessFilter\<close> makes a new filter, which gets the number \<open>a\<close>.\<close>

definition SetAccessFilter :: "nat \<Rightarrow> AccessListConfig option \<Rightarrow> ('d, 'b) StreamManager \<Rightarrow> ('d, 'b) StreamManager" where
  "SetAccessFilter a config sm =
     (let config = (case config of None \<Rightarrow> DefaultAccessListConfig | Some c \<Rightarrow> c)
      in sm\<lparr>filterObjs := AList.update a (newAccessFilter (Some config)) (filterObjs sm), sm_accessFilter := a\<rparr>)"

definition GetAccessFilter :: "('d, 'b) StreamManager \<Rightarrow> AccessListConfig" where
  "GetAccessFilter sm = af_GetConfig (filter_at sm (sm_accessFilter sm))"

definition update_filter :: "(accessFilter \<Rightarrow> accessFilter) \<Rightarrow> ('d, 'b) StreamManager \<Rightarrow> ('d, 'b) StreamManager" where
  "update_filter f sm = sm\<lparr>filterObjs := AList.update (sm_accessFilter sm) (f (filter_at sm (sm_accessFilter sm))) (filterObjs sm)\<rparr>"

definition AddToAccessList :: "string \<Rightarrow> ('d, 'b) StreamManager \<Rightarrow> ('d, 'b) StreamManager" where
  "AddToAccessList hash sm = update_filter (\<lambda>af. AddHash af hash) sm"

definition RemoveFromAccessList :: "string \<Rightarrow> ('d, 'b) StreamManager \<Rightarrow> ('d, 'b) StreamManager" where
  "RemoveFromAccessList hash sm = update_filter (\<lambda>af. RemoveHash af hash) sm"

definition SetAccessListEnabled :: "bool \<Rightarrow> AccessListMode \<Rightarrow> ('d, 'b) StreamManager \<Rightarrow> ('d, 'b) StreamManager" where
  "SetAccessListEnabled enabled mode sm =
     update_filter (\<lambda>af. af_SetConfig af
       (Some ((af_GetConfig af)\<lparr>Mode := (if enabled then mode else AccessListModeDisabled)\<rparr>))) sm"

definition SetAccessListMode :: "AccessListMode \<Rightarrow> ('d, 'b) StreamManager \<Rightarrow> ('d, 'b) StreamManager" where
  "SetAccessListMode mode sm = update_filter (\<lambda>af. af_SetConfig af (Some ((af_GetConfig af)\<lparr>Mode := mode\<rparr>))) sm"

definition GetTCBCacheConfig :: "('d, 'b) StreamManager \<Rightarrow> TCBCacheConfig" where
  "GetTCBCacheConfig sm = tcb_GetConfig (w_tcbCache (sm_world sm))"

definition SetTCBCacheConfig :: "TCBCacheConfig \<Rightarrow> ('d, 'b) StreamManager \<Rightarrow> ('d, 'b) StreamManager" where
  "SetTCBCacheConfig config sm =
     sm\<lparr>sm_world := (sm_world sm)\<lparr>w_tcbCache := tcb_SetConfig (w_tcbCache (sm_world sm)) config\<rparr>\<rparr>"

definition EnableTCBCache :: "bool \<Rightarrow> ('d, 'b) StreamManager \<Rightarrow> ('d, 'b) StreamManager" where
  "EnableTCBCache enabled sm = SetTCBCacheConfig ((GetTCBCacheConfig sm)\<lparr>Enabled := enabled\<rparr>) sm"

definition CleanupTCBCache :: "('d, 'b) StreamManager \<Rightarrow> nat \<times> ('d, 'b) StreamManager" where
  "CleanupTCBCache sm =
     (let w = sm_world sm; (n, c) = tcb_CleanupExpired (w_now w) (w_tcbCache w)
      in (n, sm\<lparr>sm_world := w\<lparr>w_tcbCache := c\<rparr>\<rparr>))"

definition GetMessageStats :: "('d, 'b) StreamManager \<Rightarrow> MessageStats" where
  "GetMessageStats sm = GetStats (w_msgTracker (sm_world sm))"

definition GetProfileConfig :: "('d, 'b) StreamManager \<Rightarrow> ProfileConfig" where
  "GetProfileConfig sm = profileConfig sm"

definition SetProfileConfig :: "ProfileConfig \<Rightarrow> ('d, 'b) StreamManager \<Rightarrow> ('d, 'b) StreamManager" where
  "SetProfileConfig config sm = sm\<lparr>profileConfig := config\<rparr>"

definition SetProfile :: "StreamProfile \<Rightarrow> ('d, 'b) StreamManager \<Rightarrow> ('d, 'b) StreamManager" where
  "SetProfile profile sm = sm\<lparr>profileConfig := (profileConfig sm)\<lparr>cfgProfile := profile\<rparr>\<rparr>"

definition GetProfile :: "('d, 'b) StreamManager \<Rightarrow> StreamProfile" where
  "GetProfile sm = cfgProfile (profileConfig sm)"

section \<open>Histories of the manager\<close>

text \<open>
  What I2CP, the packet processor, the timers and receive loops of the connections and the application can do, one
  atomic operation at a time.  \<open>None\<close> is a panic, or a wait for randomness that does not come.
\<close>

datatype 'd manager_op =
    Arrive "'d option" u8 u16 u16 "byte list"
  | Process bool randsource
  | ReportStatus u32 u8 u32 u32
  | ListenOn u16 int
  | StopListening nat
  | AcceptFrom nat
  | OnConnection conn_id "'d conn_op"
  | DialTo "'d option" u16 u16 randsource
  | DialWait conn_id instant bool
  | SessionChange SessionStatus
  | CloseManager

fun sm_do ::
  "('d, 'c, 'k, 'b) env \<Rightarrow> status_lib \<Rightarrow> 'd manager_op \<Rightarrow> ('d, 'b) StreamManager \<Rightarrow> ('d, 'b) StreamManager option" where
  "sm_do env slib (Arrive d p sport dport payload) sm = Some (handleIncomingMessage d p sport dport payload sm)"
| "sm_do env slib (Process pick rs) sm =
     (case processPackets_round env pick rs sm of Some (Ok sm', _) \<Rightarrow> Some sm' | _ \<Rightarrow> None)"
| "sm_do env slib (ReportStatus i st sz n) sm = Some (handleMessageStatus env slib i st sz n sm)"
| "sm_do env slib (ListenOn port mtu) sm =
     Some ((snd (ListenWithManager (nextId sm) port mtu sm))\<lparr>nextId := nextId sm + 1\<rparr>)"
| "sm_do env slib (StopListening r) sm = Some (closeListener r sm)"
| "sm_do env slib (AcceptFrom r) sm =
     Some (case map_of (listenerObjs sm) r of
        None \<Rightarrow> sm
      | Some l \<Rightarrow> (case Accept [] l of
          None \<Rightarrow> sm | Some (_, l') \<Rightarrow> sm\<lparr>listenerObjs := AList.update r l' (listenerObjs sm)\<rparr>))"
| "sm_do env slib (OnConnection c oper) sm = Some (on_conn (conn_do env oper) c sm)"
| "sm_do env slib (DialTo dest lport rport rs) sm =
     (case dialStart env (nextId sm) (sm_hasSession sm) (cfgProfile (profileConfig sm)) dest lport rport rs (sm_world sm) of
        Some (Ok (_, (s, w))) \<Rightarrow>
          Some (sm\<lparr>connObjs := AList.update (nextId sm) s (connObjs sm), nextId := nextId sm + 1, sm_world := w\<rparr>)
      | Some (Err e) \<Rightarrow> Some sm
      | _ \<Rightarrow> None)"
| "sm_do env slib (DialWait c limit timedOut) sm = Some (on_conn (dialStep env limit timedOut) c sm)"
| "sm_do env slib (SessionChange st) sm = Some (handleSessionStatus env st sm)"
| "sm_do env slib CloseManager sm = Some (sm_Close env sm)"

inductive sm_reach ::
  "('d, 'c, 'k, 'b) env \<Rightarrow> status_lib \<Rightarrow> ('d, 'b) StreamManager \<Rightarrow> ('d, 'b) StreamManager \<Rightarrow> bool" for env slib start where
  sm_start: "sm_reach env slib start start"
| sm_step: "sm_reach env slib start sm'" if "sm_reach env slib start sm" and "sm_do env slib oper sm = Some sm'"

section \<open>The invariant\<close>

definition listeners_ok :: "('d, 'b) StreamManager \<Rightarrow> bool" where
  "listeners_ok sm \<longleftrightarrow>
     (\<forall>port r. map_of (listeners sm) port = Some r \<longrightarrow>
        (\<exists>l. map_of (listenerObjs sm) r = Some l \<and> l_localPort l = port \<and> \<not> l_closed l)) \<and>
     (\<forall>r l. map_of (listenerObjs sm) r = Some l \<longrightarrow>
        r < nextId sm \<and> l_hasManager l \<and> length (acceptChan l) \<le> acceptChanSize \<and>
        (\<forall>c\<in>set (acceptChan l). \<exists>s. map_of (connObjs sm) c = Some s \<and> localPort s = l_localPort l))"

definition routes_ok :: "('d, 'b) StreamManager \<Rightarrow> bool" where
  "routes_ok sm \<longleftrightarrow>
     (\<forall>k c. map_of (w_connections (sm_world sm)) k = Some c \<longrightarrow>
        (\<exists>s. map_of (connObjs sm) c = Some s \<and> (localPort s, remotePort s) = k)) \<and>
     (\<forall>c s. map_of (connObjs sm) c = Some s \<longrightarrow> self s = c \<and> c < nextId sm \<and> hasManager s)"

definition mgr_inv :: "('d, 'b) StreamManager \<Rightarrow> bool" where
  "mgr_inv sm \<longleftrightarrow> length (incomingPackets sm) \<le> incomingQueueSize \<and> listeners_ok sm \<and> routes_ok sm"

text \<open>An operation of a connection that keeps its identity keeps the invariant of the manager it runs in.\<close>

locale routed_op =
  fixes f :: "('d, 'b) conn_world \<Rightarrow> ('d, 'b) conn_world"
  assumes keeps: "unrouted sw (f sw)"
begin

lemma on_conn_cases:
  obtains "on_conn f c sm = sm" and "map_of (connObjs sm) c = None"
  | s s' w' where "map_of (connObjs sm) c = Some s" and "f (s, sm_world sm) = (s', w')" and
    "on_conn f c sm = sm\<lparr>connObjs := AList.update c s' (connObjs sm), sm_world := w'\<rparr>" and "unrouted (s, sm_world sm) (s', w')"
proof (cases "map_of (connObjs sm) c")
  case None
  then show thesis using that(1) by (simp add: on_conn_def)
next
  case (Some s)
  obtain s' w' where f: "f (s, sm_world sm) = (s', w')" by fastforce
  have "on_conn f c sm = sm\<lparr>connObjs := AList.update c s' (connObjs sm), sm_world := w'\<rparr>" using Some f by (simp add: on_conn_def)
  with that(2) [OF Some f] keeps [of "(s, sm_world sm)"] f show thesis by simp
qed

lemma on_conn_others: "c' \<noteq> c \<Longrightarrow> map_of (connObjs (on_conn f c sm)) c' = map_of (connObjs sm) c'"
  by (rule on_conn_cases [of c sm]) (simp_all add: update_conv')

lemma on_conn_keeps:
  "listeners (on_conn f c sm) = listeners sm" "listenerObjs (on_conn f c sm) = listenerObjs sm"
  "incomingPackets (on_conn f c sm) = incomingPackets sm" "nextId (on_conn f c sm) = nextId sm"
  by (rule on_conn_cases [of c sm]; simp)+

lemma on_conn_inv:
  assumes "mgr_inv sm"
  shows "mgr_inv (on_conn f c sm)"
proof (rule on_conn_cases [of c sm])
  fix s s' w'
  assume s: "map_of (connObjs sm) c = Some s" and e: "on_conn f c sm = sm\<lparr>connObjs := AList.update c s' (connObjs sm), sm_world := w'\<rparr>"
    and u: "unrouted (s, sm_world sm) (s', w')"
  have w: "map_of (w_connections w') k = Some d \<Longrightarrow> map_of (w_connections (sm_world sm)) k = Some d" for k d
    using u by (auto simp: unrouted_def delete_conv' split: if_splits)
  have same: "self s' = self s" "hasManager s' = hasManager s" "localPort s' = localPort s" "remotePort s' = remotePort s"
    using u by (simp_all add: unrouted_def)
  have "routes_ok (on_conn f c sm)"
    using assms s same w by (fastforce simp: e mgr_inv_def routes_ok_def update_conv')
  moreover have "listeners_ok (on_conn f c sm)"
    using assms s same by (fastforce simp: e mgr_inv_def listeners_ok_def update_conv')
  ultimately show ?thesis using assms by (simp add: mgr_inv_def e)
qed (use assms in simp)

end

interpretation op: routed_op "conn_do env oper" for env oper
  by unfold_locales (rule conn_do_unrouted)

interpretation closing: routed_op "conn_Close env" for env
  by unfold_locales (rule Close_unrouted)

interpretation failing: routed_op "handleMessageFailed env q b" for env q b
  by unfold_locales (simp add: ident_unrouted)

interpretation delivering: routed_op "\<lambda>(s, w). (handleMessageDelivered q s, w)" for q
  by unfold_locales (simp add: ident_unrouted split_beta)

interpretation queueing: routed_op "\<lambda>(s, w). (snd (handleIncomingPacket pick pkt s), w)" for pick pkt
  by unfold_locales (simp add: ident_unrouted split_beta handleIncomingPacket_def)

interpretation dialling: routed_op "dialStep env limit timedOut" for env limit timedOut
  by unfold_locales (rule dialStep_unrouted)

section \<open>Every operation keeps the invariant\<close>

lemma mgr_inv_simps [simp]:
  "mgr_inv (sm\<lparr>pingMgr := pm\<rparr>) = mgr_inv sm" "mgr_inv (sm\<lparr>sessionReady := b\<rparr>) = mgr_inv sm"
  "mgr_inv (sm\<lparr>sm_closed := b\<rparr>) = mgr_inv sm" "mgr_inv (sm\<lparr>processorRunning := b\<rparr>) = mgr_inv sm"
  by (simp_all add: mgr_inv_def listeners_ok_def routes_ok_def)

lemma mgr_inv_world:
  "w_connections w' = w_connections (sm_world sm) \<Longrightarrow> mgr_inv (sm\<lparr>sm_world := w'\<rparr>) = mgr_inv sm"
  by (simp add: mgr_inv_def listeners_ok_def routes_ok_def)

lemma mgr_inv_listener:
  assumes "mgr_inv sm" and "map_of (listeners sm) port = Some r"
  obtains l where "map_of (listenerObjs sm) r = Some l" and "l_localPort l = port" and "\<not> l_closed l" and "l_hasManager l"
  using assms unfolding mgr_inv_def listeners_ok_def by blast

lemma mgr_inv_route:
  assumes "mgr_inv sm" and "map_of (w_connections (sm_world sm)) k = Some c"
  obtains s where "map_of (connObjs sm) c = Some s" and "(localPort s, remotePort s) = k" and "self s = c" and "hasManager s"
  using assms unfolding mgr_inv_def routes_ok_def by blast

lemma mgr_inv_queue:
  "mgr_inv sm \<Longrightarrow> length ps \<le> incomingQueueSize \<Longrightarrow> mgr_inv (sm\<lparr>incomingPackets := ps\<rparr>)"
  by (simp add: mgr_inv_def listeners_ok_def routes_ok_def)

lemma reset_inv: "mgr_inv sm \<Longrightarrow> mgr_inv (sm_sendResetPacket env d q lp rp sm)"
  by (simp add: sm_sendResetPacket_def mgr_inv_world reset_quiet split: option.split)

lemma sendPacketToDest_routes: "w_connections (snd (sendPacketToDest env p d lp rp w)) = w_connections w"
  by (simp add: sendPacketToDest_def SendMessage_def Let_def split: sum.split)

lemma echo_routes: "w_connections (snd (handleEchoPacket env pkt d sp dp (pm, w))) = w_connections w"
  by (simp add: handleEchoPacket_def handlePing_def handlePong_def sendPacketToDest_routes Let_def split: option.split)

lemma notify_inv: "mgr_inv sm \<Longrightarrow> mgr_inv (fold (notify env) ns sm)"
proof (induction ns arbitrary: sm)
  case (Cons n ns)
  have "mgr_inv (notify env n sm)"
    using Cons.prems by (cases n) (simp_all add: failing.on_conn_inv delivering.on_conn_inv)
  then show ?case using Cons.IH by simp
qed simp

lemma status_inv: "mgr_inv sm \<Longrightarrow> mgr_inv (handleMessageStatus env slib i st sz n sm)"
  by (simp add: handleMessageStatus_def notify_inv mgr_inv_world Let_def split_beta)

lemma closeListener_inv:
  assumes "mgr_inv sm"
  shows "mgr_inv (closeListener r sm)"
proof (cases "map_of (listenerObjs sm) r")
  case (Some l)
  obtain l' ls where c: "l_Close (listeners sm) l = (l', ls)" by fastforce
  have "l_hasManager l" using assms Some by (simp add: mgr_inv_def listeners_ok_def)
  with c have l': "l_localPort l' = l_localPort l" "acceptChan l' = acceptChan l" "l_hasManager l'"
    and ls: "l_closed l \<and> l' = l \<and> ls = listeners sm \<or> ls = AList.delete (l_localPort l) (listeners sm)"
    by (auto simp: l_Close_def split: if_splits)
  have A: "\<exists>l. map_of (AList.update r l' (listenerObjs sm)) r' = Some l \<and> l_localPort l = port \<and> \<not> l_closed l"
    if h: "map_of ls port = Some r'" for port r'
  proof -
    from h ls have old: "map_of (listeners sm) port = Some r'" by (auto simp: delete_conv' split: if_splits)
    obtain l2 where l2: "map_of (listenerObjs sm) r' = Some l2" "l_localPort l2 = port" "\<not> l_closed l2"
      using mgr_inv_listener [OF assms old] .
    have "r' \<noteq> r"
      using l2 Some h ls by (auto simp: delete_conv' split: if_splits)
    with l2 show ?thesis by (simp add: update_conv')
  qed
  have B: "r' < nextId sm \<and> l_hasManager l2 \<and> length (acceptChan l2) \<le> acceptChanSize \<and>
      (\<forall>c\<in>set (acceptChan l2). \<exists>s. map_of (connObjs sm) c = Some s \<and> localPort s = l_localPort l2)"
    if "map_of (AList.update r l' (listenerObjs sm)) r' = Some l2" for r' l2
  proof -
    have "r' = r \<and> l2 = l' \<or> map_of (listenerObjs sm) r' = Some l2" using that by (auto simp: update_conv' split: if_splits)
    with assms Some l' show ?thesis unfolding mgr_inv_def listeners_ok_def by auto
  qed
  have "listeners_ok (sm\<lparr>listeners := ls, listenerObjs := AList.update r l' (listenerObjs sm)\<rparr>)"
    using A B by (simp add: listeners_ok_def)
  then show ?thesis using assms Some c by (simp add: closeListener_def mgr_inv_def routes_ok_def)
qed (use assms in \<open>simp add: closeListener_def\<close>)

lemma closeListeners_inv: "mgr_inv sm \<Longrightarrow> mgr_inv (fold closeListenerAt ps sm)"
  by (induction ps arbitrary: sm) (auto simp: closeListenerAt_def closeListener_inv split: option.split)

lemma closeRoute_inv: "mgr_inv sm \<Longrightarrow> mgr_inv (closeRoute env k sm)"
  by (simp add: closeRoute_def closing.on_conn_inv split: option.split)

lemma closeAll_inv: "mgr_inv sm \<Longrightarrow> mgr_inv (closeAllConnections env sm)"
proof -
  have "mgr_inv sm \<Longrightarrow> mgr_inv (fold (closeRoute env) ks sm)" for ks sm
    by (induction ks arbitrary: sm) (auto simp: closeRoute_inv)
  then show "mgr_inv sm \<Longrightarrow> mgr_inv (closeAllConnections env sm)"
    by (simp add: closeAllConnections_def closeListeners_inv Let_def)
qed

lemma listen_inv:
  assumes "mgr_inv sm"
  shows "mgr_inv ((snd (ListenWithManager (nextId sm) port mtu sm))\<lparr>nextId := nextId sm + 1\<rparr>)"
proof -
  have f: "map_of (listenerObjs sm) (nextId sm) = None"
    using assms by (cases "map_of (listenerObjs sm) (nextId sm)") (auto simp: mgr_inv_def listeners_ok_def)
  have up: "mgr_inv (sm\<lparr>nextId := nextId sm + 1\<rparr>)"
    using assms by (fastforce simp: mgr_inv_def listeners_ok_def routes_ok_def)
  show ?thesis
  proof (cases "newManagedListener True (sm_accessFilter sm) port mtu")
    case (Inl e)
    then show ?thesis using up by (simp add: ListenWithManager_def)
  next
    case (Inr l)
    then have l: "l_localPort l = port" "acceptChan l = []" "l_hasManager l" "\<not> l_closed l"
      by (auto simp: newManagedListener_def split: if_splits)
    then show ?thesis using up Inr f
      by (fastforce simp: ListenWithManager_def RegisterListener_def mgr_inv_def listeners_ok_def routes_ok_def update_conv')
  qed
qed

lemma accept_inv:
  assumes "mgr_inv sm" and "map_of (listenerObjs sm) r = Some l" and "Accept [] l = Some (x, l')"
  shows "mgr_inv (sm\<lparr>listenerObjs := AList.update r l' (listenerObjs sm)\<rparr>)"
proof -
  have "l_localPort l' = l_localPort l" "l_hasManager l' = l_hasManager l" "l_closed l' = l_closed l"
    "set (acceptChan l') \<subseteq> set (acceptChan l)" "length (acceptChan l') \<le> length (acceptChan l)"
    using assms(3) by (auto simp: Accept_def receiveAccepted.simps [of "[]"] split: if_splits list.splits)
  with assms(1,2) show ?thesis
    by (fastforce simp: mgr_inv_def listeners_ok_def routes_ok_def update_conv')
qed

lemma syn_inv:
  assumes "mgr_inv sm" and "handleSynPacket env rs pkt inc sm = Some (Ok sm', rs')"
  shows "mgr_inv sm'"
proof (cases "map_of (listeners sm) (in_destPort inc)")
  case None
  then show ?thesis using assms by (auto simp: handleSynPacket_def reset_inv)
next
  case (Some r)
  obtain l where l: "map_of (listenerObjs sm) r = Some l" "l_localPort l = in_destPort inc" "l_hasManager l"
    by (rule mgr_inv_listener [OF assms(1) Some])
  obtain err l' c w where h: "handleIncomingSYN env (filter_at sm) (nextId sm) (cfgProfile (profileConfig sm)) pkt (in_srcPort inc)
      (in_srcDest inc) rs l (sm_world sm) = Some (Ok (err, l', c, w), rs')"
    and sm': "sm' = (let sm = sm\<lparr>listenerObjs := AList.update r l' (listenerObjs sm), sm_world := w\<rparr> in case c of None \<Rightarrow> sm
      | Some s \<Rightarrow> sm\<lparr>connObjs := AList.update (nextId sm) s (connObjs sm), nextId := nextId sm + 1\<rparr>)"
    using assms(2) Some l(1) by (auto simp: handleSynPacket_def Let_def split: option.splits prod.splits result.splits)
  show ?thesis
  proof (cases c)
    case None
    note q = handleIncomingSYN_refused [OF h [unfolded None]]
    have "map_of (AList.update r l (listenerObjs sm)) = map_of (listenerObjs sm)" using l(1) by (auto simp: update_conv')
    then show ?thesis using assms(1) q by (simp add: sm' None mgr_inv_def listeners_ok_def routes_ok_def)
  next
    case (Some s)
    note q = handleIncomingSYN_routes [OF h [unfolded Some] l(3)]
    let ?k = "(l_localPort l, in_srcPort inc)" and ?n = "nextId sm"
    have fresh: "map_of (connObjs sm) ?n = None"
      using assms(1) by (cases "map_of (connObjs sm) ?n") (auto simp: mgr_inv_def routes_ok_def)
    have rt: "map_of (w_connections w) k = Some d \<Longrightarrow> k = ?k \<and> d = ?n \<or> map_of (w_connections (sm_world sm)) k = Some d" for k d
      using q(3) by (cases "k = ?k") auto
    have "routes_ok sm'"
      using assms(1) q(1) fresh rt by (fastforce simp: sm' Some mgr_inv_def routes_ok_def update_conv')
    moreover have "listeners_ok sm'"
      using assms(1) q(1,2) l(1) fresh
      by (fastforce simp: sm' Some mgr_inv_def listeners_ok_def update_conv' split: if_splits)
    ultimately show ?thesis using assms(1) by (simp add: mgr_inv_def sm' Some)
  qed
qed

lemma dial_inv:
  assumes "mgr_inv sm" and "dialStart env (nextId sm) hs prof dest lport rport rs (sm_world sm) = Some (Ok (r, s, w))"
  shows "mgr_inv (sm\<lparr>connObjs := AList.update (nextId sm) s (connObjs sm), nextId := nextId sm + 1, sm_world := w\<rparr>)"
proof -
  have s: "self s = nextId sm" "hasManager s" "localPort s = lport" "remotePort s = rport"
    using dialStart_new [OF assms(2)] by (simp_all add: ident_def)
  have fresh: "map_of (connObjs sm) (nextId sm) = None"
    using assms(1) by (cases "map_of (connObjs sm) (nextId sm)") (auto simp: mgr_inv_def routes_ok_def)
  have rt: "map_of (w_connections w) k = Some d \<Longrightarrow> k = (lport, rport) \<and> d = nextId sm \<or> map_of (w_connections (sm_world sm)) k = Some d" for k d
    using dialStart_new [OF assms(2)] by (auto simp: ident_def update_conv' delete_conv' split: if_splits)
  show ?thesis using assms(1) s fresh rt
    by (fastforce simp: mgr_inv_def listeners_ok_def routes_ok_def update_conv')
qed

lemma dispatch_inv:
  assumes "mgr_inv sm" and "dispatchPacket env pick rs inc sm = Some (Ok sm', rs')"
  shows "mgr_inv sm'"
proof (cases "unmarshalIncomingPacket (e_lib env) inc")
  case (Ok pkt)
  obtain pm w where e: "handleEchoPacket env pkt (in_srcDest inc) (in_srcPort inc) (in_destPort inc) (pingMgr sm, sm_world sm) = (pm, w)"
    by fastforce
  have "w_connections w = w_connections (sm_world sm)"
    using echo_routes [of env pkt "in_srcDest inc" "in_srcPort inc" "in_destPort inc" "pingMgr sm" "sm_world sm"] by (simp add: e)
  then have 1: "mgr_inv (sm\<lparr>pingMgr := pm, sm_world := w\<rparr>)" using assms(1) by (simp add: mgr_inv_world)
  have 2: "mgr_inv (routeToConnection env pick pkt inc sm)"
    using assms(1) by (simp add: routeToConnection_def queueing.on_conn_inv reset_inv split: option.split)
  show ?thesis using assms Ok e 1 2 syn_inv by (auto simp: dispatchPacket_def split: if_splits)
qed (use assms in \<open>auto simp: dispatchPacket_def\<close>)

lemma sm_do_inv:
  assumes "mgr_inv sm" and "sm_do env slib oper sm = Some sm'"
  shows "mgr_inv sm'"
proof (cases oper)
  case (Arrive d p sp dp payload)
  then show ?thesis using assms by (auto simp: handleIncomingMessage_def mgr_inv_queue Let_def split: if_splits)
next
  case (Process pick rs)
  have "mgr_inv (sm\<lparr>incomingPackets := ps\<rparr>)" if "incomingPackets sm = p # ps" for p ps
    using assms(1) that by (intro mgr_inv_queue) (simp_all add: mgr_inv_def)
  then show ?thesis
    using assms by (auto simp: Process processPackets_round_def dest: dispatch_inv split: list.splits option.splits prod.splits result.splits if_splits)
next
  case (AcceptFrom r)
  then show ?thesis using assms by (auto intro: accept_inv split: option.splits)
next
  case (SessionChange st)
  then show ?thesis using assms by (cases st) (auto simp: closeAll_inv)
next
  case CloseManager
  then show ?thesis using assms by (auto simp: sm_Close_def closeAll_inv)
next
  case (DialTo dest lport rport rs)
  then show ?thesis using assms by (auto intro: dial_inv [simplified] split: option.splits result.splits)
qed (use assms in \<open>auto simp: dialling.on_conn_inv status_inv listen_inv [simplified] closeListener_inv op.on_conn_inv\<close>)

end
