(* ===== verification/Demo_Run.thy ===== *)
theory Demo_Run
  imports Connect
begin

text \<open>
  One concrete handshake between a client and a listener over the concrete library, step by step: the
  input on which the properties about two endpoints are evaluated.
\<close>

lemma demo_built:
  "length nacks \<le> 255 \<Longrightarrow> marshalable byte_lib (buildSYNPacket demo_env s nacks)"
  "marshalable byte_lib (buildSynAckPacket demo_env s)"
  "hasFlag (buildSYNPacket demo_env s nacks) FlagSignatureIncluded" "hasFlag (buildSynAckPacket demo_env s) FlagSignatureIncluded"
  "FromDestination (buildSYNPacket demo_env s nacks) = Some 9" "FromDestination (buildSynAckPacket demo_env s) = Some 9"
proof -
  have f: "FromDestination (buildSYNPacket demo_env s nacks) = Some 9" "FromDestination (buildSynAckPacket demo_env s) = Some 9"
    "Signature (buildSYNPacket demo_env s nacks) = []" "Signature (buildSynAckPacket demo_env s) = []"
    "NACKs (buildSYNPacket demo_env s nacks) = nacks" "NACKs (buildSynAckPacket demo_env s) = []"
    by (simp_all add: buildSYNPacket_def buildSynAckPacket_def demo_session_def emptyPacket_def Let_def)
  have "WriteToMessage byte_lib d = Inr [d]" for d by (simp add: byte_lib_def)
  then show "length nacks \<le> 255 \<Longrightarrow> marshalable byte_lib (buildSYNPacket demo_env s nacks)"
    "marshalable byte_lib (buildSynAckPacket demo_env s)"
    using f by (simp_all add: marshalable_def SYN_flags(4,8))
  show "hasFlag (buildSYNPacket demo_env s nacks) FlagSignatureIncluded" "hasFlag (buildSynAckPacket demo_env s) FlagSignatureIncluded"
    by (simp_all add: hasFlag_def buildSYNPacket_def buildSynAckPacket_def flag_defs profileToFlag_def Let_def)
  show "FromDestination (buildSYNPacket demo_env s nacks) = Some 9" "FromDestination (buildSynAckPacket demo_env s) = Some 9"
    by (fact f)+
qed

lemma demo_SYN:
  obtains w1 m1 p1 where "sendSYN demo_env (demo_client, demo_world) = (None, demo_client\<lparr>sendSeq := 101\<rparr>, w1)"
    and "w_wire w1 = w_wire demo_world @ [m1]" and "msg_data m1 = wire_format byte_lib p1" and "marshalable byte_lib p1"
    and "p1 = (buildSYNPacket demo_env demo_client [0x09000000, 0, 0, 0, 0, 0, 0, 0])\<lparr>Signature := Signature p1\<rparr>"
    and "Signature p1 \<noteq> []" and "VerifyPacketSignature byte_lib p1 = Ok ()"
proof -
  let ?p = "buildSYNPacket demo_env demo_client [0x09000000, 0, 0, 0, 0, 0, 0, 0]"
  have m: "marshalable byte_lib ?p" by (rule demo_built) simp
  from demo_signs [OF m demo_built(3,5), of 9] obtain p1 where p1: "SignPacket byte_lib ?p 9 = Ok p1"
    "p1 = ?p\<lparr>Signature := Signature p1\<rparr>" "length (Signature p1) = 64" "marshalable byte_lib p1"
    "VerifyPacketSignature byte_lib p1 = Ok ()" by auto
  obtain w1 where send: "SendMessage demo_env (Some 9) 80 4000 (wire_format byte_lib p1) 0 demo_world = (None, w1)"
    using demo_env_sends by blast
  have d: "conn_dest demo_client = Some 9" "localPort demo_client = 80" "remotePort demo_client = 4000" "sendSeq demo_client = 100"
    by (simp_all add: demo_client_def initializeStreamConn_def)
  have "signAndSendPacket demo_env ?p (demo_client, demo_world) = (None, w1)"
    using p1(1) Marshal_marshalable [OF p1(4)] send by (simp add: signAndSendPacket_def demo_session_def d)
  then have s: "sendSYN demo_env (demo_client, demo_world) = (None, demo_client\<lparr>sendSeq := 101\<rparr>, w1)"
    by (simp add: sendSYN_def d demo_nacks(1))
  obtain m1 where "w_wire w1 = w_wire demo_world @ [m1]" "msg_data m1 = wire_format byte_lib p1"
    using SendMessage_sent [OF send] by blast
  moreover have "Signature p1 \<noteq> []" using p1(3) by auto
  ultimately show thesis using that s p1 by blast
qed

lemma demo_syn_read:
  assumes "marshalable byte_lib p" and "p = (buildSYNPacket demo_env demo_client nacks)\<lparr>Signature := Signature p\<rparr>"
    and "Signature p \<noteq> []"
  shows "Unmarshal byte_lib emptyPacket (wire_format byte_lib p) = Ok p"
proof -
  define q where "q = buildSYNPacket demo_env demo_client nacks"
  have p: "p = q\<lparr>Signature := Signature p\<rparr>" using assms(2) by (simp add: q_def)
  have f: "hasFlag p g = hasFlag q g" for g by (subst p) simp
  have z: "OptionalDelay p = 0" "OfflineSignature p = None" "hasFlag p FlagSignatureIncluded" "hasFlag p FlagFromIncluded"
    "hasFlag p FlagMaxPacketSizeIncluded" "\<not> hasFlag p FlagOfflineSignature"
    by (simp_all add: f q_def SYN_flags(2,3,4) demo_built(3)) (subst p, simp add: q_def buildSYNPacket_def emptyPacket_def Let_def)+
  then have "wire_view byte_lib p = p"
    using assms(3) by (simp add: wire_view_def sig_option_def sig_bytes_def)
  with received_packet [OF byte_lib_ok assms(1)] z show ?thesis by simp
qed

lemma demo_server:
  assumes "syn = (buildSYNPacket demo_env demo_client [0x09000000, 0, 0, 0, 0, 0, 0, 0])\<lparr>Signature := Signature syn\<rparr>"
    and "VerifyPacketSignature byte_lib syn = Ok ()"
  obtains l' s w' where "handleIncomingSYN demo_env afs 2 1 syn 80 (Some 9) [Inr 700, Inr 44] demo_listener demo_world =
    Some (Ok (None, l', Some s, w'), [])"
proof -
  have syn: "NACKs syn = [0x09000000, 0, 0, 0, 0, 0, 0, 0]" "FromDestination syn = Some 9"
    by (subst assms(1), simp add: buildSYNPacket_def demo_session_def Let_def)+
  have h: "hashDestination byte_lib (Some 9) = Ok (Sum256 byte_lib [9])" by (simp add: hashDestination_def byte_lib_def)
  have checks: "checkAccessFilter demo_env afs demo_listener (Some 9) syn demo_world = (None, demo_world)"
    "checkConnectionLimits demo_env demo_listener (Some 9) syn demo_world = (None, demo_world)"
    by (simp_all add: checkAccessFilter_def checkConnectionLimits_def demo_listener_def)
  have src: "validateSYNSource syn (Some 9) = Inr 9" by (simp add: validateSYNSource_def syn)
  have valid: "validateIncomingSYN demo_env syn (Some 9) = None"
    using assms(2) demo_nacks(2) by (simp add: validateIncomingSYN_def src verifySYNSignature_def verifySYNReplayPrevention_def syn h demo_session_def)
  obtain s0 w0 where init: "initConnectionState demo_env 2 1 demo_listener syn 80 9 700 44 ([], 0, 65536) demo_world = (s0, w0)"
    by (metis surj_pair)
  have create: "createIncomingConnection demo_env 2 1 demo_listener syn 80 9 [Inr 700, Inr 44] demo_world = Some (Ok (s0, w0), [])"
    using init by (simp add: createIncomingConnection_def recvBufSize_def) (simp add: list_circ_def)
  from demo_signs [OF demo_built(2) [of s0] demo_built(4,6), of 9] obtain p where p: "SignPacket byte_lib (buildSynAckPacket demo_env s0) 9 = Ok p"
    "marshalable byte_lib p" by auto
  obtain w1 where send: "SendMessage demo_env (conn_dest s0) (localPort s0) (remotePort s0) (wire_format byte_lib p) 0 w0 = (None, w1)"
    using demo_env_sends by blast
  have "sendSynAck demo_env (s0, w0) = (None, s0\<lparr>sendSeq := sendSeq s0 + 1\<rparr>, w1)"
    using p Marshal_marshalable [OF p(2)] send
    by (simp add: sendSynAck_def signSynAckPacket_def demo_session_def transmitSynAckPacket_def)
  moreover have "\<not> l_hasManager demo_listener" by (simp add: demo_listener_def)
  moreover have "queueConnectionForAccept demo_listener 80 (s, w) = Ok (None, demo_listener\<lparr>acceptChan := [self s]\<rparr>, s, w)"
    for s :: "(byte, byte list \<times> int \<times> int) StreamConn" and w :: "byte world"
    by (simp add: queueConnectionForAccept_def demo_listener_def acceptChanSize_def)
  ultimately show thesis
    using that checks src valid create by (simp add: handleIncomingSYN_def finalizeIncomingConnection_def)
qed

lemma demo_finish:
  assumes "sendSYN demo_env (demo_client, demo_world) = (None, demo_client\<lparr>sendSeq := 101\<rparr>, w1)"
    and "isSynAckPacket synack" and "AckThrough synack = 100"
  obtains c3 w3 m3 where "performHandshake demo_env 1000 [Meanwhile (queue_packet synack), TakePacket] (demo_client, demo_world) =
      Some (None, c3, w3)" and "w_wire w3 = w_wire w1 @ [m3]" and "\<exists>c2 :: (byte, byte list \<times> int \<times> int) StreamConn. msg_data m3 = wire_format byte_lib (finalAckPacket c2)"
proof -
  let ?s = "demo_client\<lparr>sendSeq := 101, conn_state := StateSynSent, recvChan := []\<rparr>"
  have wait: "waitForSynAck lim [Meanwhile (queue_packet synack), TakePacket] (setState (demo_client\<lparr>sendSeq := 101\<rparr>) StateSynSent, w1) = Some (Inr synack, ?s, w1)" for lim
    using assms(2) by (simp add: queue_packet_def handleIncomingPacket_def recvChanSize_def setState_def demo_client_def initializeStreamConn_def)
  obtain c2 where p: "processSynAck synack ?s = (None, c2)"
    using assms(3) by (simp add: processSynAck_def validateSynAckAckThrough_def Let_def)
  have m: "marshalable byte_lib (finalAckPacket c2)" by (simp add: marshalable_def hasFlag_def finalAckPacket_def emptyPacket_def)
  obtain w3 where send: "SendMessage demo_env (conn_dest c2) (localPort c2) (remotePort c2)
      (wire_format byte_lib (finalAckPacket c2)) 0 w1 = (None, w3)" using demo_env_sends by blast
  have a: "sendACK demo_env (c2, w1) = (None, c2, w3)"
    using Marshal_marshalable [OF m] send by (simp add: sendACK_def)
  obtain m3 where "w_wire w3 = w_wire w1 @ [m3]" "msg_data m3 = wire_format byte_lib (finalAckPacket c2)"
    using SendMessage_sent [OF send] by blast
  moreover have "performHandshake demo_env 1000 [Meanwhile (queue_packet synack), TakePacket] (demo_client, demo_world) =
      Some (None, setState c2 StateEstablished, w3)"
    using assms(1) wait p a by (simp add: performHandshake_def completeHandshake_def)
  ultimately show thesis using that by blast
qed

text \<open>The whole exchange: what both sides do and what each reads of the messages of the other.\<close>

lemma demo_handshake:
  obtains w1 m1 syn l' s v1 m2 synack c3 w3 m3 ack where
    "sendSYN demo_env (demo_client, demo_world) = (None, demo_client\<lparr>sendSeq := 101\<rparr>, w1)" and "w_wire w1 = w_wire demo_world @ [m1]"
    and "Unmarshal byte_lib emptyPacket (msg_data m1) = Ok syn"
    and "handleIncomingSYN demo_env (\<lambda>_. newAccessFilter None) 2 1 syn 80 (Some 9) [Inr 700, Inr 44] demo_listener demo_world =
      Some (Ok (None, l', Some s, v1), [])"
    and "w_wire v1 = w_wire demo_world @ [m2]" and "Unmarshal byte_lib emptyPacket (msg_data m2) = Ok synack"
    and "performHandshake demo_env 1000 [Meanwhile (queue_packet synack), TakePacket] (demo_client, demo_world) = Some (None, c3, w3)"
    and "w_wire w3 = w_wire w1 @ [m3]" and "Unmarshal byte_lib emptyPacket (msg_data m3) = Ok ack"
proof -
  obtain w1 m1 p1 where syn: "sendSYN demo_env (demo_client, demo_world) = (None, demo_client\<lparr>sendSeq := 101\<rparr>, w1)"
    "w_wire w1 = w_wire demo_world @ [m1]" "msg_data m1 = wire_format byte_lib p1" "marshalable byte_lib p1"
    "p1 = (buildSYNPacket demo_env demo_client [0x09000000, 0, 0, 0, 0, 0, 0, 0])\<lparr>Signature := Signature p1\<rparr>"
    "Signature p1 \<noteq> []" "VerifyPacketSignature byte_lib p1 = Ok ()" by (rule demo_SYN)
  note r1 = demo_syn_read [OF syn(4,5,6)]
  obtain l' s v1 where sv: "handleIncomingSYN demo_env (\<lambda>_. newAccessFilter None) 2 1 p1 80 (Some 9) [Inr 700, Inr 44] demo_listener demo_world =
    Some (Ok (None, l', Some s, v1), [])" by (rule demo_server [OF syn(5,7)])
  from sv obtain s0 p2 m2 where s0: "w_wire v1 = w_wire demo_world @ [m2]" "msg_data m2 = wire_format byte_lib p2"
    "marshalable byte_lib p2" "p2 = (buildSynAckPacket demo_env s0)\<lparr>Signature := Signature p2\<rparr>"
    "recvSeq s0 = SequenceNum p1 + 1" "localStreamID s0 \<noteq> 0"
    by (rule handleIncomingSYN_created) (use demo_env_simps(1) in auto)
  have f2: "hasFlag p2 FlagFromIncluded" "\<not> hasFlag p2 FlagOfflineSignature"
    by (subst s0(4), simp add: SYN_flags)+
  have r2: "Unmarshal byte_lib emptyPacket (msg_data m2) = Ok (wire_view byte_lib p2)"
    unfolding s0(2) by (rule received_packet [OF byte_lib_ok s0(3)]) (use f2 in auto)
  note sa = read_SynAck [OF byte_lib_ok s0(3,4) r2 [unfolded s0(2)]]
  have "SequenceNum p1 = 100" by (subst syn(5)) (simp add: SYN_fields demo_client_def initializeStreamConn_def)
  then have fin: "isSynAckPacket (wire_view byte_lib p2)" "AckThrough (wire_view byte_lib p2) = 100"
    using sa(2,3,4) s0(5,6) by (simp_all add: isSynAckPacket_def word_gt_0)
  obtain c3 w3 m3 and c2 :: "(byte, byte list \<times> int \<times> int) StreamConn" where
    hs: "performHandshake demo_env 1000 [Meanwhile (queue_packet (wire_view byte_lib p2)), TakePacket] (demo_client, demo_world) =
      Some (None, c3, w3)" "w_wire w3 = w_wire w1 @ [m3]" "msg_data m3 = wire_format byte_lib (finalAckPacket c2)"
    using demo_finish [OF syn(1) fin] by metis
  have m: "marshalable byte_lib (finalAckPacket c2)" by (simp add: marshalable_def hasFlag_def finalAckPacket_def emptyPacket_def)
  have r3: "Unmarshal byte_lib emptyPacket (msg_data m3) = Ok (wire_view byte_lib (finalAckPacket c2))"
    unfolding hs(3) by (rule received_packet [OF byte_lib_ok m]) (simp_all add: hasFlag_def finalAckPacket_def)
  show thesis by (rule that [OF syn(1,2) r1 [folded syn(3)] sv s0(1) r2 hs(1,2) r3])
qed

end
