(* ===== verification/Addresses.thy ===== *)
theory Addresses
  imports Manager Demo_Run
begin

text \<open>
  The addresses of \<^verbatim>\<open>stream.go\<close> (\<^verbatim>\<open>I2PAddr\<close> and the functions on \<^verbatim>\<open>net.Addr\<close>), the accessors of connections,
  listeners and the stream manager, and the texts the package prints.

  A \<^verbatim>\<open>*I2PAddr\<close> is an optional record, \<open>None\<close> being the nil pointer; a \<^verbatim>\<open>net.Addr\<close> is an interface value: nil, a
  \<^verbatim>\<open>*I2PAddr\<close>, or something else.  The printed forms of a destination, \<^verbatim>\<open>Base64\<close> and \<^verbatim>\<open>Base32\<close> of the I2CP library, are
  arguments.
\<close>

section \<open>Decimal numbers\<close>

text \<open>The verb \<^verbatim>\<open>%d\<close> of \<^verbatim>\<open>fmt.Sprintf\<close>, and how the digits read back.\<close>

definition digit :: "nat \<Rightarrow> char" where
  "digit n = char_of (48 + n)"

fun decimal :: "nat \<Rightarrow> string" where
  "decimal n = (if n < 10 then [digit n] else decimal (n div 10) @ [digit (n mod 10)])"

declare decimal.simps [simp del]

definition fmt_d :: "int \<Rightarrow> string" where
  "fmt_d i = (if i < 0 then ''-'' @ decimal (nat (- i)) else decimal (nat i))"

definition read_decimal :: "string \<Rightarrow> nat" where
  "read_decimal = foldl (\<lambda>n c. 10 * n + (of_char c - 48)) 0"

lemma of_char_digit: "n < 10 \<Longrightarrow> (of_char (digit n) :: nat) = 48 + n"
  by (simp add: digit_def)

lemma read_decimal_inverse [simp]: "read_decimal (decimal n) = n"
proof (induction n rule: decimal.induct)
  case (1 n)
  show ?case
  proof (cases "n < 10")
    case True
    then show ?thesis by (simp add: decimal.simps [of n] read_decimal_def of_char_digit)
  next
    case False
    then have "read_decimal (decimal n) = 10 * read_decimal (decimal (n div 10)) + n mod 10"
      by (simp add: decimal.simps [of n] read_decimal_def of_char_digit)
    with 1 False show ?thesis by simp
  qed
qed

lemma decimal_eq_iff [simp]: "decimal m = decimal n \<longleftrightarrow> m = n"
  by (metis read_decimal_inverse)

lemma decimal_head: "\<exists>d ds. d < 10 \<and> decimal n = digit d # ds"
proof (induction n rule: decimal.induct)
  case (1 n)
  then show ?case by (cases "n < 10") (auto simp: decimal.simps [of n])
qed

lemma decimal_not_minus [simp]: "decimal n \<noteq> CHR ''-'' # ds"
proof
  assume n: "decimal n = CHR ''-'' # ds"
  obtain d where "d < 10" "digit d = CHR ''-''" using decimal_head [of n] n by auto
  then have "48 + d = (of_char CHR ''-'' :: nat)" using of_char_digit [of d] by simp
  then show False by simp
qed

lemmas minus_not_decimal [simp] = decimal_not_minus [symmetric]

lemma fmt_d_eq_iff [simp]: "fmt_d i = fmt_d j \<longleftrightarrow> i = j"
  by (auto simp: fmt_d_def)

section \<open>Addresses\<close>

record 'd I2PAddr =
  addr_dest :: "'d option"
  addr_port :: u16

datatype 'd net_addr = NilAddr | I2P "'d I2PAddr option" | OtherAddr

definition addr_Network :: "'d I2PAddr option \<Rightarrow> string" where
  "addr_Network a = ''i2p''"

definition addr_String :: "'d I2PAddr option \<Rightarrow> string result" where
  "addr_String p =
     (case p of
        None \<Rightarrow> Panic
      | Some a \<Rightarrow>
          if addr_dest a = None then Ok (''*:'' @ fmt_d (uint (addr_port a)))
          else Ok (''i2p:'' @ fmt_d (uint (addr_port a))))"

definition addr_Destination :: "'d I2PAddr option \<Rightarrow> 'd option" where
  "addr_Destination p = (case p of None \<Rightarrow> None | Some a \<Rightarrow> addr_dest a)"

definition addr_Base64 :: "('d \<Rightarrow> string) \<Rightarrow> 'd I2PAddr option \<Rightarrow> string" where
  "addr_Base64 b64 p =
     (case p of
        None \<Rightarrow> []
      | Some a \<Rightarrow> (case addr_dest a of None \<Rightarrow> [] | Some d \<Rightarrow> b64 d))"

definition addr_Base32 :: "('d \<Rightarrow> string) \<Rightarrow> 'd I2PAddr option \<Rightarrow> string" where
  "addr_Base32 b32 p =
     (case p of
        None \<Rightarrow> []
      | Some a \<Rightarrow> (case addr_dest a of None \<Rightarrow> [] | Some d \<Rightarrow> b32 d))"

definition PeerDestination :: "'d net_addr \<Rightarrow> 'd option \<times> bool" where
  "PeerDestination addr =
     (case addr of
        I2P (Some a) \<Rightarrow> if addr_dest a = None then (None, False) else (addr_dest a, True)
      | _ \<Rightarrow> (None, False))"

definition PeerDestinationBase64 :: "('d \<Rightarrow> string) \<Rightarrow> 'd net_addr \<Rightarrow> string \<times> bool" where
  "PeerDestinationBase64 b64 addr =
     (case PeerDestination addr of
        (Some d, True) \<Rightarrow> (b64 d, True)
      | _ \<Rightarrow> ([], False))"

section \<open>Accessors of a connection and of a listener\<close>

definition LocalAddr :: "('d, 'b) StreamConn \<Rightarrow> 'd net_addr" where
  "LocalAddr s = I2P (Some \<lparr>addr_dest = None, addr_port = localPort s\<rparr>)"

definition RemoteAddr :: "('d, 'b) StreamConn \<Rightarrow> 'd net_addr" where
  "RemoteAddr s = I2P (Some \<lparr>addr_dest = conn_dest s, addr_port = remotePort s\<rparr>)"

definition l_Addr :: "StreamListener \<Rightarrow> 'd net_addr" where
  "l_Addr l = I2P (Some \<lparr>addr_dest = None, addr_port = l_localPort l\<rparr>)"

definition s_Profile :: "('d, 'b) StreamConn \<Rightarrow> StreamProfile" where
  "s_Profile s = conn_profile s"

definition RemoteProfile :: "('d, 'b) StreamConn \<Rightarrow> StreamProfile" where
  "RemoteProfile s = remoteProfile s"

definition GetInactivityTimeout :: "('d, 'b) StreamConn \<Rightarrow> duration" where
  "GetInactivityTimeout s = inactivityTimeout s"

definition getNegotiatedMTU :: "('d, 'b) StreamConn \<Rightarrow> u16" where
  "getNegotiatedMTU s =
     (if remoteMTU s = 0 then localMTU s
      else if localMTU s < remoteMTU s then localMTU s
      else remoteMTU s)"

section \<open>Accessors of the manager\<close>

definition sm_Destination :: "('d, 'c, 'k, 'b) env \<Rightarrow> ('d, 'b) StreamManager \<Rightarrow> 'd option result" where
  "sm_Destination env sm = (if sm_hasSession sm then Ok (ses_Destination (e_session env)) else Panic)"

definition Session :: "('d, 'c, 'k, 'b) env \<Rightarrow> ('d, 'b) StreamManager \<Rightarrow> ('d, 'k) session option" where
  "Session env sm = (if sm_hasSession sm then Some (e_session env) else None)"

definition MessageTracker :: "('d, 'b) StreamManager \<Rightarrow> messageStatusTracker" where
  "MessageTracker sm = w_msgTracker (sm_world sm)"

definition ConnectionLimiter :: "('d, 'b) StreamManager \<Rightarrow> connectionLimiter" where
  "ConnectionLimiter sm = w_limiter (sm_world sm)"

definition TCBCache :: "('d, 'b) StreamManager \<Rightarrow> tcbCache" where
  "TCBCache sm = w_tcbCache (sm_world sm)"

definition GetStreamProfile :: "('d, 'b) StreamManager \<Rightarrow> StreamProfile" where
  "GetStreamProfile sm = cfgProfile (profileConfig sm)"

definition SetStreamProfile :: "StreamProfile \<Rightarrow> ('d, 'b) StreamManager \<Rightarrow> ('d, 'b) StreamManager" where
  "SetStreamProfile profile sm = sm\<lparr>profileConfig := (profileConfig sm)\<lparr>cfgProfile := profile\<rparr>\<rparr>"

section \<open>Printed texts\<close>

definition profile_String :: "StreamProfile \<Rightarrow> string" where
  "profile_String p =
     (if p = ProfileBulk then ''bulk''
      else if p = ProfileInteractive then ''interactive''
      else ''unknown('' @ fmt_d p @ '')'')"

text \<open>What the two error types of the package answer; \<open>None\<close> for the errors that \<^verbatim>\<open>fmt\<close> makes.\<close>

fun error_String :: "goerror \<Rightarrow> string option" where
  "error_String TimeoutError = Some ''i/o timeout''"
| "error_String (AccessDeniedError reason) = Some (''access denied: '' @ reason)"
| "error_String _ = None"

text \<open>Which errors are a \<^verbatim>\<open>net.Error\<close>, and what they answer to \<^verbatim>\<open>Timeout\<close> and \<^verbatim>\<open>Temporary\<close>.\<close>

fun net_error :: "goerror \<Rightarrow> (bool \<times> bool) option" where
  "net_error TimeoutError = Some (True, True)"
| "net_error _ = None"

section \<open>The peer of an accepted connection\<close>

text \<open>
  An unset \<^verbatim>\<open>remoteMTU\<close> is the only case in which a connection does not use the smaller of both MTUs; the exported
  copy of the computation agrees with the one that \<^verbatim>\<open>Write\<close> uses.
\<close>

lemma getNegotiatedMTU_eq: "getNegotiatedMTU = getNegotiatedMTULocked"
  by (rule ext) (simp add: getNegotiatedMTU_def getNegotiatedMTULocked_def)

lemma PeerDestination_iff:
  "PeerDestination addr = (Some d, True) \<longleftrightarrow> (\<exists>port. addr = I2P (Some \<lparr>addr_dest = Some d, addr_port = port\<rparr>))"
proof
  assume p: "PeerDestination addr = (Some d, True)"
  then obtain a where a: "addr = I2P (Some a)" "addr_dest a = Some d"
    by (auto simp: PeerDestination_def split: net_addr.splits option.splits if_splits)
  then show "\<exists>port. addr = I2P (Some \<lparr>addr_dest = Some d, addr_port = port\<rparr>)"
    by (intro exI [of _ "addr_port a"]) simp
qed (auto simp: PeerDestination_def)

lemma PeerDestinationBase64_eq: "PeerDestinationBase64 b64 (I2P p) = (addr_Base64 b64 p, addr_Destination p \<noteq> None)"
  by (auto simp: PeerDestinationBase64_def PeerDestination_def addr_Base64_def addr_Destination_def split: option.splits)

lemma profile_String_eq_iff: "profile_String p = profile_String q \<longleftrightarrow> p = q"
  by (auto simp: profile_String_def)

text \<open>
  C14. Whom an accepted connection talks to: when a listener has created a connection for a \<^verbatim>\<open>SYN\<close>, the address that
  \<^verbatim>\<open>RemoteAddr\<close> reports carries the destination named in the packet, or the I2CP source when the packet names
  none, and the port the packet came from; the \<^verbatim>\<open>SYN-ACK\<close> has been handed to I2CP for that destination and port;
  the local address is the listener's; and when the \<^verbatim>\<open>SYN\<close> was signed and named its sender, its signature verifies
  under the destination reported.
\<close>

theorem accepted_peer_address:
  assumes "handleIncomingSYN env afs cid prof syn rport rd rs l w = Some (Ok (None, l', Some s, w'), rs')"
  shows "\<exists>d m. RemoteAddr s = I2P (Some \<lparr>addr_dest = Some d, addr_port = rport\<rparr>) \<and> LocalAddr s = (l_Addr l :: 'd net_addr) \<and>
     PeerDestination (RemoteAddr s) = (Some (d :: 'd), True) \<and>
     (if hasFlag syn FlagFromIncluded \<and> FromDestination syn \<noteq> None then FromDestination syn else rd) = Some d \<and>
     w_wire w' = w_wire w @ [m] \<and> msg_dest m = Some d \<and> msg_localPort m = l_localPort l \<and> msg_remotePort m = rport \<and>
     (hasFlag syn FlagSignatureIncluded \<and> hasFlag syn FlagFromIncluded \<longrightarrow>
        VerifySignature (e_lib env) d (signed_bytes (e_lib env) syn) (Signature syn))"
proof -
  obtain d w2 isn sid buf s0 w3 where ok: "validateIncomingSYN env syn rd = None" and src: "validateSYNSource syn rd = Inr d"
    and w2: "w_wire w2 = w_wire w" and init: "initConnectionState env cid prof l syn rport d isn sid buf w2 = (s0, w3)"
    and fin: "finalizeIncomingConnection env l rport (s0, w3) = Ok (None, l', s, w')"
    by (rule handleIncomingSYN_stages [OF assms]) blast
  have s0: "conn_dest s0 = Some d" "localPort s0 = l_localPort l" "remotePort s0 = rport" "w_wire w3 = w_wire w"
    using applyCachedTCB_frame [OF init [unfolded initConnectionState_def Let_def]] w2 by simp_all
  obtain m where "w_wire w' = w_wire w @ [m]" "msg_dest m = Some d" "msg_localPort m = l_localPort l" "msg_remotePort m = rport"
    using finalize_to(1) [OF fin] s0 by auto
  moreover have s: "conn_dest s = Some d" "localPort s = l_localPort l" "remotePort s = rport"
    using finalize_to(2) [OF fin] s0 by simp_all
  moreover have d: "(if hasFlag syn FlagFromIncluded \<and> FromDestination syn \<noteq> None then FromDestination syn else rd) = Some d"
    using src by (auto simp: validateSYNSource_def hasFlag_def Let_def split: option.splits if_splits)
  moreover have "hasFlag syn FlagSignatureIncluded \<Longrightarrow> VerifyPacketSignature (e_lib env) syn = Ok ()"
    using ok by (cases "VerifyPacketSignature (e_lib env) syn")
      (auto simp: validateIncomingSYN_def verifySYNSignature_def hasFlag_def split: sum.splits option.splits if_splits)
  then have "hasFlag syn FlagSignatureIncluded \<and> hasFlag syn FlagFromIncluded \<longrightarrow>
      VerifySignature (e_lib env) d (signed_bytes (e_lib env) syn) (Signature syn)"
    using d by (auto simp: VerifyPacketSignature_iff)
  ultimately show ?thesis
    by (intro exI [of _ d] exI [of _ m]) (simp add: RemoteAddr_def LocalAddr_def l_Addr_def PeerDestination_def)
qed

theorem accepted_peer_address_witness:
  "\<exists>syn s l' w' m. handleIncomingSYN demo_env (\<lambda>_. newAccessFilter None) 2 1 syn 80 (Some 9) [Inr 700, Inr 44] demo_listener demo_world =
     Some (Ok (None, l', Some s, w'), []) \<and> hasFlag syn FlagSignatureIncluded \<and>
     PeerDestination (RemoteAddr s) = (Some 9, True) \<and> w_wire w' = [m] \<and> msg_dest m = Some 9 \<and> msg_remotePort m = 80"
proof -
  obtain w1 m1 syn where syn: "syn = (buildSYNPacket demo_env demo_client [0x09000000, 0, 0, 0, 0, 0, 0, 0])\<lparr>Signature := Signature syn\<rparr>"
    "VerifyPacketSignature byte_lib syn = Ok ()"
    by (rule demo_SYN) blast
  obtain l' s w' where sv: "handleIncomingSYN demo_env (\<lambda>_. newAccessFilter None) 2 1 syn 80 (Some 9) [Inr 700, Inr 44] demo_listener demo_world =
      Some (Ok (None, l', Some s, w'), [])" by (rule demo_server [OF syn])
  have "FromDestination syn = Some 9" by (subst syn(1)) (simp add: buildSYNPacket_def demo_session_def Let_def)
  moreover have "hasFlag syn FlagSignatureIncluded" using syn(2) by (simp add: VerifyPacketSignature_iff)
  moreover have "w_wire demo_world = []" by (simp add: demo_world_def)
  ultimately obtain m where "w_wire w' = [m]" "msg_dest m = Some 9" "msg_remotePort m = 80" "PeerDestination (RemoteAddr s) = (Some 9, True)"
    "hasFlag syn FlagSignatureIncluded"
    using accepted_peer_address [OF sv] by (auto split: if_splits)
  with sv show ?thesis by blast
qed

text \<open>
  The text of an address gives its port and whether it has a destination, and nothing else: two addresses print
  alike exactly when their ports agree and both or neither have a destination, so the peers of a port cannot be told
  apart by the \<^verbatim>\<open>String\<close> of their addresses.
\<close>

theorem addr_String_eq_iff:
  "addr_String (Some a) = addr_String (Some b) \<longleftrightarrow>
     addr_port a = addr_port b \<and> (addr_dest a = None \<longleftrightarrow> addr_dest b = None)"
  by (auto simp: addr_String_def word_uint_eq_iff)

end
