(* ===== verification/Manager_Props.thy ===== *)
theory Manager_Props
  imports Manager
begin

text \<open>
  Properties of the stream manager: its invariant over all histories, the isolation of connections from one another, what
  \<^verbatim>\<open>Close\<close> leaves behind, and what a second peer with the same port does to the first.
\<close>

section \<open>Closing everything\<close>

lemma closeListenerAt_listeners:
  assumes "mgr_inv sm"
  shows "listeners (closeListenerAt port sm) = AList.delete port (listeners sm)"
proof (cases "map_of (listeners sm) port")
  case None
  then have "AList.delete port (listeners sm) = listeners sm" by (simp add: map_of_eq_None_iff AList.delete_idem)
  with None show ?thesis by (simp add: closeListenerAt_def)
next
  case (Some r)
  obtain l where "map_of (listenerObjs sm) r = Some l" "l_localPort l = port" "\<not> l_closed l" "l_hasManager l"
    by (rule mgr_inv_listener [OF assms Some])
  then show ?thesis by (simp add: closeListenerAt_def Some closeListener_def l_Close_def)
qed

lemma closeListeners_empty:
  "mgr_inv sm \<Longrightarrow> fst ` set (listeners sm) \<subseteq> set ps \<Longrightarrow> listeners (fold closeListenerAt ps sm) = []"
proof (induction ps arbitrary: sm)
  case (Cons p ps)
  have "mgr_inv (closeListenerAt p sm)" using closeListeners_inv [of sm "[p]"] Cons.prems(1) by simp
  moreover have "fst ` set (listeners (closeListenerAt p sm)) \<subseteq> set ps"
    using Cons.prems by (auto simp: closeListenerAt_listeners AList.delete_eq)
  ultimately show ?case using Cons.IH by simp
qed simp

definition listener_closed :: "('d, 'b) StreamManager \<Rightarrow> nat \<Rightarrow> bool" where
  "listener_closed sm r \<longleftrightarrow> (case map_of (listenerObjs sm) r of None \<Rightarrow> False | Some l \<Rightarrow> l_closed l)"

definition conn_is_closed :: "('d, 'b) StreamManager \<Rightarrow> conn_id \<Rightarrow> bool" where
  "conn_is_closed sm c \<longleftrightarrow> (case map_of (connObjs sm) c of None \<Rightarrow> False | Some s \<Rightarrow> conn_closed s)"

lemma closeListener_closed:
  "listener_closed sm r' \<Longrightarrow> listener_closed (closeListener r sm) r'"
  "map_of (listenerObjs sm) r = Some l \<Longrightarrow> listener_closed (closeListener r sm) r"
  by (auto simp: listener_closed_def closeListener_def l_Close_def update_conv' split: option.splits if_splits)

lemma closeListeners_closed:
  assumes "mgr_inv sm" and "map_of (listeners sm) port = Some r" and "port \<in> set ps"
  shows "listener_closed (fold closeListenerAt ps sm) r"
  using assms
proof (induction ps arbitrary: sm)
  case (Cons p ps)
  have inv: "mgr_inv (closeListenerAt p sm)" using closeListeners_inv [of sm "[p]"] Cons.prems(1) by simp
  have mono: "listener_closed sm' r \<Longrightarrow> listener_closed (fold closeListenerAt qs sm') r" for qs and sm' :: "('a, 'b) StreamManager"
    by (induction qs arbitrary: sm') (auto simp: closeListenerAt_def closeListener_closed split: option.split)
  show ?case
  proof (cases "port = p")
    case True
    obtain l where "map_of (listenerObjs sm) r = Some l" by (rule mgr_inv_listener [OF Cons.prems(1,2)])
    then have "listener_closed (closeListenerAt p sm) r" using Cons.prems(2) True by (simp add: closeListenerAt_def closeListener_closed)
    then show ?thesis using mono by simp
  next
    case False
    then have "map_of (listeners (closeListenerAt p sm)) port = Some r"
      using Cons.prems by (simp add: closeListenerAt_listeners delete_conv')
    then show ?thesis using Cons.IH inv Cons.prems(3) False by simp
  qed
qed simp

lemma closeListeners_keeps:
  "sm_world (fold closeListenerAt ps sm) = sm_world sm" "connObjs (fold closeListenerAt ps sm) = connObjs sm"
  by (induction ps arbitrary: sm)
    (simp_all add: closeListenerAt_def closeListener_def Let_def split_beta split: option.split)

lemma Close_routes:
  assumes "hasManager s"
  shows "w_connections (snd (conn_Close env (s, w))) =
    (if conn_closed s then w_connections w else AList.delete (localPort s, remotePort s) (w_connections w))"
proof -
  obtain s1 w1 where sd: "sendCloseIfEstablished env (s, w) = (s1, w1)" by fastforce
  have "ident (sendCloseIfEstablished env (s, w)) = ident (s, w)" by (simp add: sendCloseIfEstablished_def Let_def split_beta)
  with assms have "hasManager s1" "localPort s1 = localPort s" "remotePort s1 = remotePort s" "w_connections w1 = w_connections w"
    by (simp_all add: sd ident_def)
  then show ?thesis by (simp add: conn_Close_def sd cleanupConnectionLocked_def UnregisterConnection_def Let_def)
qed

lemma closeRoute_effect:
  assumes "mgr_inv sm"
  shows "map_of (w_connections (sm_world (closeRoute env k sm))) k' =
      (if k' = k \<and> (\<forall>c. map_of (w_connections (sm_world sm)) k = Some c \<longrightarrow> \<not> conn_is_closed sm c) then None
       else map_of (w_connections (sm_world sm)) k')" (is ?routes)
    and "map_of (w_connections (sm_world sm)) k = Some c \<Longrightarrow> conn_is_closed (closeRoute env k sm) c"
    and "conn_is_closed sm c \<Longrightarrow> conn_is_closed (closeRoute env k sm) c"
    and "map_of (w_connections (sm_world sm)) k \<noteq> Some c \<Longrightarrow> conn_is_closed (closeRoute env k sm) c = conn_is_closed sm c"
proof -
  have "?routes \<and> (map_of (w_connections (sm_world sm)) k = Some c \<longrightarrow> conn_is_closed (closeRoute env k sm) c) \<and>
      (conn_is_closed sm c \<longrightarrow> conn_is_closed (closeRoute env k sm) c) \<and>
      (map_of (w_connections (sm_world sm)) k \<noteq> Some c \<longrightarrow> conn_is_closed (closeRoute env k sm) c = conn_is_closed sm c)"
  proof (cases "map_of (w_connections (sm_world sm)) k")
    case None
    then show ?thesis by (auto simp: closeRoute_def)
  next
    case (Some d)
    obtain s where s: "map_of (connObjs sm) d = Some s" "(localPort s, remotePort s) = k" "hasManager s"
      by (rule mgr_inv_route [OF assms Some])
    obtain s' w' where cl: "conn_Close env (s, sm_world sm) = (s', w')" by fastforce
    have c: "closeRoute env k sm = sm\<lparr>connObjs := AList.update d s' (connObjs sm), sm_world := w'\<rparr>"
      using Some s(1) cl by (simp add: closeRoute_def on_conn_def)
    have "conn_closed s'" using Close_closes [of env "(s, sm_world sm)"] by (simp add: cl)
    moreover have "w_connections w' = (if conn_closed s then w_connections (sm_world sm) else AList.delete k (w_connections (sm_world sm)))"
      using cl s(2,3) Close_routes [of s env "sm_world sm"] by simp
    ultimately show ?thesis using Some s(1) by (auto simp: c conn_is_closed_def update_conv' delete_conv' split: option.splits)
  qed
  then show ?routes "map_of (w_connections (sm_world sm)) k = Some c \<Longrightarrow> conn_is_closed (closeRoute env k sm) c"
    "conn_is_closed sm c \<Longrightarrow> conn_is_closed (closeRoute env k sm) c"
    "map_of (w_connections (sm_world sm)) k \<noteq> Some c \<Longrightarrow> conn_is_closed (closeRoute env k sm) c = conn_is_closed sm c" by simp_all
qed

lemma closeRoutes_keeps:
  "listeners (fold (closeRoute env) ks sm) = listeners sm" "listenerObjs (fold (closeRoute env) ks sm) = listenerObjs sm"
  by (induction ks arbitrary: sm) (simp_all add: closeRoute_def closing.on_conn_keeps split: option.split)

lemma close_flags:
  "sm_closed (fold closeListenerAt ps sm) = sm_closed sm" "processorRunning (fold closeListenerAt ps sm) = processorRunning sm"
  "sm_closed (fold (closeRoute env) ks sm) = sm_closed sm" "processorRunning (fold (closeRoute env) ks sm) = processorRunning sm"
proof -
  show "sm_closed (fold closeListenerAt ps sm) = sm_closed sm" "processorRunning (fold closeListenerAt ps sm) = processorRunning sm"
    by (induction ps arbitrary: sm) (simp_all add: closeListenerAt_def closeListener_def Let_def split_beta split: option.split)
  show "sm_closed (fold (closeRoute env) ks sm) = sm_closed sm" "processorRunning (fold (closeRoute env) ks sm) = processorRunning sm"
    by (induction ks arbitrary: sm) (simp_all add: closeRoute_def on_conn_def Let_def split_beta split: option.split)
qed

lemma closeRoutes_still: "mgr_inv sm \<Longrightarrow> conn_is_closed sm c \<Longrightarrow> conn_is_closed (fold (closeRoute env) ks sm) c"
  by (induction ks arbitrary: sm) (simp_all add: closeRoute_inv closeRoute_effect(3))

lemma closeRoutes_closed:
  "mgr_inv sm \<Longrightarrow> map_of (w_connections (sm_world sm)) k = Some c \<Longrightarrow> k \<in> set ks \<Longrightarrow> conn_is_closed (fold (closeRoute env) ks sm) c"
proof (induction ks arbitrary: sm)
  case (Cons q ks)
  have inv: "mgr_inv (closeRoute env q sm)" using Cons.prems by (simp add: closeRoute_inv)
  show ?case
  proof (cases "k = q")
    case True
    have "conn_is_closed (closeRoute env q sm) c" using Cons.prems True by (intro closeRoute_effect(2)) simp_all
    then show ?thesis using closeRoutes_still [OF inv] by simp
  next
    case False
    then show ?thesis using Cons.IH [OF inv] Cons.prems closeRoute_effect(1) [OF Cons.prems(1), of env q k] by simp
  qed
qed simp

lemma closeRoutes_left:
  "mgr_inv sm \<Longrightarrow> map_of (w_connections (sm_world (fold (closeRoute env) ks sm))) k = Some c \<Longrightarrow>
    map_of (w_connections (sm_world sm)) k = Some c \<and> (k \<in> set ks \<longrightarrow> conn_is_closed sm c)"
proof (induction ks arbitrary: sm)
  case (Cons q ks)
  have inv: "mgr_inv (closeRoute env q sm)" using Cons.prems by (simp add: closeRoute_inv)
  have q: "map_of (w_connections (sm_world (closeRoute env q sm))) k = Some c" "k \<in> set ks \<longrightarrow> conn_is_closed (closeRoute env q sm) c"
    using Cons.IH [OF inv] Cons.prems(2) by auto
  then have r: "map_of (w_connections (sm_world sm)) k = Some c" "k = q \<longrightarrow> conn_is_closed sm c"
    using closeRoute_effect(1) [OF Cons.prems(1), of env q k] by (auto split: if_splits)
  have "map_of (w_connections (sm_world sm)) q \<noteq> Some c \<or> k = q"
    using mgr_inv_route [OF Cons.prems(1) r(1)] mgr_inv_route [OF Cons.prems(1), of q c] by (metis option.inject)
  with q(2) r closeRoute_effect(4) [OF Cons.prems(1), of q c env] show ?case by auto
qed simp

text \<open>What a \<^verbatim>\<open>SYN\<close> that reaches a listener changes.\<close>

lemma syn_effect:
  assumes "mgr_inv sm" and "handleSynPacket env rs pkt inc sm = Some (Ok sm', rs')" and "map_of (listeners sm) (in_destPort inc) = Some r"
  obtains (refused) "connObjs sm' = connObjs sm" and "nextId sm' = nextId sm" and "map_of (listenerObjs sm') = map_of (listenerObjs sm)"
      and "listeners sm' = listeners sm" and "w_connections (sm_world sm') = w_connections (sm_world sm)"
  | (created) s l' where "map_of (connObjs sm) (nextId sm) = None" and "connObjs sm' = AList.update (nextId sm) s (connObjs sm)" and "nextId sm' = nextId sm + 1"
      and "listenerObjs sm' = AList.update r l' (listenerObjs sm)" and "listeners sm' = listeners sm"
      and "\<forall>k. k \<noteq> (in_destPort inc, in_srcPort inc) \<longrightarrow>
        map_of (w_connections (sm_world sm')) k = map_of (w_connections (sm_world sm)) k"
      and "map_of (w_connections (sm_world sm')) (in_destPort inc, in_srcPort inc) \<in> {None, Some (nextId sm)}"
proof -
  obtain l where l: "map_of (listenerObjs sm) r = Some l" "l_localPort l = in_destPort inc" "l_hasManager l"
    by (rule mgr_inv_listener [OF assms(1,3)])
  obtain err l' c w where h: "handleIncomingSYN env (filter_at sm) (nextId sm) (cfgProfile (profileConfig sm)) pkt (in_srcPort inc)
      (in_srcDest inc) rs l (sm_world sm) = Some (Ok (err, l', c, w), rs')"
    and sm': "sm' = (let sm = sm\<lparr>listenerObjs := AList.update r l' (listenerObjs sm), sm_world := w\<rparr> in case c of None \<Rightarrow> sm
      | Some s \<Rightarrow> sm\<lparr>connObjs := AList.update (nextId sm) s (connObjs sm), nextId := nextId sm + 1\<rparr>)"
    using assms(2,3) l(1) by (auto simp: handleSynPacket_def Let_def split: option.splits prod.splits result.splits)
  show thesis
  proof (cases c)
    case None
    note q = handleIncomingSYN_refused [OF h [unfolded None]]
    have "map_of (AList.update r l (listenerObjs sm)) = map_of (listenerObjs sm)" using l(1) by (auto simp: update_conv')
    then show thesis using q by (intro refused) (simp_all add: sm' None)
  next
    case (Some s)
    note q = handleIncomingSYN_routes [OF h [unfolded Some] l(3)]
    have "map_of (connObjs sm) (nextId sm) = None"
      using assms(1) by (cases "map_of (connObjs sm) (nextId sm)") (auto simp: mgr_inv_def routes_ok_def)
    then show thesis using q(3) l(2) by (intro created [of s l']) (simp_all add: sm' Some)
  qed
qed

lemma syn_frame:
  assumes "mgr_inv sm" and "handleSynPacket env rs pkt inc sm = Some (Ok sm', rs')"
  shows "(map_of (connObjs sm) c = Some s \<longrightarrow> map_of (connObjs sm') c = Some s) \<and>
    (map_of (listenerObjs sm) r = Some l \<longrightarrow> map_of (listenerObjs sm') r = Some l \<or> map_of (listeners sm) (in_destPort inc) = Some r) \<and>
    (k \<noteq> (in_destPort inc, in_srcPort inc) \<longrightarrow> map_of (w_connections (sm_world sm')) k = map_of (w_connections (sm_world sm)) k) \<and>
    listeners sm' = listeners sm"
proof (cases "map_of (listeners sm) (in_destPort inc)")
  case None
  then show ?thesis using assms(2)
    by (auto simp: handleSynPacket_def sm_sendResetPacket_def reset_quiet split: option.split)
next
  case (Some r')
  from assms(1,2) Some show ?thesis by (rule syn_effect; cases k) (auto simp: update_conv' Some)
qed

lemma dispatch_frame:
  assumes "mgr_inv sm" and "dispatchPacket env pick rs inc sm = Some (Ok sm', rs')"
  shows "map_of (connObjs sm) c = Some s \<Longrightarrow>
       map_of (connObjs sm') c = Some s \<or>
       map_of (w_connections (sm_world sm)) (in_destPort inc, in_srcPort inc) = Some c \<and>
       (\<exists>pkt. Unmarshal (e_lib env) emptyPacket (in_payload inc) = Ok pkt \<and>
          map_of (connObjs sm') c = Some (s\<lparr>recvChan := recvChan s @ [pkt]\<rparr>))"
    and "map_of (listenerObjs sm) r = Some l \<Longrightarrow> map_of (listenerObjs sm') r = Some l \<or> map_of (listeners sm) (in_destPort inc) = Some r"
    and "k \<noteq> (in_destPort inc, in_srcPort inc) \<Longrightarrow> map_of (w_connections (sm_world sm')) k = map_of (w_connections (sm_world sm)) k"
    and "listeners sm' = listeners sm"
proof -
  let ?P = "\<lambda>sm'. (map_of (connObjs sm) c = Some s \<longrightarrow> map_of (connObjs sm') c = Some s \<or>
       map_of (w_connections (sm_world sm)) (in_destPort inc, in_srcPort inc) = Some c \<and>
       (\<exists>pkt. Unmarshal (e_lib env) emptyPacket (in_payload inc) = Ok pkt \<and>
          map_of (connObjs sm') c = Some (s\<lparr>recvChan := recvChan s @ [pkt]\<rparr>))) \<and>
    (map_of (listenerObjs sm) r = Some l \<longrightarrow> map_of (listenerObjs sm') r = Some l \<or> map_of (listeners sm) (in_destPort inc) = Some r) \<and>
    (k \<noteq> (in_destPort inc, in_srcPort inc) \<longrightarrow> map_of (w_connections (sm_world sm')) k = map_of (w_connections (sm_world sm)) k) \<and>
    listeners sm' = listeners sm"
  have reset: "?P (sm_sendResetPacket env d q lp rp sm)" for d q lp rp
    by (simp add: sm_sendResetPacket_def reset_quiet split: option.split)
  have "?P sm'"
  proof (cases "Unmarshal (e_lib env) emptyPacket (in_payload inc)")
    case (Ok pkt)
    obtain pm w where e: "handleEchoPacket env pkt (in_srcDest inc) (in_srcPort inc) (in_destPort inc) (pingMgr sm, sm_world sm) = (pm, w)"
      by fastforce
    have "w_connections w = w_connections (sm_world sm)"
      using echo_routes [of env pkt "in_srcDest inc" "in_srcPort inc" "in_destPort inc" "pingMgr sm" "sm_world sm"] by (simp add: e)
    then have echo: "?P (sm\<lparr>pingMgr := pm, sm_world := w\<rparr>)" by simp
    have route: "?P (routeToConnection env pick pkt inc sm)"
    proof (cases "map_of (w_connections (sm_world sm)) (in_destPort inc, in_srcPort inc)")
      case (Some d)
      then show ?thesis using Ok
        by (auto simp: routeToConnection_def on_conn_def handleIncomingPacket_def update_conv' split: option.split)
    next
      case None
      then have "routeToConnection env pick pkt inc sm =
        sm_sendResetPacket env (in_srcDest inc) (SendStreamID pkt) (in_destPort inc) (in_srcPort inc) sm"
        by (simp add: routeToConnection_def)
      then show ?thesis using reset by metis
    qed
    consider "sm' = sm\<lparr>pingMgr := pm, sm_world := w\<rparr>" | "handleSynPacket env rs pkt inc sm = Some (Ok sm', rs')"
      | "sm' = routeToConnection env pick pkt inc sm"
      using assms(2) Ok e by (auto simp: dispatchPacket_def unmarshalIncomingPacket_def split: if_splits)
    then show ?thesis
    proof cases
      case 2
      then show ?thesis using syn_frame [OF assms(1) 2, of c s r l k] by simp
    next
      case 1
      show ?thesis unfolding 1 by (rule echo)
    next
      case 3
      show ?thesis unfolding 3 by (rule route)
    qed
  qed (use assms in \<open>auto simp: dispatchPacket_def unmarshalIncomingPacket_def\<close>)
  then show "map_of (connObjs sm) c = Some s \<Longrightarrow>
       map_of (connObjs sm') c = Some s \<or>
       map_of (w_connections (sm_world sm)) (in_destPort inc, in_srcPort inc) = Some c \<and>
       (\<exists>pkt. Unmarshal (e_lib env) emptyPacket (in_payload inc) = Ok pkt \<and>
          map_of (connObjs sm') c = Some (s\<lparr>recvChan := recvChan s @ [pkt]\<rparr>))"
    "map_of (listenerObjs sm) r = Some l \<Longrightarrow> map_of (listenerObjs sm') r = Some l \<or> map_of (listeners sm) (in_destPort inc) = Some r"
    "k \<noteq> (in_destPort inc, in_srcPort inc) \<Longrightarrow> map_of (w_connections (sm_world sm')) k = map_of (w_connections (sm_world sm)) k"
    "listeners sm' = listeners sm" by blast+
qed

section \<open>A concrete history\<close>

fun sm_run ::
  "('d, 'c, 'k, 'b) env \<Rightarrow> status_lib \<Rightarrow> 'd manager_op list \<Rightarrow> ('d, 'b) StreamManager \<Rightarrow> ('d, 'b) StreamManager option" where
  "sm_run env slib [] sm = Some sm"
| "sm_run env slib (oper # opers) sm = (case sm_do env slib oper sm of None \<Rightarrow> None | Some sm' \<Rightarrow> sm_run env slib opers sm')"

lemma map_result_eq_Ok: "map_result f r = Ok y \<longleftrightarrow> (\<exists>x. r = Ok x \<and> f x = y)"
  by (cases r) auto

lemma sm_run_reach:
  assumes "sm_run env slib opers sm = Some sm'" and "sm_reach env slib start sm"
  shows "sm_reach env slib start sm'"
  using assms by (induction opers arbitrary: sm) (auto intro: sm_step split: option.splits)

text \<open>An unsigned \<^verbatim>\<open>SYN\<close> from port 80 to port 4000, and a data packet between the same ports, as bytes.\<close>

definition demo_plain_syn :: "byte Packet" where
  "demo_plain_syn = emptyPacket\<lparr>RecvStreamID := 7, SequenceNum := 100, Flags := FlagSYN\<rparr>"

definition demo_syn_bytes :: "byte list" where
  "demo_syn_bytes = [0, 0, 0, 0, 0, 0, 0, 7, 0, 0, 0, 100, 0, 0, 0, 0, 0, 0, 0, 1, 0, 0]"

definition demo_data_bytes :: "byte list" where
  "demo_data_bytes = [0, 0, 0, 44, 0, 0, 0, 7, 0, 0, 0, 101, 0, 0, 0, 0, 0, 0, 0, 0, 0, 0, 65]"

definition demo_manager :: "(byte, byte list \<times> int \<times> int) StreamManager" where
  "demo_manager = (newStreamManagerBase 0)\<lparr>sm_hasSession := True, processorRunning := True\<rparr>"

definition demo_history :: "byte manager_op list" where
  "demo_history = [ListenOn 4000 1730, Arrive (Some 9) 6 80 4000 demo_syn_bytes, Process True [Inr 700, Inr 44]]"

definition demo_message :: "byte list \<Rightarrow> byte incomingPacket" where
  "demo_message bytes = \<lparr>in_protocol = 6, in_srcDest = Some 5, in_srcPort = 80, in_destPort = 4000, in_payload = bytes\<rparr>"

lemma demo_reached:
  obtains sm where "NewStreamManager True 0 = Inr demo_manager" and "sm_run demo_env demo_status demo_history demo_manager = Some sm"
    and "sm_reach demo_env demo_status demo_manager sm" and "w_connections (sm_world sm) = [((4000, 80), 1)]" and "listeners sm = [(4000, 0)]"
    and "nextId sm = 2" and "\<not> sm_closed sm"
proof -
  have "map_option (\<lambda>sm. (nextId sm, w_connections (sm_world sm), listeners sm, sm_closed sm)) (sm_run demo_env demo_status demo_history demo_manager) =
    Some (2, [((4000, 80), 1)], [(4000, 0)], False)" by code_simp
  then obtain sm where sm: "sm_run demo_env demo_status demo_history demo_manager = Some sm" "w_connections (sm_world sm) = [((4000, 80), 1)]"
    "listeners sm = [(4000, 0)]" "nextId sm = 2" "\<not> sm_closed sm" by auto
  moreover have "NewStreamManager True 0 = Inr demo_manager" by (simp add: NewStreamManager_def demo_manager_def)
  ultimately show thesis using that sm_run_reach [OF sm(1) sm_start] by blast
qed

section \<open>Properties\<close>

lemma reach_inv:
  assumes "NewStreamManager client now = Inr start" and "sm_reach env slib start sm"
  shows "mgr_inv sm"
  using assms(2)
proof induction
  case sm_start
  show ?case using assms(1)
    by (auto simp: NewStreamManager_def newStreamManagerBase_def mgr_inv_def listeners_ok_def routes_ok_def split: if_splits)
qed (rule sm_do_inv)

lemma dispatch_panics:
  assumes "mgr_inv sm"
  shows "(\<exists>rs'. dispatchPacket env pick rs inc sm = Some (Panic, rs')) \<longleftrightarrow> Unmarshal (e_lib env) emptyPacket (in_payload inc) = Panic"
proof -
  have "handleSynPacket env rs pkt inc sm \<noteq> Some (Panic, rs')" for pkt rs'
  proof (cases "map_of (listeners sm) (in_destPort inc)")
    case (Some r)
    obtain l where "map_of (listenerObjs sm) r = Some l" "\<not> l_closed l" by (rule mgr_inv_listener [OF assms Some])
    then show ?thesis using Some
      by (auto simp: handleSynPacket_def Let_def dest: handleIncomingSYN_panics split: option.splits result.splits prod.splits)
  qed (simp add: handleSynPacket_def)
  then show ?thesis
    by (auto simp: dispatchPacket_def unmarshalIncomingPacket_def split_beta split: result.splits if_splits)
qed

lemma closed_listener_panics:
  assumes "handleIncomingSYN env afs cid prof syn rport rd rs l w = Some (Ok (None, l', Some s, w'), rs')"
  shows "handleIncomingSYN env afs cid prof syn rport rd rs (l\<lparr>l_closed := True\<rparr>) w = Some (Panic, rs')"
proof -
  let ?l = "l\<lparr>l_closed := True\<rparr>"
  have init: "initConnectionState env cid prof ?l = initConnectionState env cid prof l"
    by (simp add: fun_eq_iff initConnectionState_def)
  have limit: "handleLimitExceeded env cfg ?l = handleLimitExceeded env cfg l" for cfg by (simp add: fun_eq_iff handleLimitExceeded_def)
  have checks: "checkAccessFilter env afs ?l rd syn = checkAccessFilter env afs l rd syn"
    "checkConnectionLimits env ?l rd syn = checkConnectionLimits env l rd syn"
    "createIncomingConnection env cid prof ?l = createIncomingConnection env cid prof l"
    unfolding fun_eq_iff checkAccessFilter_def checkConnectionLimits_def createIncomingConnection_def init limit
    by (simp_all split: option.split)
  have fin: "finalizeIncomingConnection env ?l rport sw = Panic"
    if "finalizeIncomingConnection env l rport sw = Ok (None, l', s', w')" for sw s' w'
    using that by (cases "l_hasManager l"; cases sw)
      (auto simp: finalizeIncomingConnection_def queueConnectionForAccept_def Let_def split: prod.splits option.splits)
  show ?thesis
    using assms unfolding handleIncomingSYN_def checks
    by (auto simp: fin split: prod.splits option.splits sum.splits result.splits)
qed

text \<open>
  C10. In every state that a new manager reaches through messages, packet processing, delivery reports, listeners that are opened, closed and
  accepted from, dialling, any operation of any connection, session changes and \<^verbatim>\<open>Close\<close>, with \<^verbatim>\<open>RegisterListener\<close> and \<^verbatim>\<open>RegisterConnection\<close> called
  only by listening, dialling and accepting: the incoming queue stays within 100 packets, every registered listener is open and is the one of its port,
  every route leads to the connection with exactly those ports, and every queued connection exists and belongs to the port of its listener.  When no
  listener is closed while a packet is being dispatched, so that the dispatch is one step, the packet processor panics on a message exactly if \<^verbatim>\<open>Unmarshal\<close> does.
  A listener that is closed after the processor has looked it up makes it panic on every \<^verbatim>\<open>SYN\<close> that the open listener would have accepted.
\<close>

theorem manager_invariant:
  assumes "NewStreamManager client now = Inr start" and "sm_reach env slib start sm"
  shows "length (incomingPackets sm) \<le> 100 \<and>
    (\<forall>port r. map_of (listeners sm) port = Some r \<longrightarrow>
       (\<exists>l. map_of (listenerObjs sm) r = Some l \<and> l_localPort l = port \<and> \<not> l_closed l)) \<and>
    (\<forall>k c. map_of (w_connections (sm_world sm)) k = Some c \<longrightarrow>
       (\<exists>s. map_of (connObjs sm) c = Some s \<and> self s = c \<and> (localPort s, remotePort s) = k)) \<and>
    (\<forall>r l c. map_of (listenerObjs sm) r = Some l \<longrightarrow> c \<in> set (acceptChan l) \<longrightarrow>
       (\<exists>s. map_of (connObjs sm) c = Some s \<and> localPort s = l_localPort l)) \<and>
    (\<forall>pick rs inc. (\<exists>rs'. dispatchPacket env pick rs inc sm = Some (Panic, rs')) \<longleftrightarrow>
       Unmarshal (e_lib env) emptyPacket (in_payload inc) = Panic) \<and>
    (\<forall>afs cid prof syn rport rd rs l l' s w w' rs'.
       handleIncomingSYN env afs cid prof syn rport rd rs l w = Some (Ok (None, l', Some s, w'), rs') \<longrightarrow>
       handleIncomingSYN env afs cid prof syn rport rd rs (l\<lparr>l_closed := True\<rparr>) w = Some (Panic, rs'))"
proof -
  have inv: "mgr_inv sm" by (rule reach_inv [OF assms])
  show ?thesis
  proof (intro conjI)
    show "\<forall>pick rs inc. (\<exists>rs'. dispatchPacket env pick rs inc sm = Some (Panic, rs')) \<longleftrightarrow>
        Unmarshal (e_lib env) emptyPacket (in_payload inc) = Panic"
      using dispatch_panics [OF inv] by blast
    show "\<forall>afs cid prof syn rport rd rs l l' s w w' rs'.
        handleIncomingSYN env afs cid prof syn rport rd rs l w = Some (Ok (None, l', Some s, w'), rs') \<longrightarrow>
        handleIncomingSYN env afs cid prof syn rport rd rs (l\<lparr>l_closed := True\<rparr>) w = Some (Panic, rs')"
      by (intro allI impI) (rule closed_listener_panics)
  qed (use inv in \<open>unfold mgr_inv_def listeners_ok_def routes_ok_def incomingQueueSize_def, blast+\<close>)
qed

theorem manager_invariant_witness:
  "\<exists>sm s. sm_run demo_env demo_status demo_history demo_manager = Some sm \<and> map_of (connObjs sm) 1 = Some s \<and> self s = 1 \<and>
     (localPort s, remotePort s) = (4000, 80)"
proof -
  obtain sm where sm: "NewStreamManager True 0 = Inr demo_manager" "sm_run demo_env demo_status demo_history demo_manager = Some sm"
    "sm_reach demo_env demo_status demo_manager sm" "w_connections (sm_world sm) = [((4000, 80), 1)]" by (rule demo_reached)
  have "map_of (w_connections (sm_world sm)) (4000, 80) = Some 1" by (simp add: sm(4))
  with manager_invariant [OF sm(1,3), THEN conjunct2, THEN conjunct2, THEN conjunct1] sm(2) show ?thesis by blast
qed

text \<open>
  C11. Isolation: processing a message changes no connection except the one routed under its ports, which gets the packet appended to its
  queue, no listener except the one of its destination port, and no route except the one under its ports.
\<close>

theorem dispatch_isolated:
  assumes "NewStreamManager client now = Inr start" and "sm_reach env slib start sm"
    and "dispatchPacket env pick rs inc sm = Some (Ok sm', rs')"
  shows "(\<forall>c s. map_of (connObjs sm) c = Some s \<longrightarrow>
       map_of (connObjs sm') c = Some s \<or>
       map_of (w_connections (sm_world sm)) (in_destPort inc, in_srcPort inc) = Some c \<and>
       (\<exists>pkt. Unmarshal (e_lib env) emptyPacket (in_payload inc) = Ok pkt \<and>
          map_of (connObjs sm') c = Some (s\<lparr>recvChan := recvChan s @ [pkt]\<rparr>))) \<and>
    (\<forall>r l. map_of (listenerObjs sm) r = Some l \<longrightarrow>
       map_of (listenerObjs sm') r = Some l \<or> map_of (listeners sm) (in_destPort inc) = Some r) \<and>
    (\<forall>k. k \<noteq> (in_destPort inc, in_srcPort inc) \<longrightarrow>
       map_of (w_connections (sm_world sm')) k = map_of (w_connections (sm_world sm)) k) \<and>
    listeners sm' = listeners sm"
proof -
  have inv: "mgr_inv sm" by (rule reach_inv [OF assms(1,2)])
  show ?thesis using dispatch_frame [OF inv assms(3)] by blast
qed

theorem dispatch_isolated_witness:
  "\<exists>sm sm'. sm_run demo_env demo_status demo_history demo_manager = Some sm \<and>
     dispatchPacket demo_env True [] (demo_message demo_data_bytes) sm = Some (Ok sm', []) \<and>
     listeners sm' = [(4000, 0)] \<and> map_of (w_connections (sm_world sm')) (4000, 81) = None"
proof -
  obtain sm where sm: "NewStreamManager True 0 = Inr demo_manager" "sm_run demo_env demo_status demo_history demo_manager = Some sm"
    "sm_reach demo_env demo_status demo_manager sm" "w_connections (sm_world sm) = [((4000, 80), 1)]" "listeners sm = [(4000, 0)]" by (rule demo_reached)
  have "map_option (\<lambda>sm. map_option (\<lambda>(r, rs). (map_result nextId r, rs)) (dispatchPacket demo_env True [] (demo_message demo_data_bytes) sm))
    (sm_run demo_env demo_status demo_history demo_manager) = Some (Some (Ok 2, []))" by code_simp
  then obtain sm' where d: "dispatchPacket demo_env True [] (demo_message demo_data_bytes) sm = Some (Ok sm', [])"
    using sm(2) by (auto simp: map_result_eq_Ok)
  from dispatch_isolated [OF sm(1,3) d] have "listeners sm' = listeners sm"
    "map_of (w_connections (sm_world sm')) (4000, 81) = map_of (w_connections (sm_world sm)) (4000, 81)" by (simp_all add: demo_message_def)
  with sm d show ?thesis by (intro exI [of _ sm] exI [of _ sm']) simp
qed

text \<open>
  C29. \<^verbatim>\<open>Close\<close> of the manager: no listener stays registered and every registered one is closed, every
  connection that was routed is closed, the packet processor has stopped, and a second \<^verbatim>\<open>Close\<close> does nothing.  The
  only routes left are those of connections that their peers had closed.
\<close>

theorem manager_Close:
  assumes "NewStreamManager client now = Inr start" and "sm_reach env slib start sm" and "\<not> sm_closed sm"
    and "sm_Close env sm = sm'"
  shows "listeners sm' = [] \<and> \<not> processorRunning sm' \<and> sm_Close env sm' = sm' \<and>
    (\<forall>port r. map_of (listeners sm) port = Some r \<longrightarrow> (\<exists>l. map_of (listenerObjs sm') r = Some l \<and> l_closed l)) \<and>
    (\<forall>k c. map_of (w_connections (sm_world sm)) k = Some c \<longrightarrow> (\<exists>s. map_of (connObjs sm') c = Some s \<and> conn_closed s)) \<and>
    (\<forall>k c. map_of (w_connections (sm_world sm')) k = Some c \<longrightarrow>
       map_of (w_connections (sm_world sm)) k = Some c \<and> (\<exists>s. map_of (connObjs sm) c = Some s \<and> conn_closed s))"
proof -
  let ?sm = "sm\<lparr>sm_closed := True, processorRunning := False\<rparr>"
  let ?ps = "map fst (listeners sm)" and ?ks = "map fst (w_connections (sm_world sm))"
  have inv: "mgr_inv ?sm" using reach_inv [OF assms(1,2)] by simp
  define sm1 where "sm1 = fold closeListenerAt ?ps ?sm"
  have inv1: "mgr_inv sm1" using inv by (simp add: sm1_def closeListeners_inv)
  have w1: "sm_world sm1 = sm_world sm" "connObjs sm1 = connObjs sm" by (simp_all add: sm1_def closeListeners_keeps)
  have sm': "sm' = fold (closeRoute env) ?ks sm1"
    using assms(3,4) by (simp add: sm_Close_def closeAllConnections_def sm1_def closeListeners_keeps Let_def)
  have flags: "sm_closed sm' \<and> \<not> processorRunning sm'" by (simp add: sm' sm1_def close_flags)
  have "listeners sm' = []" using closeListeners_empty [OF inv, of ?ps] by (simp add: sm' closeRoutes_keeps sm1_def)
  moreover have "\<exists>l. map_of (listenerObjs sm') r = Some l \<and> l_closed l" if "map_of (listeners sm) port = Some r" for port r
  proof -
    have "port \<in> set ?ps" using that by (metis domI dom_map_of_conv_image_fst set_map)
    with closeListeners_closed [OF inv, of port r ?ps] that show ?thesis
      by (auto simp: sm' closeRoutes_keeps sm1_def listener_closed_def split: option.splits)
  qed
  moreover have key: "k \<in> set ?ks" if "map_of (w_connections (sm_world sm)) k = Some c" for k c
    using that by (metis domI dom_map_of_conv_image_fst set_map)
  moreover have "\<exists>s. map_of (connObjs sm') c = Some s \<and> conn_closed s" if "map_of (w_connections (sm_world sm)) k = Some c" for k c
    using closeRoutes_closed [OF inv1, of k c ?ks env] that key [OF that]
    by (auto simp: sm' w1 conn_is_closed_def split: option.splits)
  moreover have "map_of (w_connections (sm_world sm)) k = Some c \<and> (\<exists>s. map_of (connObjs sm) c = Some s \<and> conn_closed s)"
    if "map_of (w_connections (sm_world sm')) k = Some c" for k c
    using closeRoutes_left [OF inv1, of env ?ks k c] that key [of k c]
    by (auto simp: sm' w1 conn_is_closed_def split: option.splits)
  ultimately show ?thesis using flags by (simp add: sm_Close_def)
qed

theorem manager_Close_witness:
  "\<exists>sm s. sm_run demo_env demo_status demo_history demo_manager = Some sm \<and> listeners (sm_Close demo_env sm) = [] \<and>
     map_of (connObjs (sm_Close demo_env sm)) 1 = Some s \<and> conn_closed s"
proof -
  obtain sm where sm: "NewStreamManager True 0 = Inr demo_manager" "sm_run demo_env demo_status demo_history demo_manager = Some sm"
    "sm_reach demo_env demo_status demo_manager sm" "w_connections (sm_world sm) = [((4000, 80), 1)]" "\<not> sm_closed sm" by (rule demo_reached)
  have "map_of (w_connections (sm_world sm)) (4000, 80) = Some 1" by (simp add: sm(4))
  with manager_Close [OF sm(1,3,5) refl] sm(2) show ?thesis by blast
qed

text \<open>
  C30. Two peers that dial from the same port: when a \<^verbatim>\<open>SYN\<close> creates a connection although a route for its ports
  exists, whoever it leads to, that route is gone.  The old connection stays as it was, but packets of its
  peer now go to the new connection, or, when the accept queue is full, to none; and closing the old connection takes the
  route of the new one away.
\<close>

theorem SYN_takes_route:
  assumes "NewStreamManager client now = Inr start" and "sm_reach env slib start sm"
    and "map_of (w_connections (sm_world sm)) (in_destPort inc, in_srcPort inc) = Some c" and "map_of (connObjs sm) c = Some s"
    and "\<not> conn_closed s" and "handleSynPacket env rs pkt inc sm = Some (Ok sm', rs')" and "nextId sm' \<noteq> nextId sm"
  shows "map_of (connObjs sm') c = Some s \<and> c \<noteq> nextId sm \<and>
    map_of (w_connections (sm_world sm')) (in_destPort inc, in_srcPort inc) \<in> {None, Some (nextId sm)} \<and>
    map_of (w_connections (sm_world (on_conn (conn_Close env) c sm'))) (in_destPort inc, in_srcPort inc) = None"
proof -
  have inv: "mgr_inv sm" by (rule reach_inv [OF assms(1,2)])
  have sp: "(localPort s, remotePort s) = (in_destPort inc, in_srcPort inc)" "hasManager s"
    using mgr_inv_route [OF inv assms(3)] assms(4) by (metis option.inject)+
  obtain r where r: "map_of (listeners sm) (in_destPort inc) = Some r"
    using assms(6,7) by (cases "map_of (listeners sm) (in_destPort inc)")
      (auto simp: handleSynPacket_def sm_sendResetPacket_def split: option.splits)
  from inv assms(6) r show ?thesis
  proof (rule syn_effect)
    fix s2 l'
    assume fresh: "map_of (connObjs sm) (nextId sm) = None" and co: "connObjs sm' = AList.update (nextId sm) s2 (connObjs sm)"
      and rt: "map_of (w_connections (sm_world sm')) (in_destPort inc, in_srcPort inc) \<in> {None, Some (nextId sm)}"
    have ne: "c \<noteq> nextId sm" using fresh assms(4) by auto
    then have c': "map_of (connObjs sm') c = Some s" using assms(4) by (simp add: co update_conv')
    have "map_of (w_connections (sm_world (on_conn (conn_Close env) c sm'))) (in_destPort inc, in_srcPort inc) = None"
      using Close_routes [OF sp(2), of env "sm_world sm'"] sp(1) assms(5) c'
      by (cases "conn_Close env (s, sm_world sm')") (simp add: on_conn_def delete_conv')
    with ne c' rt show ?thesis by simp
  qed (use assms(7) in simp)
qed

theorem SYN_takes_route_witness:
  "\<exists>sm sm'. sm_run demo_env demo_status demo_history demo_manager = Some sm \<and>
     handleSynPacket demo_env [Inr 701, Inr 45] demo_plain_syn (demo_message demo_syn_bytes) sm = Some (Ok sm', []) \<and>
     map_of (w_connections (sm_world sm)) (4000, 80) = Some 1 \<and> map_of (w_connections (sm_world sm')) (4000, 80) \<noteq> Some 1 \<and>
     map_of (w_connections (sm_world (on_conn (conn_Close demo_env) 1 sm'))) (4000, 80) = None"
proof -
  obtain sm where sm: "NewStreamManager True 0 = Inr demo_manager" "sm_run demo_env demo_status demo_history demo_manager = Some sm"
    "sm_reach demo_env demo_status demo_manager sm" "w_connections (sm_world sm) = [((4000, 80), 1)]" "nextId sm = 2" by (rule demo_reached)
  have "map_option (\<lambda>sm. (map_option conn_closed (map_of (connObjs sm) 1), map_option (\<lambda>(r, rs). (map_result nextId r, rs))
      (handleSynPacket demo_env [Inr 701, Inr 45] demo_plain_syn (demo_message demo_syn_bytes) sm)))
    (sm_run demo_env demo_status demo_history demo_manager) = Some (Some False, Some (Ok 3, []))" by code_simp
  then obtain s sm' where s: "map_of (connObjs sm) 1 = Some s" "\<not> conn_closed s"
    and h: "handleSynPacket demo_env [Inr 701, Inr 45] demo_plain_syn (demo_message demo_syn_bytes) sm = Some (Ok sm', [])" "nextId sm' \<noteq> nextId sm"
    using sm(2,5) by (auto simp: map_result_eq_Ok)
  have k: "map_of (w_connections (sm_world sm)) (in_destPort (demo_message demo_syn_bytes), in_srcPort (demo_message demo_syn_bytes)) = Some 1"
    by (simp add: sm(4) demo_message_def)
  from SYN_takes_route [OF sm(1,3) k s h] have "map_of (w_connections (sm_world sm')) (4000, 80) \<noteq> Some 1"
    "map_of (w_connections (sm_world (on_conn (conn_Close demo_env) 1 sm'))) (4000, 80) = None" by (auto simp: demo_message_def sm(5))
  with sm h show ?thesis by (intro exI [of _ sm] exI [of _ sm']) simp
qed

text \<open>
  A listener keeps the access filter the manager had when it was opened: whatever \<^verbatim>\<open>SetAccessFilter\<close> installs later, the check of an
  already open listener has the same outcome as before.
\<close>

lemma SetAccessFilter_misses_listeners:
  assumes "map_of (listenerObjs sm) r = Some l" and "l_accessFilter l = Some a" and "a' \<noteq> a"
  shows "map_of (listenerObjs (SetAccessFilter a' config sm)) r = Some l"
    and "checkAccessFilter env (filter_at (SetAccessFilter a' config sm)) l d pkt w = checkAccessFilter env (filter_at sm) l d pkt w"
  using assms by (simp_all add: SetAccessFilter_def checkAccessFilter_def filter_at_def update_conv' Let_def)

text \<open>
  A lookup whose result arrives before \<^verbatim>\<open>LookupDestination\<close> has stored its entry is lost: the call goes on waiting.
\<close>

lemma early_lookup_lost:
  assumes "map_of (lookupResults sm) q = None"
  shows "LookupDestination r (Inr q)
      (\<lambda>sm. case handleDestinationResult q address (Some d) sm of Ok sm' \<Rightarrow> sm' | _ \<Rightarrow> sm) id None sm = None"
  using assms by (simp add: LookupDestination_def handleDestinationResult_def update_conv' Let_def)

end
