(* ===== verification/Dial_Props.thy ===== *)
theory Dial_Props
  imports Manager_Props
begin

text \<open>
  Dialling through the manager, from the call to the established connection: the start of the dial, the arrival of the answer, its way through
  the queue, the packet processor and the routing table to the new connection, and the round in which the dialling goroutine takes it.
\<close>

section \<open>The new connection\<close>

lemma createConnectionStruct_queue:
  assumes "createConnectionStruct env cid hasSession True prof dest lport rport mtu rs w = Some (Ok (s, w'), rs')"
  shows "recvChan s = []"
proof -
  obtain isn sid buf s0 where a: "applyCachedTCB env dest (initializeStreamConn cid True dest lport rport mtu isn sid buf (w_now w), w) = (s0, w')"
    and s: "s = s0\<lparr>conn_profile := prof\<rparr>"
    using assms by (auto simp: createConnectionStruct_def Let_def split: option.splits result.splits sum.splits prod.splits)
  show ?thesis using applyCachedTCB_frame [OF a] by (simp add: s initializeStreamConn_def)
qed

lemma dialStart_queue:
  assumes "dialStart env cid hasSession prof dest lport rport rs w = Some (Ok (None, s, w'))"
  shows "recvChan s = []" "conn_state s = StateSynSent"
proof -
  obtain s0 w0 rs0 where c: "createConnectionStruct env cid hasSession True prof dest lport rport DefaultMTU rs w = Some (Ok (s0, w0), rs0)"
    using assms by (auto simp: dialStart_def split: option.splits result.splits)
  obtain e s1 w1 where y: "sendSYN env (s0, RegisterConnection lport rport cid w0) = (e, s1, w1)" by (metis prod_cases3)
  have "recvChan s1 = recvChan s0" using y by (auto simp: sendSYN_def split: sum.splits prod.splits option.splits)
  moreover have "s = setState s1 StateSynSent" using assms c y by (cases e) (auto simp: dialStart_def)
  ultimately show "recvChan s = []" "conn_state s = StateSynSent"
    using createConnectionStruct_queue [OF c] by (simp_all add: setState_def)
qed

section \<open>The answer\<close>

lemma finalAck_marshals: "marshalable lib (finalAckPacket s)"
  by (simp add: marshalable_def hasFlag_def finalAckPacket_def emptyPacket_def)

lemma dialFinish_ok:
  assumes "AckThrough synAck = sendSeq s - 1" and "\<And>h m. ses_SendMessage (e_session env) h m = None"
  obtains c w' where "dialFinish env synAck (s, w) = (None, c, w')" and "conn_state c = StateEstablished"
    and "recvSeq c = SequenceNum synAck + 1" and "remoteStreamID c = SendStreamID synAck" and "kept (s, w) (c, w')"
proof -
  obtain s1 where p: "processSynAck synAck s = (None, s1)"
    and s1: "recvSeq s1 = SequenceNum synAck + 1" "remoteStreamID s1 = SendStreamID synAck"
    using assms(1) by (auto simp: processSynAck_def validateSynAckAckThrough_def extractRemoteMTUFromSynAck_def
        extractRemoteProfileFromSynAck_def Let_def)
  obtain w' where a: "sendACK env (s1, w) = (None, s1, w')"
    using assms(2) Marshal_marshalable [OF finalAck_marshals [of "e_lib env" s1]] by (simp add: sendACK_def SendMessage_def Let_def)
  have d: "dialFinish env synAck (s, w) = (None, setState s1 StateEstablished, w')" by (simp add: dialFinish_def p a)
  show thesis
    by (rule that [OF d]) (use kept_dialFinish [of "(s, w)" env synAck] d s1 in \<open>simp_all add: setState_def\<close>)
qed

lemma route_SynAck:
  assumes "map_of (w_connections (sm_world sm)) (lport, rport) = Some c" and "map_of (connObjs sm) c = Some s" and "\<not> ctxDone s"
    and "recvChan s = []" and "in_destPort inc = lport" and "in_srcPort inc = rport"
  shows "routeToConnection env pick pkt inc sm = sm\<lparr>connObjs := AList.update c (s\<lparr>recvChan := [pkt]\<rparr>) (connObjs sm)\<rparr>"
  using assms by (simp add: routeToConnection_def on_conn_def handleIncomingPacket_def recvChanSize_def)

section \<open>Property\<close>

text \<open>
  C12. A dial is completed by its answer: when a dial through a manager with an empty queue and a running packet processor has sent its \<^verbatim>\<open>SYN\<close>, I2CP takes every
  message, and a \<^verbatim>\<open>SYN-ACK\<close> for its ports that acknowledges the \<^verbatim>\<open>SYN\<close> arrives, the packet processor routes it to the new connection, and the dialling
  goroutine that takes it establishes the connection with the stream ID and the next sequence number of the peer, still routed under its ports.  Who sent the
  answer, and whether it is signed, makes no difference.
\<close>

theorem dial_answered:
  assumes "dialStart env (nextId sm) (sm_hasSession sm) (cfgProfile (profileConfig sm)) dest lport rport rs (sm_world sm) = Some (Ok (None, s, w))"
    and "incomingPackets sm = []" and "processorRunning sm"
    and "Unmarshal (e_lib env) emptyPacket payload = Ok synAck" and "isSynAckPacket synAck" and "\<not> hasFlag synAck FlagECHO"
    and "AckThrough synAck = sendSeq s - 1" and "\<And>h m. ses_SendMessage (e_session env) h m = None"
  shows "\<exists>sm' c. sm_run env slib [DialTo dest lport rport rs, Arrive src 6 rport lport payload, Process pick rs',
      DialWait (nextId sm) limit False] sm = Some sm' \<and>
    map_of (connObjs sm') (nextId sm) = Some c \<and> conn_state c = StateEstablished \<and> recvSeq c = SequenceNum synAck + 1 \<and>
    remoteStreamID c = SendStreamID synAck \<and> map_of (w_connections (sm_world sm')) (lport, rport) = Some (nextId sm)"
proof -
  let ?n = "nextId sm"
  define sm1 where "sm1 = sm\<lparr>connObjs := AList.update ?n s (connObjs sm), nextId := ?n + 1, sm_world := w\<rparr>"
  have 1: "sm_do env slib (DialTo dest lport rport rs) sm = Some sm1" by (simp add: sm1_def assms(1))
  define inc where "inc = \<lparr>in_protocol = 6, in_srcDest = src, in_srcPort = rport, in_destPort = lport, in_payload = payload\<rparr>"
  have 2: "sm_do env slib (Arrive src 6 rport lport payload) sm1 = Some (sm1\<lparr>incomingPackets := [inc]\<rparr>)"
    by (simp add: handleIncomingMessage_def sm1_def assms(2) incomingQueueSize_def inc_def)
  have s: "recvChan s = []" "\<not> ctxDone s" "map_of (w_connections w) (lport, rport) = Some ?n"
    using dialStart_queue(1) [OF assms(1)] dialStart_new [OF assms(1)] by (auto simp: ident_def update_conv')
  define sm2 where "sm2 = sm1\<lparr>connObjs := AList.update ?n (s\<lparr>recvChan := [synAck]\<rparr>) (connObjs sm1), incomingPackets := []\<rparr>"
  have d: "dispatchPacket env pick rs' inc (sm1\<lparr>incomingPackets := []\<rparr>) = Some (Ok sm2, rs')"
  proof -
    have "\<not> isSynPacket synAck" using assms(5) by (auto simp: isSynPacket_def isSynAckPacket_def)
    moreover have "routeToConnection env pick synAck inc (sm1\<lparr>incomingPackets := []\<rparr>) = sm2"
      using route_SynAck [of "sm1\<lparr>incomingPackets := []\<rparr>" lport rport ?n s inc env pick synAck] s
      by (simp add: sm1_def sm2_def inc_def update_conv')
    ultimately show ?thesis
      using assms(4,6) by (simp add: dispatchPacket_def unmarshalIncomingPacket_def inc_def hasFlag_def)
  qed
  then have 3: "sm_do env slib (Process pick rs') (sm1\<lparr>incomingPackets := [inc]\<rparr>) = Some sm2"
    by (simp add: processPackets_round_def) (simp add: sm1_def assms(3))
  obtain c w' where f: "dialFinish env synAck (s, w) = (None, c, w')" and c: "conn_state c = StateEstablished"
    "recvSeq c = SequenceNum synAck + 1" "remoteStreamID c = SendStreamID synAck" and k: "kept (s, w) (c, w')"
    by (rule dialFinish_ok [OF assms(7,8)])
  have "s\<lparr>recvChan := []\<rparr> = s" using s(1) by simp
  then have r: "dialStep env limit False (s\<lparr>recvChan := [synAck]\<rparr>, w) = (c, w')"
    using assms(5) f by (simp add: dialStep_def)
  define sm3 where "sm3 = sm2\<lparr>connObjs := AList.update ?n c (connObjs sm2), sm_world := w'\<rparr>"
  have 4: "sm_do env slib (DialWait ?n limit False) sm2 = Some sm3"
    by (simp add: on_conn_def sm2_def sm1_def sm3_def update_conv' r)
  have "map_of (connObjs sm3) ?n = Some c" "map_of (w_connections (sm_world sm3)) (lport, rport) = Some ?n"
    using k s(3) by (auto simp: sm3_def update_conv' kept_def ident_def)
  with c show ?thesis using 1 2 3 4 by (intro exI [of _ sm3] exI [of _ c]) simp
qed

text \<open>The \<^verbatim>\<open>SYN-ACK\<close> of \<open>demo_answer\<close> as bytes.\<close>

definition demo_answer_bytes :: "byte list" where
  "demo_answer_bytes = [0, 0, 0, 44, 0, 0, 0, 11, 0, 0, 2, 188, 0, 0, 0, 100, 0, 0, 0, 1, 0, 0]"

lemma demo_dialled:
  "map_option (map_result (\<lambda>(r, s, w). (r, sendSeq s))) (dialStart demo_env 0 True 1 (Some 9) 80 4000 [Inr 100, Inr 11] (sm_world demo_manager)) =
     Some (Ok (None, 101))"
  by code_simp

lemma demo_answer_read: "Unmarshal byte_lib emptyPacket demo_answer_bytes = Ok demo_answer"
  by code_simp

theorem dial_answered_witness:
  "\<exists>sm' c. sm_run demo_env demo_status [DialTo (Some 9) 80 4000 [Inr 100, Inr 11], Arrive None 6 4000 80 demo_answer_bytes, Process True [],
      DialWait 0 5 False] demo_manager = Some sm' \<and>
    map_of (connObjs sm') 0 = Some c \<and> conn_state c = StateEstablished \<and> recvSeq c = 701"
proof -
  obtain s w where d: "dialStart demo_env 0 True 1 (Some 9) 80 4000 [Inr 100, Inr 11] (sm_world demo_manager) = Some (Ok (None, s, w))"
    and q: "sendSeq s = 101" using demo_dialled by (auto simp: map_result_eq_Ok)
  have m: "nextId demo_manager = 0" "sm_hasSession demo_manager" "cfgProfile (profileConfig demo_manager) = 1"
    "incomingPackets demo_manager = []" "processorRunning demo_manager"
    by (simp_all add: demo_manager_def newStreamManagerBase_def DefaultProfileConfig_def ProfileBulk_def)
  have a: "isSynAckPacket demo_answer" "\<not> hasFlag demo_answer FlagECHO" "AckThrough demo_answer = 100" "SequenceNum demo_answer = 700"
    by (simp_all add: demo_answer_def isSynAckPacket_def hasFlag_def flag_defs)
  show ?thesis
    using dial_answered [of demo_env demo_manager "Some 9" 80 4000 "[Inr 100, Inr 11]" s w demo_answer_bytes demo_answer demo_status None True "[]" 5]
      d q m a demo_answer_read by (auto simp: demo_session_def)
qed

end
