(* ===== verification/Conn_Life.thy ===== *)
theory Conn_Life
  imports Dial_Steps Connect
begin

text \<open>
  The life of a connection from its creation on: made by a dial or by a listener, through the rounds of the handshake, and then through its
  operations in any order, while everything around it changes.  What holds in all these states.
\<close>

section \<open>The windows of the TCB cache\<close>

definition cached_window :: "('d, 'c, 'k, 'b) env \<Rightarrow> 'd option \<Rightarrow> 'd world \<Rightarrow> bool" where
  "cached_window env d w \<longleftrightarrow>
     (case fst (tcb_Get (e_lib env) (w_now w) (w_tcbCache w) d) of (_, _, win, found) \<Rightarrow> found \<longrightarrow> win \<le> MaxWindowSize)"

text \<open>
  The window that the TCB cache proposes for a peer is at most the largest window, as long as the dampening factor is in its documented range from 0 to 1:
  windows come into the cache from connections, where they are within the bound.  Nothing in the code enforces the range of the factor.
\<close>

definition cache_windows :: "tcbCache \<Rightarrow> bool" where
  "cache_windows c \<longleftrightarrow> 0 \<le> WindowDampening (tc_config c) \<and> WindowDampening (tc_config c) \<le> 1 \<and>
     (\<forall>x\<in>set (tc_entries c). te_windowSize (snd x) \<le> MaxWindowSize)"

fun windows_op :: "'d cache_op \<Rightarrow> bool" where
  "windows_op (CPut now d r v w) \<longleftrightarrow> w \<le> MaxWindowSize"
| "windows_op (CConfig cfg) \<longleftrightarrow> 0 \<le> WindowDampening cfg \<and> WindowDampening cfg \<le> 1"
| "windows_op _ \<longleftrightarrow> True"

lemma cache_windows_found: "cache_windows c \<Longrightarrow> map_of (tc_entries c) k = Some e \<Longrightarrow> te_windowSize e \<le> MaxWindowSize"
  using map_of_SomeD [of "tc_entries c" k e] by (fastforce simp: cache_windows_def)

lemma in_update: "x \<in> set (AList.update k v xs) \<Longrightarrow> x = (k, v) \<or> x \<in> set xs"
  by (induction xs) (auto split: if_splits)

lemma cache_windows_update:
  "cache_windows c \<Longrightarrow> te_windowSize e \<le> MaxWindowSize \<Longrightarrow> cache_windows (c\<lparr>tc_entries := AList.update k e (tc_entries c)\<rparr>)"
  by (auto simp: cache_windows_def dest!: in_update)

lemma average_window:
  assumes "x \<le> (m :: u32)" and "y \<le> m"
  shows "u32_of_float (of_int (uint x) * (1 / 2) + of_int (uint y) * (1 - 1 / 2)) \<le> m"
proof -
  have "uint (min x y) = min (uint x) (uint y)" "uint (max x y) = max (uint x) (uint y)"
    by (simp_all add: min_def max_def word_le_def)
  with u32_of_float_between [of "min x y" _ "max x y"] half_sum_between [of "uint x" "uint y"]
  have "u32_of_float (of_int (uint x) * (1 / 2) + of_int (uint y) * (1 - 1 / 2)) \<le> max x y" by simp
  with assms show ?thesis by (meson max.boundedI order_trans)
qed

lemma cache_windows_step:
  assumes "cache_windows c" and "windows_op x"
  shows "cache_windows (cache_step lib c x)"
proof (cases x)
  case (CGet now d)
  with assms(1) show ?thesis by (auto simp: tcb_Get_def cache_windows_def AList.delete_eq Let_def split: option.splits)
next
  case (CPut now d r v w)
  show ?thesis
  proof (cases "map_of (tc_entries c) (getDestKey lib d)")
    case None
    then show ?thesis using assms cache_windows_update [OF assms(1)] by (simp add: CPut tcb_Put_def Let_def)
  next
    case (Some e)
    then show ?thesis using assms cache_windows_update [OF assms(1)] average_window [OF cache_windows_found [OF assms(1) Some], of w]
      by (simp add: CPut tcb_Put_def Let_def)
  qed
qed (use assms in \<open>auto simp: cache_windows_def tcb_Clear_def tcb_CleanupExpired_def tcb_SetConfig_def Let_def\<close>)

lemma cache_windows_cached:
  assumes "cache_windows (w_tcbCache w)"
  shows "cached_window env d w"
proof -
  let ?c = "w_tcbCache w"
  have "u32_of_float (of_int (uint (te_windowSize e)) * WindowDampening (tc_config ?c)) \<le> MaxWindowSize"
    if "map_of (tc_entries ?c) k = Some e" for k e
  proof -
    have d: "0 \<le> WindowDampening (tc_config ?c)" "WindowDampening (tc_config ?c) \<le> 1" using assms by (auto simp: cache_windows_def)
    let ?q = "of_int (uint (te_windowSize e)) * WindowDampening (tc_config ?c)"
    have 0: "(0 :: rat) \<le> of_int (uint (te_windowSize e))" using uint_ge_0 [of "te_windowSize e"] by (simp only: of_int_0_le_iff)
    have "?q \<le> of_int (uint (te_windowSize e)) * 1" using d(2) 0 by (rule mult_left_mono)
    moreover have "0 \<le> ?q" using 0 d(1) by (rule mult_nonneg_nonneg)
    ultimately have "u32_of_float ?q \<le> te_windowSize e"
      by (intro u32_of_float_between [of 0 _ "te_windowSize e", THEN conjunct2]) simp_all
    with cache_windows_found [OF assms that] show ?thesis by (rule order_trans [rotated])
  qed
  moreover have "1 \<le> (MaxWindowSize :: u32)" by (simp add: MaxWindowSize_def)
  ultimately show ?thesis
    by (auto simp: cached_window_def Get_result live_def split: option.splits if_splits)
qed

section \<open>New connections\<close>

text \<open>The values of the cache keep the bounds of the windows and of the time-out.\<close>

lemma applyTCB_cc_inv:
  assumes "cc_inv s" and "td_WindowSize td \<le> MaxWindowSize"
  shows "cc_inv (applyTCBDataToConnection s td)"
proof -
  have "window_ok (cwnd (applyTCBDataToConnection s td)) \<and> window_ok (ssthresh (applyTCBDataToConnection s td)) \<and>
      2 \<le> ssthresh (applyTCBDataToConnection s td)"
    using assms unat_double [of "td_WindowSize td"]
    by (auto simp: applyTCBDataToConnection_def cc_inv_def window_ok_nat MaxWindowSize_def word_le_nat_alt word_less_nat_alt Let_def)
  moreover have "MinRTO \<le> rto (applyTCBDataToConnection s td) \<and> rto (applyTCBDataToConnection s td) \<le> MaxRTO"
    using assms(1) calculateRTOFromValues_bounds by (auto simp: applyTCBDataToConnection_def cc_inv_def Let_def)
  ultimately show ?thesis by (simp add: cc_inv_def)
qed

lemma applyTCB_inv:
  assumes "conn_inv s" and "td_WindowSize td \<le> MaxWindowSize"
  shows "conn_inv (applyTCBDataToConnection s td)"
proof -
  have "sentPackets (applyTCBDataToConnection s td) = sentPackets s" "outOfOrderPackets (applyTCBDataToConnection s td) = outOfOrderPackets s"
    "nackList (applyTCBDataToConnection s td) = nackList s"
    by (simp_all add: applyTCBDataToConnection_def Let_def)
  with assms applyTCB_cc_inv [of s td] show ?thesis by (simp add: conn_inv_def data_inv_def life_ok_def)
qed

lemma applyCachedTCB_inv:
  assumes "applyCachedTCB env d (s, w) = (s', w')" and "cached_window env d w" and "conn_inv s"
  shows "conn_inv s'"
  using assms applyTCB_inv [OF assms(3)]
  by (auto simp: applyCachedTCB_def cached_window_def Let_def split: if_splits prod.splits)

lemmas inv_defs = conn_inv_def cc_inv_def data_inv_def life_ok_def

lemma conn_inv_updates [simp]:
  "conn_inv (s\<lparr>sendSeq := q\<rparr>) = conn_inv s" "conn_inv (s\<lparr>recvSeq := q\<rparr>) = conn_inv s"
  "conn_inv (s\<lparr>ackThrough := q\<rparr>) = conn_inv s" "conn_inv (s\<lparr>remoteStreamID := q\<rparr>) = conn_inv s"
  "conn_inv (s\<lparr>remoteMTU := m\<rparr>) = conn_inv s" "conn_inv (s\<lparr>remoteProfile := p\<rparr>) = conn_inv s"
  "conn_inv (s\<lparr>conn_profile := p\<rparr>) = conn_inv s"
  by (simp_all add: inv_defs)

lemma conn_inv_state: "conn_inv s \<Longrightarrow> st \<in> {StateSynSent, StateSynRcvd, StateEstablished} \<Longrightarrow> conn_inv (s\<lparr>conn_state := st\<rparr>)"
  by (auto simp: inv_defs)

lemma dialled_inv:
  assumes "createConnectionStruct env cid True manager prof dest lport rport mtu rs w0 = Some (Ok (c, w), rs')"
    and "cached_window env dest w0"
  shows "conn_inv c"
proof -
  obtain isn sid buf s0 where v: "validateConnectionParams True dest mtu = None"
    and a: "applyCachedTCB env dest (initializeStreamConn cid manager dest lport rport mtu isn sid buf (w_now w0), w0) = (s0, w)"
    and c: "c = s0\<lparr>conn_profile := (if manager then prof else ProfileBulk)\<rparr>"
    using assms(1) by (auto simp: createConnectionStruct_def Let_def split: option.splits result.splits sum.splits prod.splits)
  have "512 \<le> mtu" "mtu \<le> 1812"
    using v by (auto simp: validateConnectionParams_def MinMTU_def DefaultMTU_def ECIESMTU_def split: if_splits)
  then have "uint (word_of_int mtu :: u16) = mtu" by (simp add: uint_word_of_int take_bit_int_eq_self)
  then have "0 < (word_of_int mtu :: u16)" using \<open>512 \<le> mtu\<close> by (simp add: word_less_def)
  then have "conn_inv (initializeStreamConn cid manager dest lport rport mtu isn sid buf (w_now w0))"
    by (simp add: inv_defs initializeStreamConn_def window_ok_def DefaultWindowSize_def MaxWindowSize_def MinRTO_def MaxRTO_def recvChanSize_def)
  from applyCachedTCB_inv [OF a assms(2) this] show ?thesis by (simp add: c)
qed

lemma accepted_inv:
  assumes "handleIncomingSYN env afs cid prof syn rport rd rs l v = Some (Ok (None, l', Some s, v1), rs')"
    and "\<And>d. cached_window env d v" and "0 < l_localMTU l"
  shows "conn_inv s"
proof -
  obtain peer w2 isn sid buf s0 w3 where now: "w_now w2 = w_now v" "w_tcbCache w2 = w_tcbCache v"
    and init: "initConnectionState env cid prof l syn rport peer isn sid buf w2 = (s0, w3)"
    and fin: "finalizeIncomingConnection env l rport (s0, w3) = Ok (None, l', s, v1)"
    by (rule handleIncomingSYN_stages [OF assms(1)]) blast
  have "cached_window env (Some peer) w2" using assms(2) [of "Some peer"] by (simp add: cached_window_def now)
  then have "conn_inv s0" using assms(3)
    by (intro applyCachedTCB_inv [OF init [unfolded initConnectionState_def Let_def]])
      (simp_all add: inv_defs window_ok_def DefaultWindowSize_def MaxWindowSize_def MinRTO_def MaxRTO_def recvChanSize_def)
  moreover have "s = s0\<lparr>sendSeq := sendSeq s0 + 1, conn_state := StateSynRcvd\<rparr>" by (rule finalize_to [OF fin])
  ultimately show ?thesis using conn_inv_state [of "s0\<lparr>sendSeq := sendSeq s0 + 1\<rparr>" StateSynRcvd] by simp
qed

section \<open>The life of a connection\<close>

text \<open>
  The states of a connection: created by a dial, whose MTU is checked, or by a listener whose MTU is not 0 at 16 bits; the start and the rounds of
  the dial's handshake; every operation of the connection; and any change of its surroundings by others.  The windows that the TCB cache
  proposes at the creation are within their bound.
\<close>

inductive conn_life :: "('d, 'c, 'k, 'b) env \<Rightarrow> ('d, 'b) conn_world \<Rightarrow> bool"
  for env where
  life_dialled: "conn_life env sw"
    if "createConnectionStruct env cid True manager prof dest lport rport mtu rs w = Some (Ok sw, rs')" and "cache_windows (w_tcbCache w)"
| life_accepted: "conn_life env (s, w')"
    if "handleIncomingSYN env afs cid prof syn rport rd rs l w = Some (Ok (None, l', Some s, w'), rs')" and "cache_windows (w_tcbCache w)"
      and "0 < l_localMTU l"
| life_SYN: "conn_life env (setState s StateSynSent, w')"
    if "conn_life env sw" and "conn_state (fst sw) = StateInit" and "sendSYN env sw = (None, s, w')"
| life_round: "conn_life env sw'"
    if "conn_life env sw" and "conn_state (fst sw) = StateSynSent" and "dialRound env limit (if timedOut then TimeOut else TakePacket) sw = Some (r, sw')"
| life_operation: "conn_life env (conn_do env oper sw)" if "conn_life env sw"
| life_others: "conn_life env (s, w')" if "conn_life env (s, w)"

lemma SYN_inv: "sendSYN env (s, w) = (r, s', w') \<Longrightarrow> conn_inv s \<Longrightarrow> conn_inv s'"
  by (auto simp: sendSYN_def split: sum.splits option.splits prod.splits)

lemma dialFinish_inv:
  assumes "dialFinish env synAck (s, w) = (r, s', w')" and "conn_inv s"
  shows "conn_inv s'"
proof -
  obtain e s1 where p: "processSynAck synAck s = (e, s1)" by fastforce
  then have "conn_inv s1" using assms(2)
    by (auto simp: processSynAck_def extractRemoteMTUFromSynAck_def extractRemoteProfileFromSynAck_def Let_def split: option.splits if_splits)
  then show ?thesis using assms(1) p conn_inv_state [of s1 StateEstablished]
    by (auto simp: dialFinish_def sendACK_def setState_def Let_def split: option.splits sum.splits prod.splits)
qed

lemma conn_inv_queue: "conn_inv s \<Longrightarrow> recvChan s = p # ps \<Longrightarrow> conn_inv (s\<lparr>recvChan := ps\<rparr>)"
  by (simp add: inv_defs)

lemma dialRound_inv:
  assumes "dialRound env limit (if timedOut then TimeOut else TakePacket) (s, w) = Some (r, s', w')" and "conn_inv s"
  shows "conn_inv s'"
proof (cases "timedOut \<or> recvChan s = []")
  case True
  then show ?thesis using assms by (auto split: if_splits)
next
  case False
  then obtain p ps where c: "recvChan s = p # ps" by (cases "recvChan s") auto
  have "conn_inv (s\<lparr>recvChan := ps\<rparr>)" by (rule conn_inv_queue [OF assms(2) c])
  with assms(1) False c show ?thesis using dialFinish_inv [of env p "s\<lparr>recvChan := ps\<rparr>" w]
    by (auto simp: Let_def split: if_splits prod.splits)
qed

lemma conn_life_inv: "conn_life env sw \<Longrightarrow> conn_inv (fst sw)"
proof (induction rule: conn_life.induct)
  case (life_dialled cid manager prof dest lport rport mtu rs w sw rs')
  then show ?case using dialled_inv [of env cid manager prof dest lport rport mtu rs w "fst sw" "snd sw" rs'] cache_windows_cached [OF life_dialled(2), of env dest] by simp
next
  case (life_accepted afs cid prof syn rport rd rs l w l' s w' rs')
  then show ?case using accepted_inv cache_windows_cached by fastforce
next
  case (life_SYN sw s w')
  then have "conn_inv s" using SYN_inv [of env "fst sw" "snd sw" None s w'] by simp
  then show ?case using conn_inv_state [of s StateSynSent] by (simp add: setState_def)
next
  case (life_round sw limit timedOut r sw')
  then show ?case using dialRound_inv [of env limit timedOut "fst sw" "snd sw" r "fst sw'" "snd sw'"] by simp
next
  case (life_operation sw oper)
  then show ?case using conn_do_advances [of sw env oper] by (simp add: advances_def)
qed simp

lemma demo_created:
  "createConnectionStruct demo_env 1 True True 0 (Some 9) 80 4000 1730 [Inr 100, Inr 11] demo_world = Some (Ok (demo_client, demo_world), [])"
proof -
  have g: "tcb_Get byte_lib 0 (newTCBCache DefaultTCBCacheConfig) (Some 9) = ((0, 0, 0, False), newTCBCache DefaultTCBCacheConfig)"
    by code_simp
  have v: "validateConnectionParams True (Some 9) 1730 = None" by (simp add: validateConnectionParams_def MinMTU_def DefaultMTU_def)
  have r: "generateConnectionIdentifiers [Inr 100, Inr 11] = Some (Ok (100, 11), [])" by code_simp
  have b: "cb_NewBuffer list_circ recvBufSize = Inr ([], 0, 65536)" by (simp add: list_circ_def recvBufSize_def)
  have w: "w_now demo_world = 0" "w_tcbCache demo_world = newTCBCache DefaultTCBCacheConfig"
    "demo_world\<lparr>w_tcbCache := newTCBCache DefaultTCBCacheConfig\<rparr> = demo_world" by (simp_all add: demo_world_def)
  show ?thesis
    by (simp add: createConnectionStruct_def v r b applyCachedTCB_def demo_client_def initializeStreamConn_def w g)
qed

lemma demo_cache_windows: "cache_windows (w_tcbCache demo_world)"
  by (simp add: cache_windows_def demo_world_def newTCBCache_def DefaultTCBCacheConfig_def)


section \<open>Properties\<close>

text \<open>
  C8. The invariant of a connection: in every state of its life, from its creation by a dial or by a listener through every sequence of its
  operations (the rounds of the handshake, packets queued and processed, writes, reads, closes, timer ticks, delivery reports, deadlines, time
  passing), the congestion window is between 1 and 128 packets, the time-out between its limits, at most 255 NACKs and 32 packets are queued, the
  MTU used to cut data is positive, so the write loop makes progress, and a connection in a closing state is marked closed.  This holds if the
  listener's MTU is not a multiple of 65536 and the dampening factor of the TCB cache is in its documented range; the code enforces neither.
\<close>

theorem connection_invariant:
  assumes "conn_life env (s, w)"
  shows "1 \<le> cwnd s \<and> cwnd s \<le> 128 \<and> MinRTO \<le> rto s \<and> rto s \<le> MaxRTO \<and> length (nackList s) \<le> 255 \<and>
    length (recvChan s) \<le> 32 \<and> 0 < getNegotiatedMTULocked s \<and>
    (conn_state s \<in> {StateClosing, StateClosed} \<longrightarrow> conn_closed s)"
proof -
  have i: "conn_inv s" using conn_life_inv [OF assms] by simp
  then have "0 < getNegotiatedMTULocked s" by (auto simp: conn_inv_def getNegotiatedMTULocked_def word_gt_0)
  with i show ?thesis
    by (auto simp: conn_inv_def cc_inv_def window_ok_def MaxWindowSize_def data_inv_def MaxNACKs_def recvChanSize_def life_ok_def)
qed

lemma demo_life: "conn_life demo_env (demo_client, demo_world)"
  by (rule life_dialled [OF demo_created demo_cache_windows])

theorem connection_invariant_witness:
  "\<exists>s w. conn_do demo_env (Deliver True (demo_data 0)) (demo_client, demo_world) = (s, w) \<and> length (recvChan s) = 1 \<and>
     0 < getNegotiatedMTULocked s \<and> cwnd s \<le> 128"
proof -
  let ?sw = "conn_do demo_env (Deliver True (demo_data 0)) (demo_client, demo_world)"
  have "conn_life demo_env (fst ?sw, snd ?sw)" unfolding prod.collapse by (rule life_operation [OF demo_life])
  from connection_invariant [OF this] show ?thesis
    by (intro exI [of _ "fst ?sw"] exI [of _ "snd ?sw"])
      (simp add: handleIncomingPacket_def demo_client_def initializeStreamConn_def recvChanSize_def)
qed

text \<open>
  C9. The state of a connection never moves back along the life cycle through its operations, and closing is final: from a state in which the
  connection is closed on it stays closed, every \<^verbatim>\<open>Write\<close> fails at once without sending anything, a \<^verbatim>\<open>Read\<close> with nothing buffered returns end of
  file, and another \<^verbatim>\<open>Close\<close> does nothing.
\<close>

theorem closed_is_final:
  assumes "conn_life env (s1, w1)" and "conn_reach env (s1, w1) (s2, w2)"
  shows "later_state (conn_state s1) (conn_state s2) \<and>
    (conn_closed s1 \<longrightarrow> conn_closed s2 \<and>
      conn_Write env waits data (s2, w2) = Some (0, Some (Errorf ''connection closed'' []), s2, w2) \<and>
      (cb_TotalWritten (e_circ env) (recvBuf s2) = 0 \<longrightarrow> conn_Read env rwaits len (s2, w2) = Some ([], Some EOF, s2, w2)) \<and>
      conn_Close env (s2, w2) = (s2, w2))"
proof -
  have i: "conn_inv s1" using conn_life_inv [OF assms(1)] by simp
  then have "later_state (conn_state s1) (conn_state s2)" and "conn_closed s1 \<longrightarrow> conn_closed s2"
    using conn_reach_advances [OF assms(2)] by (simp_all add: advances_def)
  then show ?thesis
    by (auto simp: conn_Write_def validateWriteStateLocked_def conn_Read_def validateReadStateLocked_def conn_Close_def)
qed

theorem closed_is_final_witness:
  "conn_closed (fst (conn_Close demo_env (demo_client, demo_world))) \<and>
   conn_closed (fst (conn_do demo_env (Elapse 5) (conn_Close demo_env (demo_client, demo_world))))"
proof -
  obtain s1 w1 where c: "conn_Close demo_env (demo_client, demo_world) = (s1, w1)" by (metis surj_pair)
  have l: "conn_life demo_env (s1, w1)" using life_operation [OF demo_life, of CloseConn] by (simp add: c)
  have i: "conn_closed s1" using Close_closes [of demo_env "(demo_client, demo_world)"] by (simp add: c)
  obtain s2 w2 where d: "conn_do demo_env (Elapse 5) (s1, w1) = (s2, w2)" by (metis surj_pair)
  have "conn_reach demo_env (s1, w1) (s2, w2)" unfolding d [symmetric] by (intro conn_step conn_start)
  from closed_is_final [OF l this] c d i show ?thesis by simp
qed

end
