(* ===== verification/Session_Link.thy ===== *)
theory Session_Link
  imports Link_Props Demo_Run Conn_Life
begin

text \<open>
  From the handshake to the byte pipe: the connection that a dial has made and the connection that a listener has made for it are, once the
  client has taken the \<^verbatim>\<open>SYN-ACK\<close>, the two ends of a link.  The final \<^verbatim>\<open>ACK\<close> is then only one more message on its way, which may be lost:
  the server's connection is in the state \<^verbatim>\<open>SynRcvd\<close> until any packet of the client arrives.
\<close>

section \<open>New connections\<close>

text \<open>The documented behaviour of \<^verbatim>\<open>circbuf.NewBuffer\<close>: a new buffer is empty.\<close>

definition new_empty :: "'b circbuf \<Rightarrow> bool" where
  "new_empty cb \<longleftrightarrow> (\<forall>n b. cb_NewBuffer cb n = Inr b \<longrightarrow> cb_Bytes cb b = [] \<and> cb_TotalWritten cb b = 0)"

definition newborn :: "('d, 'c, 'k, 'b) env \<Rightarrow> ('d, 'b) StreamConn \<Rightarrow> bool" where
  "newborn env s \<longleftrightarrow> conn_inv s \<and> sentPackets s = [] \<and> recvChan s = [] \<and> outOfOrderPackets s = [] \<and> nackList s = [] \<and>
     cb_Bytes (e_circ env) (recvBuf s) = [] \<and> cb_TotalWritten (e_circ env) (recvBuf s) = 0"

lemmas newborn_defs = newborn_def conn_inv_def cc_inv_def data_inv_def life_ok_def

lemma newborn_updates [simp]:
  "newborn env (s\<lparr>sendSeq := q\<rparr>) = newborn env s" "newborn env (s\<lparr>recvSeq := q\<rparr>) = newborn env s"
  "newborn env (s\<lparr>ackThrough := q\<rparr>) = newborn env s" "newborn env (s\<lparr>remoteStreamID := q\<rparr>) = newborn env s"
  "newborn env (s\<lparr>remoteMTU := m\<rparr>) = newborn env s" "newborn env (s\<lparr>remoteProfile := p\<rparr>) = newborn env s"
  "newborn env (s\<lparr>conn_profile := p\<rparr>) = newborn env s"
  by (simp_all add: newborn_defs)

lemma newborn_state: "newborn env s \<Longrightarrow> st \<in> {StateSynSent, StateSynRcvd, StateEstablished} \<Longrightarrow> newborn env (s\<lparr>conn_state := st\<rparr>)"
  by (auto simp: newborn_defs)

lemma newborn_queue: "newborn env s \<Longrightarrow> s\<lparr>recvChan := []\<rparr> = s"
  by (simp add: newborn_def)

lemma applyTCB_newborn:
  assumes "newborn env s" and "td_WindowSize td \<le> MaxWindowSize"
  shows "newborn env (applyTCBDataToConnection s td)"
proof -
  have "sentPackets (applyTCBDataToConnection s td) = sentPackets s" "outOfOrderPackets (applyTCBDataToConnection s td) = outOfOrderPackets s"
    "nackList (applyTCBDataToConnection s td) = nackList s" "recvBuf (applyTCBDataToConnection s td) = recvBuf s"
    by (simp_all add: applyTCBDataToConnection_def Let_def)
  with assms applyTCB_cc_inv [of s td] show ?thesis by (simp add: newborn_def conn_inv_def data_inv_def life_ok_def)
qed

lemma applyCachedTCB_newborn:
  assumes "applyCachedTCB env d (s, w) = (s', w')" and "cached_window env d w" and "newborn env s"
  shows "newborn env s'"
  using assms applyTCB_newborn [OF assms(3)]
  by (auto simp: applyCachedTCB_def cached_window_def Let_def split: if_splits prod.splits)

lemma dialled_newborn:
  assumes "createConnectionStruct env cid True manager prof dest lport rport mtu rs w0 = Some (Ok (c, w), rs')"
    and "new_empty (e_circ env)" and "cached_window env dest w0"
  shows "newborn env c" and "w_wire w = w_wire w0"
proof -
  obtain isn sid buf s0 where v: "validateConnectionParams True dest mtu = None" and b: "cb_NewBuffer (e_circ env) recvBufSize = Inr buf"
    and a: "applyCachedTCB env dest (initializeStreamConn cid manager dest lport rport mtu isn sid buf (w_now w0), w0) = (s0, w)"
    and c: "c = s0\<lparr>conn_profile := (if manager then prof else ProfileBulk)\<rparr>"
    using assms(1) by (auto simp: createConnectionStruct_def Let_def split: option.splits result.splits sum.splits prod.splits)
  have "512 \<le> mtu" "mtu \<le> 1812"
    using v by (auto simp: validateConnectionParams_def MinMTU_def DefaultMTU_def ECIESMTU_def split: if_splits)
  then have "uint (word_of_int mtu :: u16) = mtu" by (simp add: uint_word_of_int take_bit_int_eq_self)
  then have "0 < (word_of_int mtu :: u16)" using \<open>512 \<le> mtu\<close> by (simp add: word_less_def)
  then have "newborn env (initializeStreamConn cid manager dest lport rport mtu isn sid buf (w_now w0))"
    using b assms(2) by (simp add: newborn_defs initializeStreamConn_def window_ok_def DefaultWindowSize_def MaxWindowSize_def
        MinRTO_def MaxRTO_def recvChanSize_def new_empty_def)
  from applyCachedTCB_newborn [OF a assms(3) this] show "newborn env c" by (simp add: c)
  show "w_wire w = w_wire w0" using applyCachedTCB_frame [OF a] by simp
qed

lemma accepted_newborn:
  assumes "initConnectionState env cid prof l syn rport peer isn sid buf w = (s, w')" and "cb_NewBuffer (e_circ env) n = Inr buf"
    and "new_empty (e_circ env)" and "cached_window env (Some peer) w" and "0 < l_localMTU l"
  shows "newborn env s"
  using assms(2,3,5)
  by (intro applyCachedTCB_newborn [OF assms(1) [unfolded initConnectionState_def Let_def] assms(4)])
    (simp add: newborn_defs window_ok_def DefaultWindowSize_def MaxWindowSize_def MinRTO_def MaxRTO_def
      recvChanSize_def new_empty_def)

section \<open>The messages of the handshake\<close>

text \<open>No message that a side has sent so far carries data.\<close>

definition no_data :: "('d, 'c, 'k) i2plib \<Rightarrow> 'd world \<Rightarrow> bool" where
  "no_data lib w \<longleftrightarrow> (\<forall>m\<in>set (w_wire w). \<forall>p. Unmarshal lib emptyPacket (msg_data m) = Ok p \<longrightarrow> Payload p = [])"

lemma no_data_send:
  assumes "no_data lib w" and "w_wire w' = w_wire w @ [m]" and "lib_ok lib" and "marshalable lib p" and "msg_data m = wire_format lib p"
    and "plain p"
  shows "no_data lib w'"
  using assms received_packet [OF assms(3,4)] by (auto simp: no_data_def plain_def)

lemma handshake_plain:
  "p = (buildSYNPacket env s nacks)\<lparr>Signature := sg\<rparr> \<Longrightarrow> plain p" "p = (buildSynAckPacket env s)\<lparr>Signature := sg\<rparr> \<Longrightarrow> plain p"
  "plain (finalAckPacket s)"
  by (simp_all add: plain_def SYN_flags(3,4,7,8))
    (simp_all add: hasFlag_def buildSYNPacket_def buildSynAckPacket_def finalAckPacket_def emptyPacket_def Let_def)

text \<open>Both sides when the client has taken the answer of the server.\<close>

lemma client_ready:
  assumes "newborn env c" and "sendSYN env (c, w) = (None, c1, w1)" and "isSynAckPacket synack"
    and "performHandshake env timeout [Meanwhile (queue_packet synack), TakePacket] (c, w) = Some (None, c3, w3)"
    and "no_data (e_lib env) w" and "lib_ok (e_lib env)"
  shows "newborn env c3" and "conn_state c3 = StateEstablished" and "sendSeq c3 = sendSeq c + 1"
    and "recvSeq c3 = SequenceNum synack + 1" and "no_data (e_lib env) w3"
proof -
  from assms(2) obtain nacks p1 m1 where w1: "w_wire w1 = w_wire w @ [m1]" "msg_data m1 = wire_format (e_lib env) p1"
    "marshalable (e_lib env) p1" "p1 = (buildSYNPacket env c nacks)\<lparr>Signature := Signature p1\<rparr>" and c1: "c1 = c\<lparr>sendSeq := sendSeq c + 1\<rparr>"
    by (rule sendSYN_sent) blast
  have "recvChan c1 = []" using assms(1) by (simp add: c1 newborn_def)
  from performHandshake_SynAck [OF assms(2) this assms(3,4)] obtain c2 where
    c2: "processSynAck synack (c1\<lparr>conn_state := StateSynSent, recvChan := []\<rparr>) = (None, c2)"
    and ack: "sendACK env (c2, w1) = (None, c2, w3)" and c3: "c3 = setState c2 StateEstablished" .
  have "c1\<lparr>conn_state := StateSynSent, recvChan := []\<rparr> = c1\<lparr>conn_state := StateSynSent\<rparr>"
    using assms(1) by (simp add: c1 newborn_def)
  moreover have "newborn env (c1\<lparr>conn_state := StateSynSent\<rparr>)" using assms(1) newborn_state [of env c1 StateSynSent] by (simp add: c1)
  ultimately have "newborn env c2" "sendSeq c2 = sendSeq c + 1" "recvSeq c2 = SequenceNum synack + 1"
    using c2 by (auto simp: processSynAck_def extractRemoteMTUFromSynAck_def extractRemoteProfileFromSynAck_def c1 Let_def
        split: option.splits if_splits)
  then show "newborn env c3" "conn_state c3 = StateEstablished" "sendSeq c3 = sendSeq c + 1" "recvSeq c3 = SequenceNum synack + 1"
    using newborn_state [of env c2 StateEstablished] by (simp_all add: c3 setState_def)
  have n1: "no_data (e_lib env) w1" by (rule no_data_send [OF assms(5) w1(1) assms(6) w1(3,2)]) (rule handshake_plain(1) [OF w1(4)])
  from ack obtain m3 where w3: "w_wire w3 = w_wire w1 @ [m3]" "msg_data m3 = wire_format (e_lib env) (finalAckPacket c2)"
    "marshalable (e_lib env) (finalAckPacket c2)" by (rule sendACK_sent) blast
  show "no_data (e_lib env) w3" by (rule no_data_send [OF n1 w3(1) assms(6) w3(3,2)]) (rule handshake_plain(3))
qed

lemma server_ready:
  assumes "handleIncomingSYN env afs cid prof syn rport rd rs l v = Some (Ok (None, l', Some s, v1), rs')"
    and "new_empty (e_circ env)" and "\<And>d. cached_window env d v" and "0 < l_localMTU l"
    and "no_data (e_lib env) v" and "lib_ok (e_lib env)"
  shows "newborn env s" and "conn_state s = StateSynRcvd" and "recvSeq s = SequenceNum syn + 1" and "no_data (e_lib env) v1"
proof -
  obtain peer w2 isn sid buf s0 w3 where now: "w_now w2 = w_now v" "w_tcbCache w2 = w_tcbCache v"
    and b: "cb_NewBuffer (e_circ env) recvBufSize = Inr buf"
    and init: "initConnectionState env cid prof l syn rport peer isn sid buf w2 = (s0, w3)"
    and fin: "finalizeIncomingConnection env l rport (s0, w3) = Ok (None, l', s, v1)"
    by (rule handleIncomingSYN_stages [OF assms(1)]) blast
  have "cached_window env (Some peer) w2" using assms(3) [of "Some peer"] by (simp add: cached_window_def now)
  from accepted_newborn [OF init b assms(2) this assms(4)] have n: "newborn env s0" .
  have s: "s = s0\<lparr>sendSeq := sendSeq s0 + 1, conn_state := StateSynRcvd\<rparr>" by (rule finalize_to [OF fin])
  show "newborn env s" using n newborn_state [of env "s0\<lparr>sendSeq := sendSeq s0 + 1\<rparr>" StateSynRcvd] by (simp add: s)
  show "conn_state s = StateSynRcvd" by (simp add: s)
  from assms(1) obtain s1 p m where c: "w_wire v1 = w_wire v @ [m]" "msg_data m = wire_format (e_lib env) p" "marshalable (e_lib env) p"
    "p = (buildSynAckPacket env s1)\<lparr>Signature := Signature p\<rparr>" "s = s1\<lparr>sendSeq := sendSeq s1 + 1, conn_state := StateSynRcvd\<rparr>"
    "recvSeq s1 = SequenceNum syn + 1" by (rule handleIncomingSYN_created) blast
  show "recvSeq s = SequenceNum syn + 1" by (simp add: c(5,6))
  show "no_data (e_lib env) v1" by (rule no_data_send [OF assms(5) c(1) assms(6) c(3,2)]) (rule handshake_plain(2) [OF c(4)])
qed

section \<open>Property\<close>

text \<open>
  C2. From the dial to the byte pipe: let a client make a connection and send its \<^verbatim>\<open>SYN\<close>, let a listener that reads it create a connection for it, and let
  the client take the listener's \<^verbatim>\<open>SYN-ACK\<close>.  From then on, whether or not the final \<^verbatim>\<open>ACK\<close> arrives, the two connections are a byte pipe in both
  directions, as long as I2CP takes the packets of \<^verbatim>\<open>Write\<close>, the persist timer sends no probe, fewer than \<open>2 ^ 31\<close> packets are sent in a direction and reads
  come before unread bytes are overwritten: in whatever order packets, acknowledgements, retransmissions, reads, writes, closes and time-outs happen,
  each side has read a prefix of what the other has written, and all of it in a state in which it expects the next sequence number of the other
  and its buffer is empty.
\<close>

theorem handshake_opens_pipe:
  assumes "lib_ok (e_lib ce)" and "e_lib se = e_lib ce" and "circ_ok (e_circ ce)" and "circ_ok (e_circ se)"
    and "new_empty (e_circ ce)" and "new_empty (e_circ se)" and "cache_windows (w_tcbCache w0)" and "cache_windows (w_tcbCache v)"
    and "no_data (e_lib ce) w0" and "no_data (e_lib ce) v" and "0 < l_localMTU l"
    and "createConnectionStruct ce cid True manager prof dest lport rport mtu rs0 w0 = Some (Ok (c, w), rs1)"
    and "sendSYN ce (c, w) = (None, c1, w1)" and "w_wire w1 = w_wire w @ [m1]"
    and "Unmarshal (e_lib ce) emptyPacket (msg_data m1) = Ok syn"
    and "handleIncomingSYN se afs cid' prof' syn rport' rd rs l v = Some (Ok (None, l', Some s, v1), rs')"
    and "w_wire v1 = w_wire v @ [m2]" and "Unmarshal (e_lib ce) emptyPacket (msg_data m2) = Ok synack"
    and "performHandshake ce timeout [Meanwhile (queue_packet synack), TakePacket] (c, w) = Some (None, c3, w3)"
    and "link_reach ce se \<lparr>ep_conn = (c3, w3), ep_put = [], ep_got = []\<rparr> \<lparr>ep_conn = (s, v1), ep_put = [], ep_got = []\<rparr> a b"
  shows "pipe_step\<^sup>*\<^sup>* ([], []) (pipe a b) \<and> pipe_step\<^sup>*\<^sup>* ([], []) (pipe b a) \<and>
    prefix (ep_got b) (concat (ep_put a)) \<and> prefix (ep_got a) (concat (ep_put b)) \<and>
    (recvSeq (fst (ep_conn b)) = sendSeq (fst (ep_conn a)) \<and> cb_TotalWritten (e_circ se) (recvBuf (fst (ep_conn b))) = 0 \<longrightarrow>
       ep_got b = concat (ep_put a))"
proof -
  let ?a = "\<lparr>ep_conn = (c3, w3), ep_put = [], ep_got = []\<rparr>" and ?b = "\<lparr>ep_conn = (s, v1), ep_put = [], ep_got = []\<rparr>"
  have c: "newborn ce c" "no_data (e_lib ce) w" using dialled_newborn [OF assms(12,5) cache_windows_cached [OF assms(7)]] assms(9) by (simp_all add: no_data_def)
  have sv: "newborn se s" "conn_state s = StateSynRcvd" "recvSeq s = SequenceNum syn + 1" "no_data (e_lib se) v1"
    using server_ready [OF assms(16,6) cache_windows_cached [OF assms(8)] assms(11)] assms(1,2,10) by simp_all
  from assms(13) obtain nacks p1 where p1: "msg_data m1 = wire_format (e_lib ce) p1" "marshalable (e_lib ce) p1"
    "p1 = (buildSYNPacket ce c nacks)\<lparr>Signature := Signature p1\<rparr>"
    by (rule sendSYN_sent) (use assms(14) in auto)
  have syn: "SequenceNum syn = sendSeq c" using read_SYN(1) [OF assms(1) p1(2,3)] assms(15) by (simp add: p1(1))
  from assms(16) obtain s0 p2 where p2: "msg_data m2 = wire_format (e_lib ce) p2" "marshalable (e_lib ce) p2"
    "p2 = (buildSynAckPacket se s0)\<lparr>Signature := Signature p2\<rparr>"
    and s0: "sendSeq s = sendSeq s0 + 1" "localStreamID s0 \<noteq> 0"
    by (rule handleIncomingSYN_created) (use assms(2,17) in auto)
  note sa = read_SynAck [OF assms(1) p2(2,3) assms(18) [unfolded p2(1)]]
  have isa: "isSynAckPacket synack" using sa(2,4) s0(2) by (simp add: isSynAckPacket_def word_gt_0)
  note cl = client_ready [OF c(1) assms(13) isa assms(19) c(2) assms(1)]
  have start: "link_start ce se ?a ?b"
    using cl sv sa(1) s0(1) syn assms(2) by (simp add: link_start_def ep_fresh_def newborn_def no_data_def)
  note i = link_invariant [OF assms(20,1-4) start refl refl refl refl]
  have "prefix (ep_got b) (concat (ep_put a))" "prefix (ep_got a) (concat (ep_put b))"
    using i by (auto intro: rx_stream_prefix(1) simp: tx_stream_def)
  moreover have "ep_got b = concat (ep_put a)" if "recvSeq (fst (ep_conn b)) = sendSeq (fst (ep_conn a))"
    "cb_TotalWritten (e_circ se) (recvBuf (fst (ep_conn b))) = 0"
    using i that by (intro rx_stream_prefix(2)) (auto simp: tx_stream_def tx_ok_def)
  ultimately show ?thesis using link_pipes [OF assms(20,1-4) start] by blast
qed

theorem handshake_opens_pipe_witness:
  "\<exists>synack l' c3 w3 s v1. performHandshake demo_env 1000 [Meanwhile (queue_packet synack), TakePacket] (demo_client, demo_world) =
       Some (None, c3, w3) \<and>
     (\<exists>syn. handleIncomingSYN demo_env (\<lambda>_. newAccessFilter None) 2 1 syn 80 (Some 9) [Inr 700, Inr 44] demo_listener demo_world =
       Some (Ok (None, l', Some s, v1), [])) \<and>
     pipe_step\<^sup>*\<^sup>* ([], []) (pipe \<lparr>ep_conn = (c3, w3), ep_put = [], ep_got = []\<rparr> \<lparr>ep_conn = (s, v1), ep_put = [], ep_got = []\<rparr>)"
proof -
  obtain w1 m1 syn l' s v1 m2 synack c3 w3 where
    h: "sendSYN demo_env (demo_client, demo_world) = (None, demo_client\<lparr>sendSeq := 101\<rparr>, w1)" "w_wire w1 = w_wire demo_world @ [m1]"
    "Unmarshal byte_lib emptyPacket (msg_data m1) = Ok syn"
    "handleIncomingSYN demo_env (\<lambda>_. newAccessFilter None) 2 1 syn 80 (Some 9) [Inr 700, Inr 44] demo_listener demo_world =
      Some (Ok (None, l', Some s, v1), [])"
    "w_wire v1 = w_wire demo_world @ [m2]" "Unmarshal byte_lib emptyPacket (msg_data m2) = Ok synack"
    "performHandshake demo_env 1000 [Meanwhile (queue_packet synack), TakePacket] (demo_client, demo_world) = Some (None, c3, w3)"
    by (rule demo_handshake) blast
  let ?a = "\<lparr>ep_conn = (c3, w3), ep_put = [], ep_got = []\<rparr>" and ?b = "\<lparr>ep_conn = (s, v1), ep_put = [], ep_got = []\<rparr>"
  have e: "lib_ok (e_lib demo_env)" "circ_ok (e_circ demo_env)" "new_empty (e_circ demo_env)"
    "no_data (e_lib demo_env) demo_world" "0 < l_localMTU demo_listener"
    using byte_lib_ok list_circ_ok by (simp_all add: new_empty_def no_data_def demo_world_def demo_listener_def) (simp add: list_circ_def)
  have "pipe_step\<^sup>*\<^sup>* ([], []) (pipe ?a ?b) \<and> pipe_step\<^sup>*\<^sup>* ([], []) (pipe ?b ?a) \<and>
    prefix (ep_got ?b) (concat (ep_put ?a)) \<and> prefix (ep_got ?a) (concat (ep_put ?b)) \<and>
    (recvSeq (fst (ep_conn ?b)) = sendSeq (fst (ep_conn ?a)) \<and> cb_TotalWritten (e_circ demo_env) (recvBuf (fst (ep_conn ?b))) = 0 \<longrightarrow>
       ep_got ?b = concat (ep_put ?a))"
    by (rule handshake_opens_pipe [OF e(1) refl e(2,2,3,3) demo_cache_windows demo_cache_windows e(4,4,5) demo_created h(1,2) _ h(4,5) _ h(7) link_begin])
      (simp_all add: h(3,6))
  with h(4,7) show ?thesis by blast
qed

end
