(* ===== verification/Spec2Isabelle.thy ===== *)
theory Spec2Isabelle
  imports Echo Timers Goroutines Addresses Dial_Props Session_Link
begin

text \<open>
  Verification of \<^verbatim>\<open>go-streaming\<close>, the I2P streaming protocol in Go: reliable, ordered byte streams between I2P
  destinations over the unreliable messages of an I2CP session.

  \<^bold>\<open>The program and its theories.\<close>
  A \<^verbatim>\<open>StreamManager\<close> (\<^verbatim>\<open>manager.go\<close>) receives the messages of one I2CP session, unmarshals them (\<^verbatim>\<open>packet.go\<close>) and hands
  them to the ping manager (\<^verbatim>\<open>ping.go\<close>), to the \<^verbatim>\<open>StreamListener\<close> of the port or to the \<^verbatim>\<open>StreamConn\<close> of the port pair
  (\<^verbatim>\<open>stream.go\<close>).  Listeners check a \<^verbatim>\<open>SYN\<close> against the access filter (\<^verbatim>\<open>accesslist.go\<close>), the connection limiter
  (\<^verbatim>\<open>limits.go\<close>) and its signature (\<^verbatim>\<open>crypto.go\<close>); connections share round-trip estimates through the TCB cache
  (\<^verbatim>\<open>tcb_cache.go\<close>) and learn about delivery from the message tracker (\<^verbatim>\<open>message_status.go\<close>).

  \<^item> \<open>Stream_Prelude\<close>: results with errors and panics, slices with bounds, big-endian codecs (locale \<open>be_codec\<close>), maps as association
    lists, time in nanoseconds.
  \<^item> \<open>Seq_Num\<close>: the comparisons \<^verbatim>\<open>seqLessThan\<close> and so on at 32 bits (locale \<open>serial_window\<close>).
  \<^item> \<open>Packet_Codec\<close>, \<open>Packet_Wire\<close>: \<^verbatim>\<open>Packet\<close>, \<^verbatim>\<open>Marshal\<close>, \<^verbatim>\<open>Unmarshal\<close> with all their helpers; the wire format as a
    specification, the round trip, and the exact set of inputs on which \<^verbatim>\<open>Unmarshal\<close> panics.
  \<^item> \<open>Packet_Crypto\<close>: signing and verification of packets and offline signatures.
  \<^item> \<open>Profile\<close>, \<open>Base64\<close>, \<open>Access_List\<close> (locale \<open>listing\<close>), \<open>Conn_Limits\<close> (refinement of a limiter that keeps its full log),
    \<open>Tcb_Cache\<close> (locale \<open>timed_cache\<close>), \<open>Message_Status\<close>: the small components, every operation of each.
  \<^item> \<open>Conn\<close>: the record \<open>StreamConn\<close>, the environment and world it runs in, and the functions that send.
  \<^item> \<open>Congestion\<close>: acknowledgements, NACKs, round-trip estimate, windows, retransmission, choking, the persist timer.
  \<^item> \<open>Receiver\<close>: data packets, reordering, the NACK list, choke signals, \<^verbatim>\<open>Read\<close>.
  \<^item> \<open>Sender\<close>: \<^verbatim>\<open>Write\<close>, its waits and its packets.
  \<^item> \<open>Lifecycle\<close>: dispatch of a packet by flags and state, \<^verbatim>\<open>CLOSE\<close>, \<^verbatim>\<open>RESET\<close>, \<^verbatim>\<open>Close\<close>, the goroutines as steps (\<open>conn_do\<close>,
    \<open>conn_reach\<close>), the invariant that they keep.  \<open>Conn_Life\<close>: the life of a connection from its creation by a dial or a listener (\<open>conn_life\<close>), its invariant and
    its life cycle.  \<open>Conn_Identity\<close>: what no operation of a connection changes.  \<open>Goroutines\<close>: the
    receive loop and the two timers of a connection as loops over their \<^verbatim>\<open>select\<close>, their interleaving (\<open>run\<close>) and their end.
  \<^item> \<open>Timers\<close>: the timers behind the waits of \<^verbatim>\<open>Read\<close> and \<^verbatim>\<open>Write\<close>, which end these waits when a deadline is set.
  \<^item> \<open>Handshake\<close>, \<open>Listener\<close>: \<^verbatim>\<open>Dial\<close>, \<^verbatim>\<open>Listen\<close>, \<^verbatim>\<open>Accept\<close>, and everything between \<^verbatim>\<open>SYN\<close> and the final \<^verbatim>\<open>ACK\<close>.
    \<open>Dial_Steps\<close>: dialling cut into its start and its rounds, and that these are the call.  \<open>Connect\<close>: lemmas about two
    endpoints.  \<open>Demo_Run\<close>: one concrete handshake.
  \<^item> \<open>Wire_Contract\<close> (locale \<open>wire_contract\<close>): what every operation of a connection keeps of a property of the messages it sends and the packets it
    tracks.  \<open>Stream_Link\<close>: two connected endpoints with what their goroutines, timers and callers do, less the exclusions at the end of this text, over a network that delivers any message
    ever sent, any number of times and in any order (\<open>ep_step\<close>, \<open>link_reach\<close>; the locale is interpreted there on the packets of one stream); the abstract pipe
    (\<open>pipe_step\<close>).  \<open>Link_Props\<close>: the properties of a link.
    \<open>Session_Link\<close>: from the dial and the accepted \<^verbatim>\<open>SYN\<close> to a link.  \<open>Echo\<close>: the server and the client of \<^verbatim>\<open>examples/echo\<close>,
    each a program over its connection (\<open>server_step\<close>, \<open>client_step\<close>), on a link.
  \<^item> \<open>Ping\<close>, \<open>Manager\<close>, \<open>Manager_Props\<close>, \<open>Dial_Props\<close>: ping and pong; the manager with its queue, dispatch, registration, dialling, settings and \<^verbatim>\<open>Close\<close>
    (\<open>sm_do\<close>, \<open>sm_reach\<close>; locale \<open>routed_op\<close> for what the manager relies on of an operation of a connection, interpreted on each of them).
  \<^item> \<open>Addresses\<close>: \<^verbatim>\<open>I2PAddr\<close>, the functions on \<^verbatim>\<open>net.Addr\<close>, the accessors, the printed texts; whom an accepted connection talks to.
  \<^item> This theory: the handshake, the way of a \<^verbatim>\<open>Write\<close>, and the admission of a \<^verbatim>\<open>SYN\<close>.

  \<^bold>\<open>What is proved.\<close>
  Between two endpoints: the handshake makes both agree; from the moment the client has taken the \<^verbatim>\<open>SYN-ACK\<close>, each direction is a byte pipe, whatever the network does to
  the order and number of the messages and however the goroutines, timers and callers of both sides interleave, as long as the persist timer sends no probe, I2CP refuses no data
  packet, no read comes after unread bytes were overwritten and fewer than \<open>2 ^ 31\<close> packets are sent in a direction: reads return a prefix of what was
  written, and have returned all of it when the reader expects the writer's next number and its buffer is empty; a \<^verbatim>\<open>Write\<close> that returns without an error
  has put exactly its bytes into the pipe, if nobody else writes or reads on its side meanwhile; and under the conditions of the pipe the echo client
  sees no mismatch.  Within a connection: in-order exactly-once delivery, writes that send exactly the bytes they report and respect the window, \<^verbatim>\<open>Write\<close>s
  that complete when their acknowledgements come, deadlines that end every wait, invariants over the whole life of a connection, a life cycle that never goes back, release of resources, the end of the
  goroutines.  For the manager: its invariant over all histories, dialling included, isolation of connections, the peer an accepted connection reports, what
  \<^verbatim>\<open>Close\<close> leaves.  For the codec, the crypto and the small components: round trips, refinement, bounds, exact acceptance conditions.  Where the code does not
  do what it means to, the theorem states what it does: a connection closed by its peer that is never released, a place in the limiter freed by a connection that never had
  one, bytes reported as not written that replace others, a probe that adds a byte to the stream, a writer that sleeps past the end of a choke, a stream that stalls at sequence number
  0, a limiter place lost by a refused \<^verbatim>\<open>SYN\<close>, a route taken by a second peer, an MTU of 65536 on which \<^verbatim>\<open>Write\<close> never returns, an acknowledged packet that
  is reported missing and never sent again, an access list entry that is ignored, a listener whose \<^verbatim>\<open>Close\<close> can make the packet processor panic.

  \<^bold>\<open>How the code is read.\<close>
  Operations keep the names of the Go functions.  A struct is a record, a pointer that matters is a number into a store, a map is an
  association list without repeated keys whose order is any order, a \<^verbatim>\<open>uint32\<close> is a word, a \<^verbatim>\<open>float64\<close> is
  a rational and a conversion from it truncates.  An error is a value (\<open>goerror\<close>), a panic a result of its own.  A handler that runs under the
  lock of a connection maps the connection and the world (clock, messages sent, and the parts of the manager a connection reaches) to new ones.  A
  wait on a condition variable or channel takes a list of what the other goroutines do meanwhile and is \<open>None\<close> while it is still
  waiting; which ready case a \<^verbatim>\<open>select\<close> takes is an argument.  A broadcast is a counter.  Randomness is a list of words.  The I2P library, the I2CP
  session and the ring buffer are parameters (\<open>i2plib\<close>, \<open>session\<close>, \<open>circbuf\<close>); what is needed of them is \<open>lib_ok\<close>, \<open>circ_ok\<close> and the like, each met
  by a concrete instance on which the witnesses run.

  \<^bold>\<open>Bounds and fuel.\<close>
  The only loop with fuel is the delivery of buffered packets; the number of buffered packets is enough, since every round removes
  one.  \<^verbatim>\<open>Write\<close>'s loop is a partial function; that it returns is proved, and that it does not for MTU 0.  Stream theorems assume fewer than
  \<open>2 ^ 31\<close> packets in one direction, the range in which sequence numbers can be compared.

  \<^bold>\<open>Not modelled.\<close>
  Logging (\<^verbatim>\<open>log.go\<close> and the functions that only write a log line); data races on unlocked fields; the fairness of the scheduler: any interleaving of the steps is
  considered, and a theorem that something ends says which step ends it; a nil session inside a connection; \<^verbatim>\<open>GetSessionCallbacks\<close>, which lists the
  callbacks; the exported \<^verbatim>\<open>RegisterListener\<close> and \<^verbatim>\<open>RegisterConnection\<close> as calls of the user; the test helper; the set-up of the examples (flags, sessions, signals) and the scripts.  The links of \<open>Stream_Link\<close> leave out what is
  shown to break them, or to lose bytes: messages that I2CP refuses, probes of the persist timer, reads after an overflow of the receive buffer, and \<open>2 ^ 31\<close> or more packets in one
  direction.  The dispatch of a packet by the manager is one step: a listener that is closed between its lookup and the queueing of the new connection is not a
  step of \<open>sm_do\<close>, and what happens then is stated apart (\<open>closed_listener_panics\<close>).  A filter has its own copy of its configuration, where the code keeps the
  pointer of the caller.  Rationals stand for \<^verbatim>\<open>float64\<close>, which is exact for factors with a short binary expansion, such as the defaults.
\<close>

section \<open>The handshake\<close>

text \<open>
  C3. The three-way handshake makes both ends agree: when a client's \<^verbatim>\<open>SYN\<close> is read by a listener that creates a connection for
  it, the client's handshake takes the listener's \<^verbatim>\<open>SYN-ACK\<close>, and the server's connection processes the client's final
  \<^verbatim>\<open>ACK\<close>, then both connections are established, each expects exactly the sequence number the other will use
  next and has everything before it acknowledged, each knows the stream identifier and the profile of the other, and both
  cut data to the same MTU, the smaller of the two advertised.
\<close>

theorem handshake_agrees:
  assumes "lib_ok (e_lib ce)" and "e_lib se = e_lib ce" and "recvChan c = []" and "0 < localMTU c" and "0 < l_localMTU l"
    and "sendSYN ce (c, w) = (None, c1, w1)" and "w_wire w1 = w_wire w @ [m1]"
    and "Unmarshal (e_lib ce) emptyPacket (msg_data m1) = Ok syn"
    and "handleIncomingSYN se afs cid prof syn rport rd rs l v = Some (Ok (None, l', Some s, v1), rs')"
    and "w_wire v1 = w_wire v @ [m2]" and "Unmarshal (e_lib ce) emptyPacket (msg_data m2) = Ok synack"
    and "performHandshake ce timeout [Meanwhile (queue_packet synack), TakePacket] (c, w) = Some (None, c3, w3)"
    and "w_wire w3 = w_wire w1 @ [m3]" and "Unmarshal (e_lib ce) emptyPacket (msg_data m3) = Ok ack"
    and "processPacket se ack (s, v2) = (r2, s2, v3)"
  shows "conn_state c3 = StateEstablished \<and> conn_state s2 = StateEstablished \<and> r2 = None \<and>
    recvSeq c3 = sendSeq s2 \<and> recvSeq s2 = sendSeq c3 \<and> ackThrough c3 = sendSeq c3 - 1 \<and> ackThrough s2 = sendSeq s2 - 1 \<and>
    remoteStreamID c3 = localStreamID s2 \<and> remoteStreamID s2 = localStreamID c3 \<and>
    (remoteProfile s2 = ProfileInteractive \<longleftrightarrow> conn_profile c3 = ProfileInteractive) \<and>
    (remoteProfile c3 = ProfileInteractive \<longleftrightarrow> conn_profile s2 = ProfileInteractive) \<and>
    getNegotiatedMTULocked c3 = min (localMTU c) (l_localMTU l) \<and>
    getNegotiatedMTULocked s2 = min (localMTU c) (l_localMTU l)"
proof -
  from assms(6) obtain nacks p1 where p1: "msg_data m1 = wire_format (e_lib ce) p1" "marshalable (e_lib ce) p1"
    "p1 = (buildSYNPacket ce c nacks)\<lparr>Signature := Signature p1\<rparr>" and c1: "c1 = c\<lparr>sendSeq := sendSeq c + 1\<rparr>"
    by (rule sendSYN_sent) (use assms(7) in auto)
  note syn = read_SYN [OF assms(1) p1(2,3) assms(8) [unfolded p1(1)]]
  from assms(9) obtain s0 p2 where p2: "msg_data m2 = wire_format (e_lib ce) p2" "marshalable (e_lib ce) p2"
    "p2 = (buildSynAckPacket se s0)\<lparr>Signature := Signature p2\<rparr>"
    and s: "s = s0\<lparr>sendSeq := sendSeq s0 + 1, conn_state := StateSynRcvd\<rparr>"
    and s0: "recvSeq s0 = SequenceNum syn + 1" "remoteStreamID s0 = RecvStreamID syn" "localStreamID s0 \<noteq> 0"
      "localMTU s0 = l_localMTU l" "remoteMTU s0 = extractRemoteMTU syn"
      "remoteProfile s0 = (if Flags syn AND FlagProfileInteractive \<noteq> 0 then ProfileInteractive else ProfileBulk)"
    by (rule handleIncomingSYN_created) (use assms(2,10) in auto)
  note sa = read_SynAck [OF assms(1) p2(2,3) assms(11) [unfolded p2(1)]]
  have isa: "isSynAckPacket synack" using sa(2,4) s0(3) by (simp add: isSynAckPacket_def word_gt_0)
  have "recvChan c1 = []" using assms(3) by (simp add: c1)
  from performHandshake_SynAck [OF assms(6) this isa assms(12)] obtain c2 where
    c2: "processSynAck synack (c1\<lparr>conn_state := StateSynSent, recvChan := []\<rparr>) = (None, c2)"
    and ack: "sendACK ce (c2, w1) = (None, c2, w3)" and c3: "c3 = setState c2 StateEstablished" .
  have c2f: "recvSeq c2 = SequenceNum synack + 1" "remoteStreamID c2 = SendStreamID synack" "ackThrough c2 = AckThrough synack"
    "remoteMTU c2 = localMTU s0" "localMTU c2 = localMTU c" "sendSeq c2 = sendSeq c + 1" "localStreamID c2 = localStreamID c"
    "conn_profile c2 = conn_profile c" "remoteProfile c2 = ProfileInteractive \<longleftrightarrow> conn_profile s0 = ProfileInteractive"
    using c2 sa(5,6,7) assms(5) s0(4)
    by (auto simp: processSynAck_def extractRemoteMTUFromSynAck_def extractRemoteProfileFromSynAck_def c1 Let_def
        profile_defs split: option.splits if_splits)
  from ack have m3: "msg_data m3 = wire_format (e_lib ce) (finalAckPacket c2)"
    by (rule sendACK_sent) (use assms(13) in auto)
  note fa = read_finalAck [OF assms(1) assms(14) [unfolded m3]]
  have s2: "r2 = None" "s2 = s\<lparr>lastActivity := w_now v2, ackThrough := AckThrough ack, conn_state := StateEstablished\<rparr>"
    using assms(15) fa(2) by (auto simp: processPacket_def dispatchPacketByFlags_def handleFinalAckLocked_def setState_def s)
  have mtu: "localMTU s0 = l_localMTU l" "remoteMTU s0 = localMTU c" using s0(4,5) syn(3) assms(4) by simp_all
  have "getNegotiatedMTULocked c3 = min (localMTU c) (l_localMTU l)" "getNegotiatedMTULocked s2 = min (localMTU c) (l_localMTU l)"
    using assms(4,5) by (auto simp: getNegotiatedMTULocked_def c3 setState_def c2f mtu s2 s min_def word_gt_0)
  moreover have "remoteProfile s0 = ProfileInteractive \<longleftrightarrow> conn_profile c = ProfileInteractive"
    using s0(6) syn(4) by (simp add: profile_defs)
  ultimately show ?thesis
    using sa syn s0 fa(1) s2 c2f by (simp add: c3 setState_def s)
qed

theorem handshake_agrees_witness:
  "\<exists>synack c3 w3 s2. performHandshake demo_env 1000 [Meanwhile (queue_packet synack), TakePacket] (demo_client, demo_world) =
     Some (None, c3, w3) \<and> conn_state c3 = StateEstablished \<and> conn_state s2 = StateEstablished \<and>
     recvSeq c3 = sendSeq (s2 :: (byte, byte list \<times> int \<times> int) StreamConn) \<and> recvSeq s2 = sendSeq c3 \<and>
     getNegotiatedMTULocked c3 = 1730 \<and> getNegotiatedMTULocked s2 = 1730"
proof -
  obtain w1 m1 syn l' s v1 m2 synack c3 w3 m3 ack where
    h: "sendSYN demo_env (demo_client, demo_world) = (None, demo_client\<lparr>sendSeq := 101\<rparr>, w1)" "w_wire w1 = w_wire demo_world @ [m1]"
    "Unmarshal byte_lib emptyPacket (msg_data m1) = Ok syn"
    "handleIncomingSYN demo_env (\<lambda>_. newAccessFilter None) 2 1 syn 80 (Some 9) [Inr 700, Inr 44] demo_listener demo_world =
      Some (Ok (None, l', Some s, v1), [])"
    "w_wire v1 = w_wire demo_world @ [m2]" "Unmarshal byte_lib emptyPacket (msg_data m2) = Ok synack"
    and hs: "performHandshake demo_env 1000 [Meanwhile (queue_packet synack), TakePacket] (demo_client, demo_world) = Some (None, c3, w3)"
    "w_wire w3 = w_wire w1 @ [m3]" "Unmarshal byte_lib emptyPacket (msg_data m3) = Ok ack"
    by (rule demo_handshake)
  obtain r s2 v3 where fa: "processPacket demo_env ack (s, demo_world) = (r, s2, v3)" by (metis prod_cases3)
  have d: "recvChan demo_client = []" "0 < localMTU demo_client" "0 < l_localMTU demo_listener"
    "localMTU demo_client = 1730" "l_localMTU demo_listener = 1812"
    by (simp_all add: demo_client_def initializeStreamConn_def demo_listener_def)
  have e: "e_lib demo_env = byte_lib" by simp
  from handshake_agrees [of demo_env demo_env demo_client demo_listener, unfolded e, OF byte_lib_ok refl d(1-3) h hs fa] hs(1) d(4,5)
  show ?thesis by auto
qed

section \<open>From Write to the reader's buffer\<close>

text \<open>
  End to end: when a \<^verbatim>\<open>Write\<close> has reported \<open>n\<close> bytes written, there are messages among those it handed to I2CP
  that the other side can read, and however they are delivered, in any order and with any
  repetition, as long as each arrives at least once, a receiver that expected the first of them has put
  exactly those \<open>n\<close> bytes into its ring buffer, which keeps the last ones if they exceed its size, and it expects the next packet of the sender.
\<close>

theorem write_reaches_reader:
  assumes "lib_ok (e_lib se)" and "e_lib re = e_lib se" and "circ_ok (e_circ re)"
    and "conn_Write se waits data (s, w) = Some (n, r, s', w')" and "0 < getNegotiatedMTULocked s" and "length data < 2 ^ 31"
    and "\<And>f sw. f \<in> set waits \<Longrightarrow> writer_rely sw (f sw)"
    and "recvSeq t = sendSeq s" and "outOfOrderPackets t = []" and "nackList t = []"
    and "cb_Bytes (e_circ re) (recvBuf t) = []" and "cb_TotalWritten (e_circ re) (recvBuf t) = 0"
  shows "\<exists>ms new. w_wire w' = w_wire w @ new \<and> subseq ms new \<and>
    (\<forall>m\<in>set ms. \<exists>pkt. Unmarshal (e_lib re) emptyPacket (msg_data m) = Ok pkt) \<and>
    (\<forall>arrivals pkts t' v v'. set arrivals = set ms \<longrightarrow>
       list_all2 (\<lambda>m pkt. Unmarshal (e_lib re) emptyPacket (msg_data m) = Ok pkt) arrivals pkts \<longrightarrow>
       arrive_all re pkts (t, v) = (t', v') \<longrightarrow>
       cb_Bytes (e_circ re) (recvBuf t') = lastn (nat (cb_Size (e_circ re) (recvBuf t))) (take n data) \<and>
       recvSeq t' = sendSeq s')"
proof -
  from Write_run [OF assms(4,5)] assms(7) obtain ps new where
    new: "w_wire w' = w_wire w @ new" "on_wire se ps new" and run: "data_run (sendSeq s) (unat (getNegotiatedMTULocked s)) ps"
    and pay: "concat (map Payload ps) = take n data" and q: "sendSeq s' = sendSeq s + of_nat (length ps)" by blast
  obtain ms where ms: "subseq ms new" "list_all2 (\<lambda>p m. msg_data m = wire_format (e_lib se) p) ps ms"
    using new(2) by (auto simp: on_wire_def)
  have N: "length ps < 2 ^ 31" using data_run_length [OF run] pay assms(6) by simp
  have readable: "\<exists>pkt. Unmarshal (e_lib se) emptyPacket (msg_data m) = Ok pkt" if mem: "m \<in> set ms" for m
  proof -
    obtain i where "i < length ms" "ms ! i = m" using mem by (auto simp: in_set_conv_nth)
    with ms(2) have i: "i < length ps" "msg_data m = wire_format (e_lib se) (ps ! i)"
      by (auto simp: list_all2_conv_all_nth)
    note f = data_run_nth [OF run i(1)]
    have "marshalable (e_lib se) (ps ! i)" using f(2,3) by (simp add: marshalable_def hasFlag_def)
    from received_packet [OF assms(1) this] f(2) i(2) show ?thesis by (simp add: hasFlag_def)
  qed
  have "cb_Bytes (e_circ re) (recvBuf t') = lastn (nat (cb_Size (e_circ re) (recvBuf t))) (take n data) \<and> recvSeq t' = sendSeq s'"
    if ar: "set arrivals = set ms" "list_all2 (\<lambda>m pkt. Unmarshal (e_lib re) emptyPacket (msg_data m) = Ok pkt) arrivals pkts"
      and h: "arrive_all re pkts (t, v) = (t', v')" for arrivals pkts t' v v'
  proof -
    obtain js where js: "list_all2 (stream_packet (sendSeq s) (\<lambda>i. Payload (ps ! i)) (length ps)) js pkts" "set js = {..<length ps}"
      using arrivals_stream [OF assms(1) run less_imp_le [OF N] ms(2) ar(1)] ar(2) assms(2) by auto
    have k: "length ps = (LEAST i. i \<notin> set js)" unfolding js(2) by (rule Least_equality [symmetric]) auto
    have "map (\<lambda>i. Payload (ps ! i)) [0..<length ps] = map Payload ps" by (rule nth_equalityI) simp_all
    with pay have pl: "concat (map (\<lambda>i. Payload (ps ! i)) [0..<length ps]) = take n data" by simp
    from arrive_all_delivers [OF assms(3) N js(1) assms(8-12) refl k, of v] h pl q show ?thesis by simp
  qed
  with readable new(1) ms(1) assms(2) show ?thesis by (intro exI [of _ ms] exI [of _ new]) simp
qed

theorem write_reaches_reader_witness:
  "\<exists>s w ms pkts. conn_Write demo_env [demo_relief] [7, 8] (demo_conn, demo_world) = Some (2, None, s, w) \<and>
     set ms \<subseteq> set (w_wire w) \<and> list_all2 (\<lambda>m pkt. Unmarshal byte_lib emptyPacket (msg_data m) = Ok pkt) (ms @ ms) pkts \<and>
     cb_Bytes list_circ (recvBuf (fst (arrive_all demo_env pkts (demo_conn\<lparr>recvSeq := 104\<rparr>, demo_world)))) = [7, 8]"
proof -
  obtain s w where h: "conn_Write demo_env [demo_relief] [7, 8] (demo_conn, demo_world) = Some (2, None, s, w)"
    using demo_write unfolding numeral_2_eq_2 by blast
  let ?t = "demo_conn\<lparr>recvSeq := 104\<rparr>"
  let ?rd = "\<lambda>m pkt. Unmarshal (e_lib demo_env) emptyPacket (msg_data m) = Ok pkt"
  have "\<exists>ms new. w_wire w = w_wire demo_world @ new \<and> subseq ms new \<and> (\<forall>m\<in>set ms. \<exists>pkt. ?rd m pkt) \<and>
    (\<forall>arrivals pkts t' v v'. set arrivals = set ms \<longrightarrow> list_all2 ?rd arrivals pkts \<longrightarrow> arrive_all demo_env pkts (?t, v) = (t', v') \<longrightarrow>
       cb_Bytes (e_circ demo_env) (recvBuf t') = lastn (nat (cb_Size (e_circ demo_env) (recvBuf ?t))) (take 2 [7, 8]) \<and>
       recvSeq t' = sendSeq s)"
    by (rule write_reaches_reader [OF _ refl _ h]) (auto simp: byte_lib_ok list_circ_ok demo_writer demo_relief_facts)
  then obtain ms new where ms: "w_wire w = w_wire demo_world @ new" "subseq ms new" "\<forall>m\<in>set ms. \<exists>pkt. ?rd m pkt"
    and all: "\<forall>arrivals pkts t' v v'. set arrivals = set ms \<longrightarrow> list_all2 ?rd arrivals pkts \<longrightarrow> arrive_all demo_env pkts (?t, v) = (t', v') \<longrightarrow>
       cb_Bytes (e_circ demo_env) (recvBuf t') = lastn (nat (cb_Size (e_circ demo_env) (recvBuf ?t))) (take 2 [7, 8]) \<and>
       recvSeq t' = sendSeq s" by blast
  have e: "e_lib demo_env = byte_lib" by simp
  define pkts where "pkts = map (\<lambda>m. SOME pkt. Unmarshal byte_lib emptyPacket (msg_data m) = Ok pkt) (ms @ ms)"
  have "Unmarshal byte_lib emptyPacket (msg_data m) = Ok (SOME pkt. Unmarshal byte_lib emptyPacket (msg_data m) = Ok pkt)"
    if "m \<in> set ms" for m using ms(3) [unfolded e] that by (meson someI_ex)
  then have rd: "list_all2 (\<lambda>m pkt. Unmarshal byte_lib emptyPacket (msg_data m) = Ok pkt) (ms @ ms) pkts"
    unfolding pkts_def by (auto simp: list_all2_conv_all_nth nth_append)
  obtain t' v' where a: "arrive_all demo_env pkts (?t, demo_world) = (t', v')" by (metis surj_pair)
  have "set (ms @ ms) = set ms" by simp
  from all [rule_format, OF this rd [folded e] a] have "cb_Bytes list_circ (recvBuf t') = [7, 8]" by (simp add: lastn_def)
  moreover have "m \<in> set (w_wire w)" if "m \<in> set ms" for m
    using list_emb_set [OF ms(2) that] ms(1) by auto
  ultimately show ?thesis using h rd a by (intro exI [of _ s] exI [of _ w] exI [of _ ms] exI [of _ pkts]) auto
qed

section \<open>Which SYN packets are accepted\<close>

text \<open>
  C13. Admission: a listener creates a connection for a \<^verbatim>\<open>SYN\<close> only if its access filter allows the source, the connection limiter
  admits it, the packet names a source, its signature, if it carries one, verifies, and its eight NACKs, if it carries
  eight, are the hash of the listener's own destination; when no connection is created, there is an error, the accept queue and the
  routing table are as before.
\<close>

theorem SYN_admission:
  assumes "handleIncomingSYN env afs cid prof syn rport rd rs l w = Some (Ok (r, l', c, w'), rs')"
    and "hashDestination (e_lib env) (ses_Destination (e_session env)) = Ok h"
  shows "(c \<noteq> None \<longrightarrow>
      (\<forall>a. l_accessFilter l = Some a \<longrightarrow> IsAllowed (e_lib env) (afs a) rd) \<and>
      (l_hasManager l \<longrightarrow> fst (CheckAndRecordConnection (e_lib env) (w_limiter w) rd (w_now w)) = None) \<and>
      \<not> isl (validateSYNSource syn rd) \<and>
      (hasFlag syn FlagSignatureIncluded \<longrightarrow> VerifyPacketSignature (e_lib env) syn = Ok ()) \<and>
      (length (NACKs syn) = 8 \<longrightarrow> generateReplayPreventionNACKs (e_lib env) (ses_Destination (e_session env)) = Ok (NACKs syn))) \<and>
    (c = None \<longrightarrow> r \<noteq> None \<and> l' = l \<and> w_connections w' = w_connections w)"
proof (cases c)
  case None
  from handleIncomingSYN_refused [OF assms(1) [unfolded None]] None show ?thesis by simp
next
  case (Some s)
  obtain w1 where c1: "checkAccessFilter env afs l rd syn w = (None, w1)" and w1: "w1 = w"
    using assms(1) by (auto simp: Some handleIncomingSYN_def checks_pass_quietly(1) split: option.splits prod.splits)
  obtain w2 where c2: "checkConnectionLimits env l rd syn w = (None, w2)"
    using assms(1) c1 w1 by (auto simp: Some handleIncomingSYN_def split: option.splits prod.splits)
  have v: "validateIncomingSYN env syn rd = None"
    using assms(1) c1 c2 w1 by (auto simp: Some handleIncomingSYN_def split: option.splits)
  have a: "l_accessFilter l = Some a \<longrightarrow> IsAllowed (e_lib env) (afs a) rd" for a
    using c1 by (auto simp: checkAccessFilter_def CheckAndLog_def Let_def split: option.splits if_splits)
  have b: "l_hasManager l \<longrightarrow> fst (CheckAndRecordConnection (e_lib env) (w_limiter w) rd (w_now w)) = None"
    using c2 by (auto simp: checkConnectionLimits_def Let_def split: option.splits if_splits prod.splits)
  show ?thesis using a b Some validateIncomingSYN_ok [OF v assms(2)] by (intro conjI impI) simp_all
qed

theorem SYN_admission_witness:
  "\<exists>syn l' s w'. handleIncomingSYN demo_env (\<lambda>_. newAccessFilter None) 2 1 syn 80 (Some 9) [Inr 700, Inr 44] demo_listener demo_world =
      Some (Ok (None, l', Some s, w'), []) \<and>
    VerifyPacketSignature byte_lib syn = Ok () \<and> NACKs syn = [0x09000000, 0, 0, 0, 0, 0, 0, 0]"
proof -
  obtain w1 m1 syn where syn: "syn = (buildSYNPacket demo_env demo_client [0x09000000, 0, 0, 0, 0, 0, 0, 0])\<lparr>Signature := Signature syn\<rparr>"
    "VerifyPacketSignature byte_lib syn = Ok ()" by (rule demo_SYN)
  obtain l' s v1 where sv: "handleIncomingSYN demo_env (\<lambda>_. newAccessFilter None) 2 1 syn 80 (Some 9) [Inr 700, Inr 44] demo_listener demo_world =
    Some (Ok (None, l', Some s, v1), [])" by (rule demo_server [OF syn])
  have h: "hashDestination byte_lib (Some 9) = Ok (Sum256 byte_lib [9])" by (simp add: hashDestination_def byte_lib_def)
  have n: "length (NACKs syn) = 8" and f: "hasFlag syn FlagSignatureIncluded"
    by (subst syn(1), simp add: buildSYNPacket_def Let_def) (subst syn(1), simp add: demo_built(3))
  from SYN_admission [OF sv] h n f sv demo_nacks(1)
  have "VerifyPacketSignature byte_lib syn = Ok () \<and> Ok (NACKs syn) = Ok [0x09000000, 0, 0, 0, 0, 0, 0, 0]"
    by (simp add: demo_session_def)
  with sv show ?thesis by auto
qed

lemma refused_finalize:
  assumes "finalizeIncomingConnection env l rport (s, w) = Ok (Some e, l', s', w')" and "l_hasManager l"
    and "\<And>k. map_of (w_connections w) k \<noteq> Some (self s)"
  shows "l' = l \<and> w_limiter w' = w_limiter w \<and> (\<forall>k. map_of (w_connections w') k \<noteq> Some (self s))"
proof -
  let ?w = "RegisterConnection (l_localPort l) rport (self s) w"
  obtain r s1 w1 where sa: "sendSynAck env (s, ?w) = (r, s1, w1)" by (metis prod_cases3)
  have w1: "w_limiter w1 = w_limiter w" "w_connections w1 = w_connections ?w"
    using sa by (auto simp: sendSynAck_def transmitSynAckPacket_def SendMessage_def RegisterConnection_def Let_def
        split: sum.splits option.splits prod.splits)
  have "l' = l \<and> w' = UnregisterConnection (l_localPort l) rport w1"
    using assms(1,2) sa by (auto simp: finalizeIncomingConnection_def queueConnectionForAccept_def Let_def split: option.splits if_splits)
  with w1 assms(3) show ?thesis
    by (auto simp: UnregisterConnection_def RegisterConnection_def delete_conv' update_conv' split: if_splits)
qed

text \<open>
  C35. A refused \<^verbatim>\<open>SYN\<close> keeps its place: when the limiter has admitted a connection and the \<^verbatim>\<open>SYN\<close> is refused after that, because of its source,
  signature or replay prevention, because no identifiers or buffer can be had, because the \<^verbatim>\<open>SYN-ACK\<close> cannot be sent or because the accept queue is
  full, then the new connection is neither queued nor routed, so that nobody can close it, but the limiter counts one more active stream, and
  goes on counting it through all later arrivals, clean-ups and configuration changes until some other connection is closed.
\<close>

theorem refused_SYN_leaks_slot:
  assumes "l_hasManager l" and "checkAccessFilter env afs l rd syn w = (None, w)"
    and "CheckAndRecordConnection (e_lib env) (w_limiter w) rd (w_now w) = (None, cl')"
    and "handleIncomingSYN env afs cid prof syn rport rd rs l w = Some (Ok (Some e, l', c, w'), rs')"
    and "\<And>k. map_of (w_connections w) k \<noteq> Some cid"
  shows "l' = l \<and> (\<forall>k. map_of (w_connections w') k \<noteq> Some cid) \<and> ActiveStreams (w_limiter w') = ActiveStreams (w_limiter w) + 1 \<and>
    (\<forall>ops. StreamClosed \<notin> set ops \<longrightarrow>
       ActiveStreams (w_limiter w) + 1 \<le> ActiveStreams (snd (run_ops (limiter_step (e_lib env)) (w_limiter w') ops)))"
proof -
  let ?w = "w\<lparr>w_limiter := cl'\<rparr>"
  have lim: "checkConnectionLimits env l rd syn w = (None, ?w)" using assms(1,3) by (simp add: checkConnectionLimits_def)
  have n: "activeStreams cl' = activeStreams (w_limiter w) + 1" by (rule CheckAndRecord_counts [OF assms(3)])
  have "l' = l \<and> w_limiter w' = cl' \<and> (\<forall>k. map_of (w_connections w') k \<noteq> Some cid)"
  proof (cases "validateIncomingSYN env syn rd")
    case (Some e')
    then show ?thesis using assms(2,4,5) lim by (auto simp: handleIncomingSYN_def)
  next
    case None
    then obtain peer where peer: "validateSYNSource syn rd = Inr peer"
      using assms(2,4) lim by (auto simp: handleIncomingSYN_def split: sum.splits)
    consider (failed) e2 rs2 where "createIncomingConnection env cid prof l syn rport peer rs ?w = Some (Err e2, rs2)"
      | (made) s0 w0 rs2 where "createIncomingConnection env cid prof l syn rport peer rs ?w = Some (Ok (s0, w0), rs2)"
      using assms(2,4) lim None peer by (auto simp: handleIncomingSYN_def split: option.splits result.splits)
    then show ?thesis
    proof cases
      case failed
      then show ?thesis using assms(2,4,5) lim None peer by (auto simp: handleIncomingSYN_def)
    next
      case made
      then obtain isn sid buf where "initConnectionState env cid prof l syn rport peer isn sid buf ?w = (s0, w0)"
        by (auto simp: createIncomingConnection_def split: option.splits result.splits sum.splits)
      from applyCachedTCB_frame [OF this [unfolded initConnectionState_def Let_def]]
      have s0: "self s0 = cid" "w_limiter w0 = cl'" "w_connections w0 = w_connections w" by simp_all
      obtain s' where "finalizeIncomingConnection env l rport (s0, w0) = Ok (Some e, l', s', w')"
        using assms(2,4) lim None peer made
        by (auto simp: handleIncomingSYN_def split: prod.splits)
      from refused_finalize [OF this assms(1)] s0 assms(5) show ?thesis by simp
    qed
  qed
  with n active_kept [of _ cl' "e_lib env"] show ?thesis by (auto simp: ActiveStreams_def)
qed

theorem refused_SYN_leaks_slot_witness:
  "\<exists>e w'. handleIncomingSYN demo_env (\<lambda>_. newAccessFilter None) 2 1 emptyPacket 80 None [] (demo_listener\<lparr>l_hasManager := True\<rparr>) demo_world =
      Some (Ok (Some e, demo_listener\<lparr>l_hasManager := True\<rparr>, None, w'), []) \<and>
    ActiveStreams (w_limiter demo_world) = 0 \<and> ActiveStreams (w_limiter w') = 1 \<and>
    1 \<le> ActiveStreams (snd (run_ops (limiter_step byte_lib) (w_limiter w') [limiter_op.Arrive (Some 4) 5, limiter_op.Cleanup 9]))"
proof -
  let ?l = "demo_listener\<lparr>l_hasManager := True\<rparr>"
  obtain cl' where c: "CheckAndRecordConnection (e_lib demo_env) (w_limiter demo_world) None (w_now demo_world) = (None, cl')"
    and z: "activeStreams (w_limiter demo_world) = 0" and n: "w_connections demo_world = []"
    by (simp add: demo_world_def CheckAndRecordConnection_def checkConcurrentLimitLocked_def checkTotalRateLimitsLocked_def
      checkPeerRateLimitsLocked_def newConnectionLimiter_def DefaultConnectionLimitsConfig_def windowFull_def Let_def)
  obtain e where v: "validateIncomingSYN demo_env emptyPacket None = Some e"
    by (simp add: validateIncomingSYN_def validateSYNSource_def emptyPacket_def)
  have f: "checkAccessFilter demo_env (\<lambda>_. newAccessFilter None) ?l None emptyPacket demo_world = (None, demo_world)"
    by (simp add: checkAccessFilter_def demo_listener_def)
  have h: "handleIncomingSYN demo_env (\<lambda>_. newAccessFilter None) 2 1 emptyPacket 80 None [] ?l demo_world =
      Some (Ok (Some e, ?l, None, demo_world\<lparr>w_limiter := cl'\<rparr>), [])"
    using f v c by (simp add: handleIncomingSYN_def checkConnectionLimits_def)
  have "ActiveStreams (w_limiter (demo_world\<lparr>w_limiter := cl'\<rparr>)) = ActiveStreams (w_limiter demo_world) + 1"
    and "ActiveStreams (w_limiter demo_world) + 1 \<le>
      ActiveStreams (snd (run_ops (limiter_step (e_lib demo_env)) (w_limiter (demo_world\<lparr>w_limiter := cl'\<rparr>)) [limiter_op.Arrive (Some 4) 5, limiter_op.Cleanup 9]))"
    using refused_SYN_leaks_slot [OF _ f c h] n by (auto simp del: run_ops.simps)
  with h z show ?thesis by (intro exI [of _ e] exI [of _ "demo_world\<lparr>w_limiter := cl'\<rparr>"]) (simp add: ActiveStreams_def del: run_ops.simps)
qed

end
